(* ===== verification/Prelude.thy ===== *)
theory Prelude
  imports Main "HOL-Library.Word"
begin

text \<open>
  The shared layer of the development: the collections of simplification rules, the type
  synonyms of the machine types, the row-level list operations the SQL model is written in,
  and two generic interfaces. \<open>row_update\<close> is the contract of an UPDATE statement that
  leaves a key column alone; \<open>transition_system\<close> is the contract of a component whose
  operations keep an invariant, with what follows for whole runs.
\<close>

section \<open>Collections\<close>

named_theorems row_simps \<open>row selection and update\<close>
named_theorems store_defs \<open>the definitions of the SQL statements\<close>

type_synonym u8 = "8 word"
type_synonym u32 = "32 word"
type_synonym uuid = "128 word"  \<comment> \<open>the 16 bytes of a uuid\<close>
type_synonym nanos = int        \<comment> \<open>a Go time.Time: nanoseconds since the epoch\<close>
type_synonym micros = int       \<comment> \<open>a Postgres timestamptz: microseconds since the epoch\<close>

section \<open>Rows of a table\<close>

text \<open>
  A table is the list of its rows in insertion order. \<open>update_where\<close> is
  UPDATE ... SET ... WHERE, \<open>find\<close> the first row a :one query scans.
\<close>

definition update_where :: "('r \<Rightarrow> bool) \<Rightarrow> ('r \<Rightarrow> 'r) \<Rightarrow> 'r list \<Rightarrow> 'r list" where
  "update_where P f rows = map (\<lambda>r. if P r then f r else r) rows"

lemma update_where_Nil [row_simps, simp]: "update_where P f [] = []"
  by (simp add: update_where_def)

lemma update_where_Cons [row_simps, simp]:
  "update_where P f (r # rows) = (if P r then f r else r) # update_where P f rows"
  by (simp add: update_where_def)

lemma update_where_append [row_simps, simp]:
  "update_where P f (xs @ ys) = update_where P f xs @ update_where P f ys"
  by (simp add: update_where_def)

lemma set_update_where [row_simps]:
  "set (update_where P f rows) = (\<lambda>r. if P r then f r else r) ` set rows"
  by (simp add: update_where_def)

lemma length_update_where [row_simps, simp]: "length (update_where P f rows) = length rows"
  by (simp add: update_where_def)

lemma update_where_none [row_simps]:
  "(\<And>r. r \<in> set rows \<Longrightarrow> \<not> P r) \<Longrightarrow> update_where P f rows = rows"
  by (induction rows) auto

lemma map_update_where_same:
  "(\<And>r. g (f r) = g r) \<Longrightarrow> map g (update_where P f rows) = map g rows"
  by (simp add: update_where_def)

lemma filter_update_where_same:
  "(\<And>r. Q (f r) = Q r) \<Longrightarrow> filter Q (update_where P f rows) = update_where P f (filter Q rows)"
  by (induction rows) auto

lemma filter_update_where_disjoint:
  assumes "\<And>r. Q (f r) = Q r" and "\<And>r. Q r \<Longrightarrow> \<not> P r"
  shows "filter Q (update_where P f rows) = filter Q rows"
  using assms by (induction rows) auto

lemma list_ex_update_where_same:
  "(\<And>r. Q (f r) = Q r) \<Longrightarrow> list_ex Q (update_where P f rows) = list_ex Q rows"
  by (induction rows) auto

lemma map_sum_Inr: "map_sum g f x = Inr y \<longleftrightarrow> (\<exists>z. x = Inr z \<and> y = f z)"
  by (cases x) auto

lemma find_SomeD: "find P xs = Some x \<Longrightarrow> x \<in> set xs \<and> P x"
  by (auto simp: find_Some_iff)

lemma find_NoneD: "find P xs = None \<Longrightarrow> x \<in> set xs \<Longrightarrow> \<not> P x"
  by (simp add: find_None_iff)

lemma find_None_append [row_simps]: "find P (xs @ ys) = (case find P xs of None \<Rightarrow> find P ys | Some x \<Rightarrow> Some x)"
  by (induction xs) auto

lemma distinct_key_unique:
  assumes "distinct (map key rows)" and "r \<in> set rows" and "s \<in> set rows" and "key r = key s"
  shows "r = s"
  using assms by (induction rows) (auto simp: rev_image_eqI)

lemma find_by_key:
  assumes "distinct (map key rows)" and "r \<in> set rows"
  shows "find (\<lambda>s. key s = key r) rows = Some r"
  using assms by (induction rows) (auto simp: rev_image_eqI)

subsection \<open>The contract of an update that keeps a key\<close>

text \<open>
  What the store's constraints need of an UPDATE: the column \<open>key\<close> is not one it sets.
  Uniqueness, lookup by the key and membership of a value are then as before.
\<close>

locale row_update =
  fixes key :: "'r \<Rightarrow> 'k"
    and upd :: "'r \<Rightarrow> 'r"
  assumes key_upd: "key (upd r) = key r"
begin

lemma keys_same: "map key (update_where P upd rows) = map key rows"
  by (rule map_update_where_same) (rule key_upd)

lemma distinct_same: "distinct (map key (update_where P upd rows)) = distinct (map key rows)"
  by (simp add: keys_same)

lemma filter_other_key:
  assumes "\<And>r. P r \<Longrightarrow> key r = k" and "k \<noteq> k'"
  shows "filter (\<lambda>r. key r = k') (update_where P upd rows) = filter (\<lambda>r. key r = k') rows"
  by (rule filter_update_where_disjoint) (use assms key_upd in auto)

lemma filter_key: "filter (\<lambda>r. key r = k) (update_where P upd rows) = update_where P upd (filter (\<lambda>r. key r = k) rows)"
  by (rule filter_update_where_same) (simp add: key_upd)

lemma find_key:
  "find (\<lambda>r. key r = k) (update_where P upd rows)
     = map_option (\<lambda>r. if P r then upd r else r) (find (\<lambda>r. key r = k) rows)"
  by (induction rows) (auto simp: key_upd)

end

section \<open>Systems with an invariant\<close>

text \<open>
  The contract of a component whose state only changes by \<open>step\<close>: under the guard
  \<open>ok\<close> of an operation (freshness of what it draws, say) the invariant is kept. The
  client side is the run over a list of operations.
\<close>

fun run_steps :: "('op \<Rightarrow> 's \<Rightarrow> 's) \<Rightarrow> 'op list \<Rightarrow> 's \<Rightarrow> 's" where
  "run_steps step [] s = s"
| "run_steps step (a # as) s = run_steps step as (step a s)"

fun guarded_run :: "('op \<Rightarrow> 's \<Rightarrow> bool) \<Rightarrow> ('op \<Rightarrow> 's \<Rightarrow> 's) \<Rightarrow> 'op list \<Rightarrow> 's \<Rightarrow> bool" where
  "guarded_run ok step [] s = True"
| "guarded_run ok step (a # as) s = (ok a s \<and> guarded_run ok step as (step a s))"

lemma guarded_True [simp]: "guarded_run (\<lambda>_ _. True) step as s"
  by (induction as arbitrary: s) auto

locale transition_system =
  fixes step :: "'op \<Rightarrow> 's \<Rightarrow> 's"
    and ok :: "'op \<Rightarrow> 's \<Rightarrow> bool"
    and inv :: "'s \<Rightarrow> bool"
  assumes inv_step: "inv s \<Longrightarrow> ok a s \<Longrightarrow> inv (step a s)"
begin

lemma inv_run: "inv s \<Longrightarrow> guarded_run ok step as s \<Longrightarrow> inv (run_steps step as s)"
  by (induction as arbitrary: s) (auto intro: inv_step)

end

text \<open>A predicate that no operation undoes, relative to the invariant.\<close>

locale stable_predicate = transition_system +
  fixes stable :: "'s \<Rightarrow> bool"
  assumes stable_step: "inv s \<Longrightarrow> stable s \<Longrightarrow> ok a s \<Longrightarrow> stable (step a s)"
begin

lemma stable_run:
  "inv s \<Longrightarrow> stable s \<Longrightarrow> guarded_run ok step as s \<Longrightarrow> stable (run_steps step as s)"
  by (induction as arbitrary: s) (auto intro: inv_step stable_step)

end

text \<open>
  The same contract for a component with choice, whose steps are a relation: what every step
  keeps holds in every state it reaches.
\<close>

locale kept_by_steps =
  fixes step :: "'s \<Rightarrow> 's \<Rightarrow> bool"
    and inv :: "'s \<Rightarrow> bool"
  assumes kept: "inv s \<Longrightarrow> step s s' \<Longrightarrow> inv s'"
begin

lemma kept_reachable: "step\<^sup>*\<^sup>* s s' \<Longrightarrow> inv s \<Longrightarrow> inv s'"
  by (induction rule: rtranclp_induct) (auto intro: kept)

end

text \<open>
  Refinement. Both systems answer each operation and move on; \<open>run_trace\<close> collects the
  answers. Where one step of the detailed system, under the guard, answers and moves as the
  abstract one does, whole runs do.
\<close>

fun run_trace :: "('op \<Rightarrow> 's \<Rightarrow> 'o \<times> 's) \<Rightarrow> 'op list \<Rightarrow> 's \<Rightarrow> 'o list \<times> 's" where
  "run_trace step [] s = ([], s)"
| "run_trace step (a # as) s =
    (let (out, s1) = step a s; (outs, s2) = run_trace step as s1 in (out # outs, s2))"

locale simulation =
  fixes step :: "'op \<Rightarrow> 's \<Rightarrow> 'o \<times> 's"
    and spec :: "'op \<Rightarrow> 'a \<Rightarrow> 'o \<times> 'a"
    and abst :: "'s \<Rightarrow> 'a"
    and ok :: "'op \<Rightarrow> 's \<Rightarrow> bool"
    and inv :: "'s \<Rightarrow> bool"
  assumes sim_step: "inv s \<Longrightarrow> ok a s \<Longrightarrow> map_prod id abst (step a s) = spec a (abst s)"
    and sim_inv: "inv s \<Longrightarrow> ok a s \<Longrightarrow> inv (snd (step a s))"
begin

lemma sim_run:
  "inv s \<Longrightarrow> guarded_run ok (\<lambda>a s. snd (step a s)) as s \<Longrightarrow>
    map_prod id abst (run_trace step as s) = run_trace spec as (abst s)"
proof (induction as arbitrary: s)
  case (Cons a as)
  obtain x s1 where x: "step a s = (x, s1)" by (cases "step a s")
  obtain xs s2 where xs: "run_trace step as s1 = (xs, s2)" by (cases "run_trace step as s1")
  have "spec a (abst s) = (x, abst s1)" using sim_step [of s a] Cons.prems x by simp
  moreover have "inv s1" using sim_inv [of s a] Cons.prems x by simp
  then have "run_trace spec as (abst s1) = (xs, abst s2)" using Cons.IH [of s1] Cons.prems x xs by simp
  ultimately show ?case using x xs by simp
qed simp

end

end
