(* ===== verification/Go_Lib.thy ===== *)
theory Go_Lib
  imports Prelude
begin

text \<open>
  What the source uses of Go's strings, time and crypto/subtle packages. A string is its
  bytes (a char list), as in Go; times are integers of nanoseconds.
\<close>

unbundle bit_operations_syntax

section \<open>Prefixes, suffixes, Cut\<close>

definition has_prefix :: "string \<Rightarrow> string \<Rightarrow> bool" where
  "has_prefix s p = (length p \<le> length s \<and> take (length p) s = p)"

definition has_suffix :: "string \<Rightarrow> string \<Rightarrow> bool" where
  "has_suffix s p = (length p \<le> length s \<and> drop (length s - length p) s = p)"

definition trim_prefix :: "string \<Rightarrow> string \<Rightarrow> string" where
  "trim_prefix s p = (if has_prefix s p then drop (length p) s else s)"

text \<open>strings.Cut with a one-byte separator: before, after, found.\<close>

definition cut :: "string \<Rightarrow> char \<Rightarrow> string \<times> string \<times> bool" where
  "cut s c = (if c \<in> set s
     then (takeWhile (\<lambda>d. d \<noteq> c) s, tl (dropWhile (\<lambda>d. d \<noteq> c) s), True)
     else (s, [], False))"

lemma has_prefix_append [simp]: "has_prefix (p @ s) p"
  by (simp add: has_prefix_def)

lemma trim_prefix_append [simp]: "trim_prefix (p @ s) p = s"
  by (simp add: trim_prefix_def)

lemma has_prefix_iff: "has_prefix s p \<longleftrightarrow> (\<exists>t. s = p @ t)"
  by (metis append_take_drop_id has_prefix_append has_prefix_def)

lemma has_suffix_iff: "has_suffix s p \<longleftrightarrow> (\<exists>t. s = t @ p)"
proof
  assume "has_suffix s p"
  then have "s = take (length s - length p) s @ p"
    by (metis append_take_drop_id has_suffix_def)
  then show "\<exists>t. s = t @ p" ..
qed (auto simp: has_suffix_def)

lemma cut_found: "cut s c = (before, after, True) \<Longrightarrow> s = before @ c # after \<and> c \<notin> set before"
proof -
  assume a: "cut s c = (before, after, True)"
  then have c: "c \<in> set s" and b: "before = takeWhile (\<lambda>d. d \<noteq> c) s"
    and f: "after = tl (dropWhile (\<lambda>d. d \<noteq> c) s)"
    by (auto simp: cut_def split: if_splits)
  have "dropWhile (\<lambda>d. d \<noteq> c) s = c # after"
    using c f hd_dropWhile [of "\<lambda>d. d \<noteq> c" s] by (metis (mono_tags, lifting) dropWhile_eq_Nil_conv list.collapse)
  then show ?thesis
    using b set_takeWhileD [of c "\<lambda>d. d \<noteq> c" s] by (metis takeWhile_dropWhile_id)
qed

section \<open>TrimSpace and ToLower on UTF-8 bytes\<close>

text \<open>The UTF-8 encodings of the runes unicode.IsSpace accepts.\<close>

definition space_runes :: "string list" where
  "space_runes =
    map (\<lambda>n. [char_of n]) [0x09 :: nat, 0x0A, 0x0B, 0x0C, 0x0D, 0x20]
    @ map (map char_of) [[0xC2 :: nat, 0x85], [0xC2, 0xA0], [0xE1, 0x9A, 0x80],
        [0xE2, 0x80, 0x80], [0xE2, 0x80, 0x81], [0xE2, 0x80, 0x82], [0xE2, 0x80, 0x83],
        [0xE2, 0x80, 0x84], [0xE2, 0x80, 0x85], [0xE2, 0x80, 0x86], [0xE2, 0x80, 0x87],
        [0xE2, 0x80, 0x88], [0xE2, 0x80, 0x89], [0xE2, 0x80, 0x8A], [0xE2, 0x80, 0xA8],
        [0xE2, 0x80, 0xA9], [0xE2, 0x80, 0xAF], [0xE2, 0x81, 0x9F], [0xE3, 0x80, 0x80]]"

lemma space_runes_nonempty: "p \<in> set space_runes \<Longrightarrow> p \<noteq> []"
  by (auto simp: space_runes_def)

function trim_left :: "string \<Rightarrow> string" where
  "trim_left s = (case find (has_prefix s) space_runes of
     None \<Rightarrow> s | Some p \<Rightarrow> trim_left (drop (length p) s))"
  by pat_completeness auto
termination
proof (relation "measure length")
  fix s p assume "find (has_prefix s) space_runes = Some p"
  then have "p \<in> set space_runes" "has_prefix s p" by (auto dest: find_SomeD)
  then have "0 < length p" "length p \<le> length s" "0 < length s"
    by (auto dest: space_runes_nonempty simp: has_prefix_def)
  then show "(drop (length p) s, s) \<in> measure length" by (simp add: diff_less)
qed simp

function trim_right :: "string \<Rightarrow> string" where
  "trim_right s = (case find (has_suffix s) space_runes of
     None \<Rightarrow> s | Some p \<Rightarrow> trim_right (take (length s - length p) s))"
  by pat_completeness auto
termination
proof (relation "measure length")
  fix s p assume "find (has_suffix s) space_runes = Some p"
  then have "p \<in> set space_runes" "has_suffix s p" by (auto dest: find_SomeD)
  then have "0 < length p" "length p \<le> length s" "0 < length s"
    by (auto dest: space_runes_nonempty simp: has_suffix_def)
  then show "(take (length s - length p) s, s) \<in> measure length" by (simp add: diff_less)
qed simp

declare trim_left.simps [simp del] trim_right.simps [simp del]

definition trim_space :: "string \<Rightarrow> string" where
  "trim_space s = trim_right (trim_left s)"

definition starts_with_space :: "string \<Rightarrow> bool" where
  "starts_with_space s = list_ex (has_prefix s) space_runes"

definition ends_with_space :: "string \<Rightarrow> bool" where
  "ends_with_space s = list_ex (has_suffix s) space_runes"

lemma find_none_list_ex: "find P xs = None \<longleftrightarrow> \<not> list_ex P xs"
  by (induction xs) auto

lemma trim_left_stop: "\<not> starts_with_space s \<Longrightarrow> trim_left s = s"
  by (subst trim_left.simps) (simp add: starts_with_space_def flip: find_none_list_ex)

lemma trim_right_stop: "\<not> ends_with_space s \<Longrightarrow> trim_right s = s"
  by (subst trim_right.simps) (simp add: ends_with_space_def flip: find_none_list_ex)

lemma trim_left_clean: "\<not> starts_with_space (trim_left s)"
proof (induction s rule: trim_left.induct)
  case (1 s)
  show ?case
  proof (cases "find (has_prefix s) space_runes")
    case None
    then show ?thesis
      by (subst trim_left.simps) (simp add: starts_with_space_def flip: find_none_list_ex)
  next
    case (Some p)
    with "1.IH" show ?thesis by (subst trim_left.simps) simp
  qed
qed

lemma trim_right_clean: "\<not> ends_with_space (trim_right s)"
proof (induction s rule: trim_right.induct)
  case (1 s)
  show ?case
  proof (cases "find (has_suffix s) space_runes")
    case None
    then show ?thesis
      by (subst trim_right.simps) (simp add: ends_with_space_def flip: find_none_list_ex)
  next
    case (Some p)
    with "1.IH" show ?thesis by (subst trim_right.simps) simp
  qed
qed

lemma trim_right_prefix: "\<exists>t. s = trim_right s @ t"
proof (induction s rule: trim_right.induct)
  case (1 s)
  show ?case
  proof (cases "find (has_suffix s) space_runes")
    case None
    then show ?thesis by (subst trim_right.simps) simp
  next
    case (Some p)
    with "1.IH" obtain t where "take (length s - length p) s = trim_right (take (length s - length p) s) @ t"
      by blast
    moreover have "trim_right s = trim_right (take (length s - length p) s)"
      by (subst trim_right.simps) (simp add: Some)
    ultimately have "s = trim_right s @ t @ drop (length s - length p) s"
      by (metis append_assoc append_take_drop_id)
    then show ?thesis ..
  qed
qed

lemma starts_with_space_mono: "starts_with_space s \<Longrightarrow> starts_with_space (s @ t)"
  by (force simp: starts_with_space_def list_ex_iff has_prefix_iff)

lemma trim_space_clean: "\<not> starts_with_space (trim_space s)" "\<not> ends_with_space (trim_space s)"
proof -
  show "\<not> ends_with_space (trim_space s)" by (simp add: trim_space_def trim_right_clean)
  obtain t where "trim_left s = trim_right (trim_left s) @ t" using trim_right_prefix by blast
  then show "\<not> starts_with_space (trim_space s)"
    by (metis starts_with_space_mono trim_left_clean trim_space_def)
qed

lemma trim_space_Nil [simp]: "trim_space [] = []"
proof -
  have "\<not> starts_with_space []" "\<not> ends_with_space []"
    by (auto simp: starts_with_space_def ends_with_space_def list_ex_iff has_prefix_def has_suffix_def dest: space_runes_nonempty)
  then show ?thesis by (simp add: trim_space_def trim_left_stop trim_right_stop)
qed

lemma trim_space_idem [simp]: "trim_space (trim_space s) = trim_space s"
  using trim_space_clean [of s] by (simp add: trim_space_def trim_left_stop trim_right_stop)

text \<open>Text whose first and last bytes are printable ASCII is left as it is.\<close>

definition printable :: "char \<Rightarrow> bool" where
  "printable c \<longleftrightarrow> 0x20 < (of_char c :: nat) \<and> (of_char c :: nat) < 0x80"

lemma space_runes_unprintable: "p \<in> set space_runes \<Longrightarrow> \<not> printable (hd p) \<and> \<not> printable (last p)"
  by (auto simp: space_runes_def printable_def)

lemma trim_space_printable:
  assumes "s \<noteq> []" and "printable (hd s)" and "printable (last s)"
  shows "trim_space s = s"
proof -
  have "\<not> has_prefix s p" "\<not> has_suffix s p" if "p \<in> set space_runes" for p
    using assms space_runes_unprintable [OF that] space_runes_nonempty [OF that]
    by (auto simp: has_prefix_iff has_suffix_iff)
  then have "\<not> starts_with_space s" "\<not> ends_with_space s"
    by (auto simp: starts_with_space_def ends_with_space_def list_ex_iff)
  then show ?thesis by (simp add: trim_space_def trim_left_stop trim_right_stop)
qed

text \<open>
  strings.ToLower: A to Z, and the two runes outside ASCII whose lower case is an ASCII
  letter (U+0130 to i, U+212A to k). Other runes lower to runes outside ASCII; their bytes
  are left as they are, which no comparison with an ASCII literal can tell apart, and the
  source makes no other use of the result.
\<close>

definition lower_byte :: "char \<Rightarrow> char" where
  "lower_byte c = (let n = of_char c :: nat in if 65 \<le> n \<and> n \<le> 90 then char_of (n + 32) else c)"

function (sequential) to_lower :: "string \<Rightarrow> string" where
  "to_lower [] = []"
| "to_lower (c # cs) =
    (if take 2 (c # cs) = map char_of [0xC4 :: nat, 0xB0] then CHR ''i'' # to_lower (drop 1 cs)
     else if take 3 (c # cs) = map char_of [0xE2 :: nat, 0x84, 0xAA] then CHR ''k'' # to_lower (drop 2 cs)
     else lower_byte c # to_lower cs)"
  by pat_completeness auto
termination by (relation "measure length") auto

section \<open>Decimals\<close>

text \<open>strconv.Itoa.\<close>

fun decimal_nat :: "nat \<Rightarrow> string" where
  "decimal_nat n = (if n < 10 then [char_of (48 + n)] else decimal_nat (n div 10) @ [char_of (48 + n mod 10)])"

declare decimal_nat.simps [simp del]

definition decimal :: "int \<Rightarrow> string" where
  "decimal k = (if k < 0 then CHR ''-'' # decimal_nat (nat (- k)) else decimal_nat (nat k))"

section \<open>Times and durations\<close>

definition second :: nanos where
  "second = 1000000000"

definition minute :: nanos where
  "minute = 60 * second"

definition hour :: nanos where
  "hour = 60 * minute"

text \<open>
  Duration.Round(time.Second) rounds halves away from zero; int(d.Seconds()) truncates
  towards zero (exactly, for the durations of at most 60 days the source has).
\<close>

definition trunc_seconds :: "nanos \<Rightarrow> int" where
  "trunc_seconds d = sgn d * (\<bar>d\<bar> div second)"

definition round_seconds :: "nanos \<Rightarrow> int" where
  "round_seconds d = sgn d * ((\<bar>d\<bar> + second div 2) div second)"

text \<open>pgx writes a time.Time as whole microseconds, rounding down.\<close>

definition to_micros :: "nanos \<Rightarrow> micros" where
  "to_micros t = t div 1000"

section \<open>crypto/subtle.ConstantTimeCompare\<close>

text \<open>\<open>int((uint32(x^y) - 1) >> 31)\<close>: 1 when the bytes are equal, without a branch.\<close>

definition constant_time_byte_eq :: "u8 \<Rightarrow> u8 \<Rightarrow> int" where
  "constant_time_byte_eq x y = uint (drop_bit 31 ((ucast (x XOR y) :: u32) - 1))"

definition constant_time_compare :: "u8 list \<Rightarrow> u8 list \<Rightarrow> int" where
  "constant_time_compare x y =
    (if length x \<noteq> length y then 0
     else constant_time_byte_eq (foldl (\<lambda>v (a, b). v OR (a XOR b)) 0 (zip x y)) 0)"

lemma or_eq_0_word: "(a OR b = 0) \<longleftrightarrow> (a = 0 \<and> b = (0 :: 'a :: len word))"
  by (metis or.left_idem or.right_neutral or.commute)

lemma xor_eq_0_word: "(a XOR b = 0) \<longleftrightarrow> (a = (b :: 'a :: len word))"
  by (metis xor.assoc xor.left_neutral xor.right_neutral xor_self_eq)

lemma fold_or_eq_0:
  "foldl (\<lambda>v (a, b). v OR (a XOR b)) v ps = (0 :: u8)
     \<longleftrightarrow> v = 0 \<and> (\<forall>(a, b) \<in> set ps. a = b)"
  by (induction ps arbitrary: v) (auto simp: or_eq_0_word xor_eq_0_word)

lemma byte_eq_cases: "constant_time_byte_eq v 0 = (if v = 0 then 1 else 0)"
proof (cases "v = 0")
  case True
  then show ?thesis by (simp add: constant_time_byte_eq_def)
next
  case False
  then have pos: "0 < unat v" and lt: "unat v < 256"
    using unsigned_less [of v, where ?'a = nat] by (simp_all add: unat_gt_0)
  have "unat ((ucast v :: u32) - 1) = unat v - 1"
    using pos lt by (simp add: unat_sub_if_size unat_minus_one unsigned_ucast_eq take_bit_nat_eq_self)
  then have "unat (drop_bit 31 ((ucast v :: u32) - 1)) = 0"
    using lt by (subst unsigned_drop_bit_eq) (simp add: take_bit_nat_eq_self drop_bit_eq_div)
  then have "drop_bit 31 ((ucast v :: u32) - 1) = 0" by (simp add: unat_eq_zero)
  with False show ?thesis by (simp add: constant_time_byte_eq_def)
qed

lemma constant_time_compare_iff: "constant_time_compare x y = 1 \<longleftrightarrow> x = y"
proof (cases "length x = length y")
  case True
  have "(\<forall>(a, b) \<in> set (zip x y). a = b) \<longleftrightarrow> x = y"
    using True by (induction x y rule: list_induct2) auto
  with True show ?thesis
    by (simp add: constant_time_compare_def byte_eq_cases fold_or_eq_0)
qed (auto simp: constant_time_compare_def)

end
