(* ===== verification/Schema.thy ===== *)
theory Schema
  imports Go_Lib
begin

text \<open>
  The database: the tables of migrations/*.sql with the row types sqlc generates from them
  (internal/store/models.go), how a statement can fail, and what one request draws from its
  environment (clock readings, random bytes, generated uuids, faults of the connection).
\<close>

section \<open>Rows\<close>

record user_row =
  user_id :: uuid
  display_name :: string
  email :: string
  email_verified :: bool
  avatar_url :: "string option"
  user_created_at :: micros
  user_updated_at :: micros
  user_deleted_at :: "micros option"

record identity_row =
  identity_id :: uuid
  identity_user :: uuid
  identity_provider :: string
  identity_subject :: string
  identity_created_at :: micros
  identity_updated_at :: micros

record refresh_token =
  token_id :: uuid
  token_user :: uuid
  token_family :: uuid
  token_hash :: string
  issued_at :: micros
  expires_at :: micros
  used_at :: "micros option"
  revoked_at :: "micros option"

record db =
  users :: "user_row list"
  identities :: "identity_row list"
  refresh_tokens :: "refresh_token list"

definition empty_db :: db where
  "empty_db = \<lparr>users = [], identities = [], refresh_tokens = []\<rparr>"

section \<open>Statements\<close>

text \<open>
  pgx.ErrNoRows for a :one query without a row, a constraint the statement violates, or a
  connection that failed.
\<close>

datatype sql_error =
    NoRows
  | UniqueViolation string
  | ForeignKeyViolation string
  | ConnectionLost

type_synonym 'a statement = "db \<Rightarrow> (sql_error + 'a) \<times> db"

text \<open>
  A statement reaches the server and answers, or its connection fails before the server ran
  it, or after: the caller then sees an error for a statement that took effect.
\<close>

datatype fault = NoFault | FailsBefore | FailsAfter

definition exec :: "fault \<Rightarrow> 'a statement \<Rightarrow> 'a statement" where
  "exec f q d =
    (case f of
       NoFault \<Rightarrow> q d
     | FailsBefore \<Rightarrow> (Inl ConnectionLost, d)
     | FailsAfter \<Rightarrow> (Inl ConnectionLost, snd (q d)))"

text \<open>A query reads; a commit replaces the committed state by the transaction's.\<close>

definition query :: "(db \<Rightarrow> sql_error + 'a) \<Rightarrow> 'a statement" where
  "query q d = (q d, d)"

definition begin_tx :: "unit statement" where
  "begin_tx d = (Inr (), d)"

text \<open>The query of queries.sql, which touches no table; ok is an int4.\<close>

definition ping :: "32 word statement" where
  "ping = query (\<lambda>d. Inr 1)"

definition commit_tx :: "db \<Rightarrow> unit statement" where
  "commit_tx tx d = (Inr (), tx)"

lemma exec_NoFault [simp]: "exec NoFault q d = q d"
  by (simp add: exec_def)

lemma exec_Inr: "exec f q d = (Inr a, d') \<Longrightarrow> q d = (Inr a, d')"
  by (auto simp: exec_def split: fault.splits)

lemma exec_state: "exec f q d = (r, d') \<Longrightarrow> d' = d \<or> d' = snd (q d)"
  by (auto simp: exec_def split: fault.splits)

lemma exec_query_state: "exec f (query q) d = (r, d') \<Longrightarrow> d' = d"
  by (auto simp: exec_def query_def split: fault.splits)

lemma exec_query_Inl: "exec f (query q) d = (Inl err, d') \<Longrightarrow> err = ConnectionLost \<or> q d = Inl err"
  by (auto simp: exec_def query_def split: fault.splits)

lemma exec_query_Inr: "exec f (query q) d = (Inr a, d') \<Longrightarrow> q d = Inr a \<and> d' = d"
  by (auto simp: exec_def query_def split: fault.splits)

lemma exec_query_both: "exec f (query q) d = (x, d') \<Longrightarrow> d' = d \<and> (\<forall>a. x = Inr a \<longrightarrow> q d = Inr a)"
  by (auto simp: exec_def query_def split: fault.splits)

lemma exec_begin_state: "exec f begin_tx d = (r, d') \<Longrightarrow> d' = d"
  by (auto simp: exec_def begin_tx_def split: fault.splits)

lemma exec_commit_state: "exec f (commit_tx tx) d = (r, d') \<Longrightarrow> d' = d \<or> d' = tx"
  by (auto simp: exec_def commit_tx_def split: fault.splits)

lemma exec_commit_Inr: "exec f (commit_tx tx) d = (Inr u, d') \<Longrightarrow> d' = tx"
  by (auto simp: exec_def commit_tx_def split: fault.splits)

section \<open>The environment of one request\<close>

datatype db_op =
    BeginTx
  | CommitTx
  | InsertRefreshToken
  | ConsumeRefreshToken
  | GetRefreshTokenByHash
  | IsBenignRefreshRace
  | RevokeRefreshTokenFamily
  | RevokeRefreshTokensForUser
  | GetUserByIdentity
  | GetVerifiedUserByEmail
  | CreateUser
  | CreateIdentity
  | UpdateUserProfile
  | ListIdentitySubjectsForUser
  | GetUserByID

datatype clock = RefreshClock | AccessClock | ParseClock | CookieClock | BodyClock | VerifyClock

datatype table_name = UsersTable | IdentitiesTable | RefreshTokensTable

text \<open>
  \<open>db_now op\<close> is Postgres's now() for the statement \<open>op\<close>. now() is fixed for a transaction:
  every statement of one reads \<open>db_now BeginTx\<close>. \<open>row_id\<close> is what gen_random_uuid() gives the
  row inserted into a table, \<open>fresh_uuid\<close> what uuid.New() returns.
\<close>

record env =
  fault_at :: "db_op \<Rightarrow> fault"
  db_now :: "db_op \<Rightarrow> micros"
  go_now :: "clock \<Rightarrow> nanos"
  random_bytes :: "(nat \<Rightarrow> u8) option"
  fresh_uuid :: uuid
  row_id :: "table_name \<Rightarrow> uuid"

text \<open>A request none of whose statements fails.\<close>

definition faultless :: "env \<Rightarrow> bool" where
  "faultless e \<longleftrightarrow> fault_at e = (\<lambda>_. NoFault)"

lemma faultlessD: "faultless e \<Longrightarrow> fault_at e op = NoFault"
  by (simp add: faultless_def)

end
