(* ===== verification/Account_Store.thy ===== *)
theory Account_Store
  imports Schema "HOL-Library.List_Lexorder" "HOL-Library.Char_ord"
begin

text \<open>
  The statements on users and identities (internal/store/accounts.sql.go), one definition
  each, with the constraints of migrations/00002 and 00004: emails are citext, unique among
  the verified ones only, and (provider, subject) is unique.

  Two behaviours of the Postgres server are parameters: how citext folds an address before
  comparing it, and the key by which the collation orders text.
\<close>

record pg =
  citext_fold :: "string \<Rightarrow> string"
  collation_key :: "string \<Rightarrow> string"

section \<open>The statements\<close>

definition same_email :: "pg \<Rightarrow> string \<Rightarrow> string \<Rightarrow> bool" where
  "same_email g a b \<longleftrightarrow> citext_fold g a = citext_fold g b"

record create_user_params =
  new_display_name :: string
  new_email :: string
  new_email_verified :: bool
  new_avatar_url :: "string option"

definition new_user :: "micros \<Rightarrow> uuid \<Rightarrow> create_user_params \<Rightarrow> user_row" where
  "new_user now i p = \<lparr>user_id = i, display_name = new_display_name p, email = new_email p,
     email_verified = new_email_verified p, avatar_url = new_avatar_url p,
     user_created_at = now, user_updated_at = now, user_deleted_at = None\<rparr>"

text \<open>The partial unique index sees verified rows only, deleted or not.\<close>

definition create_user :: "pg \<Rightarrow> micros \<Rightarrow> uuid \<Rightarrow> create_user_params \<Rightarrow> user_row statement" where
  "create_user g now i p d =
    (if i \<in> user_id ` set (users d) then (Inl (UniqueViolation ''users_pkey''), d)
     else if new_email_verified p \<and> list_ex (\<lambda>u. email_verified u \<and> same_email g (email u) (new_email p)) (users d)
       then (Inl (UniqueViolation ''users_email_verified_key''), d)
     else (Inr (new_user now i p), d\<lparr>users := users d @ [new_user now i p]\<rparr>))"

record create_identity_params =
  link_user :: uuid
  link_provider :: string
  link_subject :: string

definition new_identity :: "micros \<Rightarrow> uuid \<Rightarrow> create_identity_params \<Rightarrow> identity_row" where
  "new_identity now i p = \<lparr>identity_id = i, identity_user = link_user p, identity_provider = link_provider p,
     identity_subject = link_subject p, identity_created_at = now, identity_updated_at = now\<rparr>"

definition is_identity :: "string \<Rightarrow> string \<Rightarrow> identity_row \<Rightarrow> bool" where
  "is_identity provider subject i \<longleftrightarrow> identity_provider i = provider \<and> identity_subject i = subject"

definition create_identity :: "micros \<Rightarrow> uuid \<Rightarrow> create_identity_params \<Rightarrow> identity_row statement" where
  "create_identity now i p d =
    (if i \<in> identity_id ` set (identities d) then (Inl (UniqueViolation ''identities_pkey''), d)
     else if list_ex (is_identity (link_provider p) (link_subject p)) (identities d)
       then (Inl (UniqueViolation ''identities_provider_subject_key''), d)
     else if link_user p \<notin> user_id ` set (users d)
       then (Inl (ForeignKeyViolation ''identities_user_id_fkey''), d)
     else (Inr (new_identity now i p), d\<lparr>identities := identities d @ [new_identity now i p]\<rparr>))"

definition one_row :: "'r option \<Rightarrow> sql_error + 'r" where
  "one_row r = (case r of None \<Rightarrow> Inl NoRows | Some x \<Rightarrow> Inr x)"

definition get_user_by_id :: "uuid \<Rightarrow> db \<Rightarrow> sql_error + user_row" where
  "get_user_by_id i d = one_row (find (\<lambda>u. user_id u = i \<and> user_deleted_at u = None) (users d))"

text \<open>The join: a user with an identity of that provider and subject.\<close>

definition get_user_by_identity :: "string \<Rightarrow> string \<Rightarrow> db \<Rightarrow> sql_error + user_row" where
  "get_user_by_identity provider subject d =
    one_row (find (\<lambda>u. list_ex (\<lambda>i. identity_user i = user_id u \<and> is_identity provider subject i) (identities d)
       \<and> user_deleted_at u = None) (users d))"

definition get_verified_user_by_email :: "pg \<Rightarrow> string \<Rightarrow> db \<Rightarrow> sql_error + user_row" where
  "get_verified_user_by_email g e d =
    one_row (find (\<lambda>u. same_email g (email u) e \<and> email_verified u \<and> user_deleted_at u = None) (users d))"

text \<open>ORDER BY provider; rows of one provider stay in table order.\<close>

definition list_identity_subjects_for_user :: "pg \<Rightarrow> uuid \<Rightarrow> db \<Rightarrow> sql_error + (string \<times> string) list" where
  "list_identity_subjects_for_user g i d =
    Inr (map (\<lambda>r. (identity_provider r, identity_subject r))
      (sort_key (\<lambda>r. collation_key g (identity_provider r)) (filter (\<lambda>r. identity_user r = i) (identities d))))"

definition set_profile :: "micros \<Rightarrow> string \<Rightarrow> string option \<Rightarrow> user_row \<Rightarrow> user_row" where
  "set_profile now name avatar u = u\<lparr>display_name := name, avatar_url := avatar, user_updated_at := now\<rparr>"

definition update_user_profile :: "micros \<Rightarrow> uuid \<Rightarrow> string \<Rightarrow> string option \<Rightarrow> user_row statement" where
  "update_user_profile now i name avatar d =
    (case find (\<lambda>u. user_id u = i) (users d) of
       None \<Rightarrow> (Inl NoRows, d)
     | Some u \<Rightarrow> (Inr (set_profile now name avatar u),
         d\<lparr>users := update_where (\<lambda>u. user_id u = i) (set_profile now name avatar) (users d)\<rparr>))"

section \<open>What an update leaves alone\<close>

lemma set_profile_simps [simp]:
  "user_id (set_profile now n a u) = user_id u" "email (set_profile now n a u) = email u"
  "email_verified (set_profile now n a u) = email_verified u" "display_name (set_profile now n a u) = n"
  "avatar_url (set_profile now n a u) = a" "user_created_at (set_profile now n a u) = user_created_at u"
  "user_updated_at (set_profile now n a u) = now" "user_deleted_at (set_profile now n a u) = user_deleted_at u"
  by (simp_all add: set_profile_def)

lemma new_user_simps [simp]:
  "user_id (new_user now i p) = i" "email (new_user now i p) = new_email p"
  "email_verified (new_user now i p) = new_email_verified p" "display_name (new_user now i p) = new_display_name p"
  "avatar_url (new_user now i p) = new_avatar_url p" "user_deleted_at (new_user now i p) = None"
  by (simp_all add: new_user_def)

lemma new_identity_simps [simp]:
  "identity_id (new_identity now i p) = i" "identity_user (new_identity now i p) = link_user p"
  "identity_provider (new_identity now i p) = link_provider p" "identity_subject (new_identity now i p) = link_subject p"
  by (simp_all add: new_identity_def)

interpretation profile_id: row_update user_id "set_profile now n a" for now n a by unfold_locales simp
interpretation profile_email: row_update "\<lambda>u. (email_verified u, email u)" "set_profile now n a" for now n a
  by unfold_locales simp

section \<open>Constraints\<close>

definition verified_emails :: "pg \<Rightarrow> db \<Rightarrow> string list" where
  "verified_emails g d = map (\<lambda>u. citext_fold g (email u)) (filter email_verified (users d))"

definition identity_key :: "identity_row \<Rightarrow> string \<times> string" where
  "identity_key i = (identity_provider i, identity_subject i)"

definition accounts_wf :: "pg \<Rightarrow> db \<Rightarrow> bool" where
  "accounts_wf g d \<longleftrightarrow> distinct (map user_id (users d)) \<and> distinct (verified_emails g d)
    \<and> distinct (map identity_id (identities d)) \<and> distinct (map identity_key (identities d))
    \<and> (\<forall>i \<in> set (identities d). identity_user i \<in> user_id ` set (users d))"

lemma create_user_Inr:
  "create_user g now i p d = (Inr u, d') \<longleftrightarrow> i \<notin> user_id ` set (users d)
    \<and> \<not> (new_email_verified p \<and> list_ex (\<lambda>u. email_verified u \<and> same_email g (email u) (new_email p)) (users d))
    \<and> u = new_user now i p \<and> d' = d\<lparr>users := users d @ [new_user now i p]\<rparr>"
  by (auto simp: create_user_def)

lemma create_identity_Inr:
  "create_identity now i p d = (Inr r, d') \<longleftrightarrow> i \<notin> identity_id ` set (identities d)
    \<and> \<not> list_ex (is_identity (link_provider p) (link_subject p)) (identities d)
    \<and> link_user p \<in> user_id ` set (users d)
    \<and> r = new_identity now i p \<and> d' = d\<lparr>identities := identities d @ [new_identity now i p]\<rparr>"
  by (auto simp: create_identity_def)

lemma update_user_profile_Inr:
  "update_user_profile now i n a d = (Inr u, d') \<longleftrightarrow>
    (\<exists>v. find (\<lambda>u. user_id u = i) (users d) = Some v \<and> u = set_profile now n a v
      \<and> d' = d\<lparr>users := update_where (\<lambda>u. user_id u = i) (set_profile now n a) (users d)\<rparr>)"
  by (auto simp: update_user_profile_def split: option.splits)

lemma one_row_Inr [simp]: "one_row r = Inr x \<longleftrightarrow> r = Some x"
  by (auto simp: one_row_def split: option.splits)

lemma one_row_Inl [simp]: "one_row r = Inl err \<longleftrightarrow> r = None \<and> err = NoRows"
  by (auto simp: one_row_def split: option.splits)

lemma create_user_wf: "accounts_wf g d \<Longrightarrow> accounts_wf g (snd (create_user g now i p d))"
  by (auto simp: create_user_def accounts_wf_def verified_emails_def same_email_def list_ex_iff)

lemma create_identity_wf: "accounts_wf g d \<Longrightarrow> accounts_wf g (snd (create_identity now i p d))"
  by (auto simp: create_identity_def accounts_wf_def verified_emails_def is_identity_def identity_key_def list_ex_iff)

lemma update_user_profile_wf: "accounts_wf g d \<Longrightarrow> accounts_wf g (snd (update_user_profile now i n a d))"
proof -
  have "map (\<lambda>u. citext_fold g (email u)) (filter email_verified (update_where P (set_profile now n a) us))
      = map (\<lambda>u. citext_fold g (email u)) (filter email_verified us)" for P us
    by (induction us) auto
  moreover have "user_id ` set (update_where P (set_profile now n a) us) = user_id ` set us" for P us
    using arg_cong [OF profile_id.keys_same [of P now n a us], of set] by simp
  ultimately show "accounts_wf g d \<Longrightarrow> ?thesis"
    by (auto simp: update_user_profile_def accounts_wf_def verified_emails_def profile_id.distinct_same split: option.splits)
qed

end
