(* ===== verification/Json.thy ===== *)
theory Json
  imports Go_Lib
begin

text \<open>
  What the source uses of encoding/json: reading the first value of a request body, reading
  a whole claims document, and storing the members of an object into the string and bool
  fields of a struct. A string is its UTF-8 bytes. The recursion takes fuel; two steps
  per byte are enough, which \<open>json_fuel_enough\<close> proves.
\<close>

section \<open>Values\<close>

datatype json =
    JNull
  | JBool bool
  | JNumber string
  | JString string
  | JArray "json list"
  | JObject "(string \<times> json) list"

section \<open>Bytes of a string literal\<close>

definition byte :: "char \<Rightarrow> nat" where
  "byte c = of_char c"

definition is_cont :: "char \<Rightarrow> bool" where
  "is_cont c \<longleftrightarrow> 0x80 \<le> byte c \<and> byte c \<le> 0xBF"

text \<open>The length of the UTF-8 sequence a string starts with, 0 where it is not valid.\<close>

definition utf8_size :: "string \<Rightarrow> nat" where
  "utf8_size s =
    (case s of
       [] \<Rightarrow> 0
     | a # r \<Rightarrow>
        (if byte a < 0x80 then 1
         else if 0xC2 \<le> byte a \<and> byte a \<le> 0xDF then
           (case r of b # _ \<Rightarrow> if is_cont b then 2 else 0 | _ \<Rightarrow> 0)
         else if 0xE0 \<le> byte a \<and> byte a \<le> 0xEF then
           (case r of b # c # _ \<Rightarrow>
              if is_cont b \<and> is_cont c \<and> (byte a = 0xE0 \<longrightarrow> 0xA0 \<le> byte b) \<and> (byte a = 0xED \<longrightarrow> byte b \<le> 0x9F)
              then 3 else 0 | _ \<Rightarrow> 0)
         else if 0xF0 \<le> byte a \<and> byte a \<le> 0xF4 then
           (case r of b # c # d # _ \<Rightarrow>
              if is_cont b \<and> is_cont c \<and> is_cont d \<and> (byte a = 0xF0 \<longrightarrow> 0x90 \<le> byte b) \<and> (byte a = 0xF4 \<longrightarrow> byte b \<le> 0x8F)
              then 4 else 0 | _ \<Rightarrow> 0)
         else 0))"

text \<open>utf8.EncodeRune, for the code points an escape can name.\<close>

definition utf8_encode :: "nat \<Rightarrow> string" where
  "utf8_encode r = map char_of
    (if r < 0x80 then [r]
     else if r < 0x800 then [0xC0 + r div 64, 0x80 + r mod 64]
     else if r < 0x10000 then [0xE0 + r div 4096, 0x80 + (r div 64) mod 64, 0x80 + r mod 64]
     else [0xF0 + r div 262144, 0x80 + (r div 4096) mod 64, 0x80 + (r div 64) mod 64, 0x80 + r mod 64])"

definition replacement :: nat where
  "replacement = 0xFFFD"

definition hex_value :: "char \<Rightarrow> nat option" where
  "hex_value c = (let n = byte c in
     if 48 \<le> n \<and> n \<le> 57 then Some (n - 48)
     else if 97 \<le> n \<and> n \<le> 102 then Some (n - 87)
     else if 65 \<le> n \<and> n \<le> 70 then Some (n - 55)
     else None)"

text \<open>The four hex digits a string starts with.\<close>

definition hex4 :: "string \<Rightarrow> nat option" where
  "hex4 s = (case map hex_value (take 4 s) of
     [Some a, Some b, Some c, Some d] \<Rightarrow> Some (4096 * a + 256 * b + 16 * c + d) | _ \<Rightarrow> None)"

definition is_surrogate :: "nat \<Rightarrow> bool" where
  "is_surrogate r \<longleftrightarrow> 0xD800 \<le> r \<and> r \<le> 0xDFFF"

text \<open>The low half of a surrogate pair, when an escape with it comes next.\<close>

definition low_surrogate :: "string \<Rightarrow> nat option" where
  "low_surrogate s = (if take 2 s = [CHR 0x5C, CHR ''u''] then
     (case hex4 (drop 2 s) of
        Some r \<Rightarrow> if 0xDC00 \<le> r \<and> r \<le> 0xDFFF then Some r else None | None \<Rightarrow> None) else None)"

definition simple_escape :: "char \<Rightarrow> nat option" where
  "simple_escape c = map_of [(CHR 0x22, 34), (CHR 0x5C, 92), (CHR ''/'', 47), (CHR ''b'', 8), (CHR ''f'', 12),
     (CHR ''n'', 10), (CHR ''r'', 13), (CHR ''t'', 9)] c"

text \<open>
  One step inside a literal: the bytes the next character or escape stands for, and how many
  bytes it takes; None at a control character, a bad escape or the end of the input.
\<close>

definition literal_step :: "string \<Rightarrow> (string \<times> nat) option" where
  "literal_step s =
    (case s of
       [] \<Rightarrow> None
     | c # cs \<Rightarrow>
        (if byte c < 0x20 then None
         else if c = CHR 0x5C then
           (case cs of
              [] \<Rightarrow> None
            | d # ds \<Rightarrow>
                (if d = CHR ''u'' then
                   (case hex4 ds of
                      None \<Rightarrow> None
                    | Some r \<Rightarrow>
                        (if \<not> is_surrogate r then Some (utf8_encode r, 6)
                         else (case low_surrogate (drop 4 ds) of
                             Some l \<Rightarrow> if r < 0xDC00 then Some (utf8_encode (0x10000 + 1024 * (r - 0xD800) + (l - 0xDC00)), 12)
                               else Some (utf8_encode replacement, 6)
                           | None \<Rightarrow> Some (utf8_encode replacement, 6))))
                 else map_option (\<lambda>n. ([char_of n], 2)) (simple_escape d)))
         else if utf8_size s = 0 then Some (utf8_encode replacement, 1)
         else Some (take (utf8_size s) s, utf8_size s)))"

lemma literal_step_pos: "literal_step s = Some (out, n) \<Longrightarrow> 0 < n \<and> s \<noteq> []"
  by (auto simp: literal_step_def split: list.splits if_splits option.splits)

text \<open>The rest of a literal after its opening quote.\<close>

function json_string :: "string \<Rightarrow> (string \<times> string) option" where
  "json_string s =
    (if s \<noteq> [] \<and> hd s = CHR 0x22 then Some ([], tl s)
     else (case literal_step s of
        None \<Rightarrow> None
      | Some (out, n) \<Rightarrow> map_option (\<lambda>(t, r). (out @ t, r)) (json_string (drop n s))))"
  by pat_completeness auto
termination
  by (relation "measure length") (auto dest!: literal_step_pos)

declare json_string.simps [simp del]

section \<open>Numbers and white space\<close>

definition is_ws :: "char \<Rightarrow> bool" where
  "is_ws c \<longleftrightarrow> byte c \<in> {0x20, 0x09, 0x0A, 0x0D}"

definition skip_ws :: "string \<Rightarrow> string" where
  "skip_ws s = dropWhile is_ws s"

definition is_digit :: "char \<Rightarrow> bool" where
  "is_digit c \<longleftrightarrow> 48 \<le> byte c \<and> byte c \<le> 57"

definition digits1 :: "string \<Rightarrow> (string \<times> string) option" where
  "digits1 s = (let d = takeWhile is_digit s in if d = [] then None else Some (d, dropWhile is_digit s))"

definition number_exponent :: "string \<Rightarrow> (string \<times> string) option" where
  "number_exponent s =
    (case s of
       [] \<Rightarrow> Some ([], [])
     | c # cs \<Rightarrow>
        (if c = CHR ''e'' \<or> c = CHR ''E'' then
           (let (sg, r) = (case cs of d # ds \<Rightarrow> if d = CHR ''+'' \<or> d = CHR ''-'' then ([d], ds) else ([], cs) | [] \<Rightarrow> ([], []))
            in map_option (\<lambda>(ds, r'). (c # sg @ ds, r')) (digits1 r))
         else Some ([], s)))"

definition number_fraction :: "string \<Rightarrow> (string \<times> string) option" where
  "number_fraction s =
    (case s of
       [] \<Rightarrow> Some ([], [])
     | c # cs \<Rightarrow> if c = CHR ''.'' then map_option (\<lambda>(ds, r). (c # ds, r)) (digits1 cs) else Some ([], s))"

definition number_integer :: "string \<Rightarrow> (string \<times> string) option" where
  "number_integer s =
    (case s of
       [] \<Rightarrow> None
     | c # cs \<Rightarrow> if c = CHR ''0'' then Some ([c], cs) else digits1 s)"

definition json_number :: "string \<Rightarrow> (string \<times> string) option" where
  "json_number s =
    (let (sg, r) = (case s of c # cs \<Rightarrow> if c = CHR ''-'' then ([c], cs) else ([], s) | [] \<Rightarrow> ([], []))
     in case number_integer r of
          None \<Rightarrow> None
        | Some (i, r1) \<Rightarrow>
            (case number_fraction r1 of
               None \<Rightarrow> None
             | Some (f, r2) \<Rightarrow> map_option (\<lambda>(e, r3). (sg @ i @ f @ e, r3)) (number_exponent r2)))"

section \<open>The parser\<close>

definition json_literal :: "string \<Rightarrow> (json \<times> string) option" where
  "json_literal s =
    (if has_prefix s ''true'' then Some (JBool True, drop 4 s)
     else if has_prefix s ''false'' then Some (JBool False, drop 5 s)
     else if has_prefix s ''null'' then Some (JNull, drop 4 s)
     else map_option (\<lambda>(t, r). (JNumber t, r)) (json_number s))"

text \<open>An object's member up to its value, or an array's next element, then a separator.\<close>

definition after_separator :: "char \<Rightarrow> string \<Rightarrow> (bool \<times> string) option" where
  "after_separator close s =
    (case skip_ws s of
       [] \<Rightarrow> None
     | c # cs \<Rightarrow> if c = CHR '','' then Some (True, cs) else if c = close then Some (False, cs) else None)"

definition member_key :: "string \<Rightarrow> (string \<times> string) option" where
  "member_key s =
    (case skip_ws s of
       [] \<Rightarrow> None
     | c # cs \<Rightarrow>
        (if c = CHR 0x22 then
           (case json_string cs of
              None \<Rightarrow> None
            | Some (k, r) \<Rightarrow> (case skip_ws r of d # ds \<Rightarrow> if d = CHR '':'' then Some (k, ds) else None | [] \<Rightarrow> None))
         else None))"

fun json_value :: "nat \<Rightarrow> string \<Rightarrow> (json \<times> string) option"
  and json_members :: "nat \<Rightarrow> string \<Rightarrow> ((string \<times> json) list \<times> string) option"
  and json_elements :: "nat \<Rightarrow> string \<Rightarrow> (json list \<times> string) option" where
  "json_value 0 s = None"
| "json_value (Suc n) s =
    (case skip_ws s of
       [] \<Rightarrow> None
     | c # cs \<Rightarrow>
        (if c = CHR ''{'' then
           (if take 1 (skip_ws cs) = ''}'' then Some (JObject [], drop 1 (skip_ws cs))
            else map_option (\<lambda>(ms, r). (JObject ms, r)) (json_members n cs))
         else if c = CHR ''['' then
           (if take 1 (skip_ws cs) = '']'' then Some (JArray [], drop 1 (skip_ws cs))
            else map_option (\<lambda>(vs, r). (JArray vs, r)) (json_elements n cs))
         else if c = CHR 0x22 then map_option (\<lambda>(t, r). (JString t, r)) (json_string cs)
         else json_literal (c # cs)))"
| "json_members 0 s = None"
| "json_members (Suc n) s =
    (case member_key s of
       None \<Rightarrow> None
     | Some (k, r) \<Rightarrow>
        (case json_value n r of
           None \<Rightarrow> None
         | Some (v, r1) \<Rightarrow>
            (case after_separator (CHR ''}'') r1 of
               None \<Rightarrow> None
             | Some (more, r2) \<Rightarrow>
                 if more then map_option (\<lambda>(ms, r3). ((k, v) # ms, r3)) (json_members n r2)
                 else Some ([(k, v)], r2))))"
| "json_elements 0 s = None"
| "json_elements (Suc n) s =
    (case json_value n s of
       None \<Rightarrow> None
     | Some (v, r1) \<Rightarrow>
        (case after_separator (CHR '']'') r1 of
           None \<Rightarrow> None
         | Some (more, r2) \<Rightarrow>
             if more then map_option (\<lambda>(vs, r3). (v # vs, r3)) (json_elements n r2)
             else Some ([v], r2)))"

text \<open>
  Decoder.Decode reads the first value and leaves the rest; Unmarshal wants nothing after it.
  Both refuse what is nested deeper than 10000 arrays and objects.
\<close>

primrec json_depth :: "json \<Rightarrow> nat" where
  "json_depth JNull = 0"
| "json_depth (JBool b) = 0"
| "json_depth (JNumber t) = 0"
| "json_depth (JString s) = 0"
| "json_depth (JArray vs) = Suc (fold max (map json_depth vs) 0)"
| "json_depth (JObject ms) = Suc (fold max (map snd (map (map_prod id json_depth) ms)) 0)"

definition json_decode :: "string \<Rightarrow> json option" where
  "json_decode s =
    (case json_value (Suc (2 * length s)) s of
       None \<Rightarrow> None
     | Some (v, r) \<Rightarrow> if json_depth v \<le> 10000 then Some v else None)"

definition json_unmarshal :: "string \<Rightarrow> json option" where
  "json_unmarshal s =
    (case json_value (Suc (2 * length s)) s of
       None \<Rightarrow> None
     | Some (v, r) \<Rightarrow> if json_depth v \<le> 10000 \<and> skip_ws r = [] then Some v else None)"

text \<open>
  Decoder.Decode over http.MaxBytesReader: the bytes up to the limit, and then an error in place of
  the end. An object or array is complete at its closing bracket; any other value only where
  the decoder sees what follows, so that one that ends at the limit of a longer body is refused.
\<close>

fun closes_itself :: "json \<Rightarrow> bool" where
  "closes_itself (JObject ms) = True"
| "closes_itself (JArray vs) = True"
| "closes_itself v = False"

definition json_decode_limited :: "nat \<Rightarrow> string \<Rightarrow> json option" where
  "json_decode_limited n s =
    (case json_value (Suc (2 * length (take n s))) (take n s) of
       None \<Rightarrow> None
     | Some (v, r) \<Rightarrow>
         if json_depth v \<le> 10000 \<and> (closes_itself v \<or> r \<noteq> [] \<or> length s \<le> n) then Some v else None)"

lemma json_decode_unlimited: "length s \<le> n \<Longrightarrow> json_decode_limited n s = json_decode s"
  by (simp add: json_decode_limited_def json_decode_def del: json_value.simps split: option.split)

section \<open>Storing into a struct\<close>

text \<open>
  A member belongs to a field when its name equals the field's up to case; later members
  win, null changes nothing, and a value of another type is an error. (The two letters beyond
  ASCII that fold to one, of k and s, are in no field name here.)
\<close>

definition fold_name :: "string \<Rightarrow> string" where
  "fold_name s = map lower_byte s"

fun string_field :: "string \<Rightarrow> (string \<times> json) list \<Rightarrow> string \<Rightarrow> string option" where
  "string_field f [] acc = Some acc"
| "string_field f ((k, v) # ms) acc =
    (if fold_name k = f then
       (case v of JString s \<Rightarrow> string_field f ms s | JNull \<Rightarrow> string_field f ms acc | _ \<Rightarrow> None)
     else string_field f ms acc)"

fun bool_field :: "string \<Rightarrow> (string \<times> json) list \<Rightarrow> bool \<Rightarrow> bool option" where
  "bool_field f [] acc = Some acc"
| "bool_field f ((k, v) # ms) acc =
    (if fold_name k = f then
       (case v of JBool b \<Rightarrow> bool_field f ms b | JNull \<Rightarrow> bool_field f ms acc | _ \<Rightarrow> None)
     else bool_field f ms acc)"

text \<open>The members an object gives a struct; null gives none, anything else is an error.\<close>

definition struct_members :: "json \<Rightarrow> (string \<times> json) list option" where
  "struct_members v = (case v of JObject ms \<Rightarrow> Some ms | JNull \<Rightarrow> Some [] | _ \<Rightarrow> None)"

section \<open>The fuel is enough\<close>

lemma skip_ws_le: "length (skip_ws s) \<le> length s"
  by (simp add: skip_ws_def length_dropWhile_le)

lemma json_string_shrinks: "json_string s = Some (t, r) \<Longrightarrow> length r < length s"
proof (induction s arbitrary: t r rule: json_string.induct)
  case (1 s)
  show ?case
  proof (cases "s \<noteq> [] \<and> hd s = CHR 0x22")
    case True
    then show ?thesis using "1.prems" by (subst (asm) json_string.simps) auto
  next
    case False
    with "1.prems" obtain out n t' where n: "literal_step s = Some (out, n)" and t': "json_string (drop n s) = Some (t', r)"
      by (subst (asm) json_string.simps) (auto split: option.splits)
    then have "length r < length (drop n s)" using "1.IH" False by blast
    then show ?thesis by simp
  qed
qed

lemma digits1_shrinks: "digits1 s = Some (d, r) \<Longrightarrow> length r < length s"
  by (auto simp: digits1_def Let_def split: if_splits)
    (metis append_Nil length_append length_greater_0_conv less_add_same_cancel2 takeWhile_dropWhile_id)

lemma number_shrinks: "json_number s = Some (t, r) \<Longrightarrow> length r < length s"
proof -
  have i: "number_integer s = Some (i, r) \<Longrightarrow> length r < length s" for s i r
    by (auto simp: number_integer_def split: list.splits if_splits dest: digits1_shrinks)
  have f: "number_fraction s = Some (i, r) \<Longrightarrow> length r \<le> length s" for s i r
    by (auto simp: number_fraction_def split: list.splits if_splits dest!: digits1_shrinks)
  have e: "number_exponent s = Some (i, r) \<Longrightarrow> length r \<le> length s" for s i r
    by (auto simp: number_exponent_def Let_def split: list.splits if_splits prod.splits dest!: digits1_shrinks)
  show "json_number s = Some (t, r) \<Longrightarrow> length r < length s"
    by (auto simp: json_number_def Let_def split: list.splits if_splits option.splits prod.splits dest!: i f e)
qed

lemma json_literal_shrinks: "json_literal s = Some (v, r) \<Longrightarrow> length r < length s"
  by (auto simp: json_literal_def has_prefix_def split: if_splits dest: number_shrinks)

lemma after_separator_shrinks: "after_separator c s = Some (b, r) \<Longrightarrow> length r < length s"
  using skip_ws_le [of s] by (auto simp: after_separator_def split: list.splits if_splits)

lemma member_key_shrinks: "member_key s = Some (k, r) \<Longrightarrow> length r < length s"
proof -
  assume "member_key s = Some (k, r)"
  then obtain cs r' where "skip_ws s = CHR 0x22 # cs" "json_string cs = Some (k, r')" "skip_ws r' = CHR '':'' # r"
    by (auto simp: member_key_def split: list.splits if_splits option.splits)
  then show ?thesis
    using skip_ws_le [of s] skip_ws_le [of r'] json_string_shrinks [of cs k r'] by simp
qed

lemma json_shrinks:
  "json_value n s = Some (v, r) \<Longrightarrow> length r < length s"
  "json_members n s = Some (ms, r) \<Longrightarrow> length r < length s"
  "json_elements n s = Some (vs, r) \<Longrightarrow> length r < length s"
proof (induction n s and n s and n s arbitrary: v r and ms r and vs r rule: json_value_json_members_json_elements.induct)
  case (2 n s)
  then obtain c cs where s: "skip_ws s = c # cs" by (cases "skip_ws s") auto
  have le: "length cs < length s" "length (skip_ws cs) \<le> length cs" using skip_ws_le [of s] skip_ws_le [of cs] s by simp_all
  have d1: "length (drop 1 (skip_ws cs)) < length s" using le by simp
  show ?case
    using 2 s le d1
    by (auto split: if_splits dest!: json_string_shrinks json_literal_shrinks) fastforce+
next
  case (4 n s)
  then show ?case
    by (fastforce split: option.splits if_splits dest: member_key_shrinks after_separator_shrinks)
next
  case (6 n s)
  then show ?case
    by (fastforce split: option.splits if_splits dest: after_separator_shrinks)
qed auto

text \<open>Beyond two steps per byte, more fuel changes nothing.\<close>

lemma json_fuel:
  "2 * length s < n \<Longrightarrow> json_value (Suc n) s = json_value n s"
  "2 * length s + 1 < n \<Longrightarrow> json_members (Suc n) s = json_members n s"
  "2 * length s + 1 < n \<Longrightarrow> json_elements (Suc n) s = json_elements n s"
proof (induction n s and n s and n s rule: json_value_json_members_json_elements.induct)
  case (2 n s)
  show ?case
  proof (cases "skip_ws s")
    case Nil
    then show ?thesis by simp
  next
    case (Cons c cs)
    have "2 * length cs + 1 < n" using skip_ws_le [of s] Cons "2.prems" by simp
    then show ?thesis using "2.IH" Cons unfolding json_value.simps(2)
      by (auto simp del: json_members.simps json_elements.simps)
  qed
next
  case (4 n s)
  show ?case
  proof (cases "member_key s")
    case None
    then show ?thesis by simp
  next
    case (Some kr)
    then obtain k r where kr: "member_key s = Some (k, r)" by (cases kr) auto
    have r: "2 * length r < n" using member_key_shrinks [OF kr] "4.prems" by simp
    then have eq: "json_value (Suc n) r = json_value n r" using "4.IH"(1) kr by auto
    have "json_members (Suc n) r2 = json_members n r2"
      if "json_value n r = Some (v, r1)" "after_separator (CHR ''}'') r1 = Some (True, r2)" for v r1 r2
    proof -
      have "2 * length r2 + 1 < n" using json_shrinks(1) [OF that(1)] after_separator_shrinks [OF that(2)] r by simp
      then show ?thesis using "4.IH"(2) [of "(k, r)" k r] kr that by auto
    qed
    then show ?thesis using kr eq unfolding json_members.simps(2)
      by (auto split: option.splits simp del: json_members.simps json_value.simps)
  qed
next
  case (6 n s)
  have eq: "json_value (Suc n) s = json_value n s" using "6.IH"(1) "6.prems" by simp
  have "json_elements (Suc n) r2 = json_elements n r2"
    if "json_value n s = Some (v, r1)" "after_separator (CHR '']'') r1 = Some (True, r2)" for v r1 r2
  proof -
    have "2 * length r2 + 1 < n" using json_shrinks(1) [OF that(1)] after_separator_shrinks [OF that(2)] "6.prems" by simp
    then show ?thesis using "6.IH"(2) [of "(v, r1)" v r1] that by auto
  qed
  then show ?case using eq unfolding json_elements.simps(2)
    by (auto split: option.splits simp del: json_elements.simps json_value.simps)
qed auto

lemma json_fuel_enough: "2 * length s < n \<Longrightarrow> json_value (n + k) s = json_value n s"
  by (induction k) (simp_all add: json_fuel del: json_value.simps)

end
