(* ===== verification/Verifier.thy ===== *)
theory Verifier
  imports Json
begin

text \<open>
  internal/auth/verifier.go: checking a provider's ID token. go-oidc is a parameter:
  discovery of a provider and verification of a raw token. \<open>oidc_documented\<close> is what it
  documents; \<open>reference_oidc\<close> is a small instance. Discovery reaches the network, so its
  answer may differ from call to call; \<open>attempt\<close> numbers the calls.
\<close>

section \<open>The OpenID Connect library\<close>

record id_token =
  idt_issuer :: string
  idt_audience :: "string list"
  idt_subject :: string
  idt_nonce :: string
  idt_expiry :: nanos
  idt_payload :: string

record discovered =
  disc_issuer :: string
  disc_endpoint :: string

record oidc_lib =
  oidc_new_provider :: "nat \<Rightarrow> string \<Rightarrow> discovered option"
  oidc_verify :: "discovered \<Rightarrow> string \<Rightarrow> nanos \<Rightarrow> string \<Rightarrow> id_token option"

text \<open>
  The iss claim is the issuer discovery found, except that Google's may lack its scheme; the
  client is in aud; the token has not expired. Discovery rejects a document of another issuer.
\<close>

definition issuer_matches :: "string \<Rightarrow> string \<Rightarrow> bool" where
  "issuer_matches want got \<longleftrightarrow> got = want \<or> want = ''https://accounts.google.com'' \<and> got = ''accounts.google.com''"

definition oidc_documented :: "oidc_lib \<Rightarrow> bool" where
  "oidc_documented ol \<longleftrightarrow>
    (\<forall>p c now raw t. oidc_verify ol p c now raw = Some t \<longrightarrow>
       issuer_matches (disc_issuer p) (idt_issuer t) \<and> c \<in> set (idt_audience t) \<and> now \<le> idt_expiry t)
    \<and> (\<forall>n i p. oidc_new_provider ol n i = Some p \<longrightarrow> disc_issuer p = i)"

section \<open>Errors, configuration, identities\<close>

datatype auth_error =
    ErrUnknownProvider
  | ErrInvalidToken
  | ErrNonceMismatch
  | ErrMissingSubject
  | ErrExchangeFailed
  | ErrNoIDToken

datatype setup_error =
    NoProvidersConfigured
  | ProviderHasNoName
  | ProviderHasNoIssuer string
  | ProviderHasNoClientID string
  | ProviderConfiguredTwice string
  | DiscoveryFailed string

record provider_config =
  provider_name :: string
  provider_issuer :: string
  provider_client_id :: string

record identity =
  id_provider :: string
  id_subject :: string
  id_email :: string
  id_email_verified :: bool
  id_name :: string
  id_picture :: string

section \<open>The verifier\<close>

text \<open>A provider's name, what discovery found, and the audience to expect.\<close>

record verifier =
  providers :: "(string \<times> discovered \<times> string) list"

fun add_verifiers :: "oidc_lib \<Rightarrow> provider_config list \<Rightarrow> (string \<times> discovered \<times> string) list \<Rightarrow>
    setup_error + (string \<times> discovered \<times> string) list" where
  "add_verifiers ol [] vs = Inr vs"
| "add_verifiers ol (cfg # cfgs) vs =
    (if provider_name cfg = [] then Inl ProviderHasNoName
     else if provider_issuer cfg = [] then Inl (ProviderHasNoIssuer (provider_name cfg))
     else if provider_client_id cfg = [] then Inl (ProviderHasNoClientID (provider_name cfg))
     else if map_of vs (provider_name cfg) \<noteq> None then Inl (ProviderConfiguredTwice (provider_name cfg))
     else (case oidc_new_provider ol 0 (provider_issuer cfg) of
        None \<Rightarrow> Inl (DiscoveryFailed (provider_name cfg))
      | Some p \<Rightarrow> add_verifiers ol cfgs ((provider_name cfg, p, provider_client_id cfg) # vs)))"

definition new_verifier :: "oidc_lib \<Rightarrow> provider_config list \<Rightarrow> setup_error + verifier" where
  "new_verifier ol cfgs =
    (if cfgs = [] then Inl NoProvidersConfigured
     else map_sum id (\<lambda>vs. \<lparr>providers = vs\<rparr>) (add_verifiers ol cfgs []))"

text \<open>\<open>order\<close> is the order in which the runtime happens to walk the map.\<close>

definition verifier_providers :: "(string list \<Rightarrow> string list) \<Rightarrow> verifier \<Rightarrow> string list" where
  "verifier_providers order v = order (map fst (providers v))"

record id_claims =
  claim_email :: string
  claim_email_verified :: bool
  claim_name :: string
  claim_picture :: string

definition read_id_claims :: "string \<Rightarrow> id_claims option" where
  "read_id_claims payload =
    (case json_unmarshal payload of
       None \<Rightarrow> None
     | Some v \<Rightarrow>
        (case struct_members v of
           None \<Rightarrow> None
         | Some ms \<Rightarrow>
            (case (string_field ''email'' ms [], bool_field ''email_verified'' ms False,
                   string_field ''name'' ms [], string_field ''picture'' ms []) of
               (Some e, Some b, Some n, Some p) \<Rightarrow>
                 Some \<lparr>claim_email = e, claim_email_verified = b, claim_name = n, claim_picture = p\<rparr>
             | _ \<Rightarrow> None)))"

definition verify :: "oidc_lib \<Rightarrow> verifier \<Rightarrow> nanos \<Rightarrow> string \<Rightarrow> string \<Rightarrow> string \<Rightarrow> auth_error + identity" where
  "verify ol v now provider raw expected_nonce =
    (case map_of (providers v) provider of
       None \<Rightarrow> Inl ErrUnknownProvider
     | Some (p, client) \<Rightarrow>
        (case oidc_verify ol p client now raw of
           None \<Rightarrow> Inl ErrInvalidToken
         | Some t \<Rightarrow>
             if expected_nonce = [] then Inl ErrNonceMismatch
             else if idt_nonce t \<noteq> expected_nonce then Inl ErrNonceMismatch
             else if idt_subject t = [] then Inl ErrMissingSubject
             else (case read_id_claims (idt_payload t) of
                None \<Rightarrow> Inl ErrInvalidToken
              | Some c \<Rightarrow> Inr \<lparr>id_provider = provider, id_subject = idt_subject t,
                   id_email = trim_space (claim_email c), id_email_verified = claim_email_verified c,
                   id_name = trim_space (claim_name c), id_picture = claim_picture c\<rparr>)))"

section \<open>What setting up establishes\<close>

definition usable_config :: "oidc_lib \<Rightarrow> provider_config \<Rightarrow> bool" where
  "usable_config ol cfg \<longleftrightarrow> provider_name cfg \<noteq> [] \<and> provider_issuer cfg \<noteq> [] \<and> provider_client_id cfg \<noteq> []
    \<and> oidc_new_provider ol 0 (provider_issuer cfg) \<noteq> None"

definition verifier_entry :: "oidc_lib \<Rightarrow> provider_config \<Rightarrow> string \<times> discovered \<times> string" where
  "verifier_entry ol cfg = (provider_name cfg, the (oidc_new_provider ol 0 (provider_issuer cfg)), provider_client_id cfg)"

lemma add_verifiers_Inr:
  "add_verifiers ol cfgs vs = Inr ws \<longleftrightarrow>
    list_all (usable_config ol) cfgs \<and> distinct (map provider_name cfgs)
    \<and> set (map provider_name cfgs) \<inter> fst ` set vs = {} \<and> ws = rev (map (verifier_entry ol) cfgs) @ vs"
proof (induction cfgs arbitrary: vs)
  case (Cons cfg cfgs)
  show ?case
  proof (cases "usable_config ol cfg \<and> provider_name cfg \<notin> fst ` set vs")
    case True
    then obtain p where p: "oidc_new_provider ol 0 (provider_issuer cfg) = Some p"
      by (auto simp: usable_config_def)
    have "add_verifiers ol (cfg # cfgs) vs = add_verifiers ol cfgs ((provider_name cfg, p, provider_client_id cfg) # vs)"
      using True p by (simp add: usable_config_def map_of_eq_None_iff)
    then show ?thesis using Cons.IH True p by (auto simp: verifier_entry_def)
  next
    case False
    then show ?thesis by (auto simp: usable_config_def map_of_eq_None_iff split: option.splits)
  qed
qed auto

lemma new_verifier_Inr:
  "new_verifier ol cfgs = Inr v \<longleftrightarrow> cfgs \<noteq> [] \<and> list_all (usable_config ol) cfgs \<and> distinct (map provider_name cfgs)
    \<and> providers v = rev (map (verifier_entry ol) cfgs)"
  by (cases v) (auto simp: new_verifier_def map_sum_Inr add_verifiers_Inr)

lemma new_verifier_lookup:
  assumes "new_verifier ol cfgs = Inr v"
  shows "map_of (providers v) name = Some (p, c) \<longleftrightarrow>
    (\<exists>cfg \<in> set cfgs. provider_name cfg = name \<and> c = provider_client_id cfg
      \<and> oidc_new_provider ol 0 (provider_issuer cfg) = Some p)"
    and "map_of (providers v) name = None \<longleftrightarrow> name \<notin> provider_name ` set cfgs"
proof -
  have v: "providers v = rev (map (verifier_entry ol) cfgs)" and d: "distinct (map provider_name cfgs)"
    and u: "list_all (usable_config ol) cfgs" using assms by (simp_all add: new_verifier_Inr)
  have fst: "map fst (map (verifier_entry ol) cfgs) = map provider_name cfgs" by (simp add: verifier_entry_def)
  have "distinct (map fst (rev (map (verifier_entry ol) cfgs)))" using d by (simp add: o_def verifier_entry_def flip: rev_map)
  from map_of_eq_Some_iff [OF this, of name "(p, c)"] show "map_of (providers v) name = Some (p, c) \<longleftrightarrow>
    (\<exists>cfg \<in> set cfgs. provider_name cfg = name \<and> c = provider_client_id cfg
      \<and> oidc_new_provider ol 0 (provider_issuer cfg) = Some p)"
    using u by (force simp: v verifier_entry_def usable_config_def list_all_iff)
  show "map_of (providers v) name = None \<longleftrightarrow> name \<notin> provider_name ` set cfgs"
    by (auto simp: v map_of_eq_None_iff verifier_entry_def image_image)
qed

lemma verify_Inr:
  "verify ol v now provider raw nonce = Inr i \<longleftrightarrow>
    (\<exists>p c t k. map_of (providers v) provider = Some (p, c) \<and> oidc_verify ol p c now raw = Some t
      \<and> nonce \<noteq> [] \<and> idt_nonce t = nonce \<and> idt_subject t \<noteq> [] \<and> read_id_claims (idt_payload t) = Some k
      \<and> i = \<lparr>id_provider = provider, id_subject = idt_subject t, id_email = trim_space (claim_email k),
             id_email_verified = claim_email_verified k, id_name = trim_space (claim_name k), id_picture = claim_picture k\<rparr>)"
  by (auto simp: verify_def split: option.splits prod.splits if_splits)

section \<open>A concrete library\<close>

text \<open>
  A raw token is its claims document, and it verifies when the strings in it name the issuer
  and the client; it is no cryptography, only an executable instance of the documentation.
\<close>

definition reference_oidc :: oidc_lib where
  "reference_oidc = \<lparr>
     oidc_new_provider = (\<lambda>n i. Some \<lparr>disc_issuer = i, disc_endpoint = i @ ''/token''\<rparr>),
     oidc_verify = (\<lambda>p c now raw.
       case json_unmarshal raw of
         Some (JObject ms) \<Rightarrow>
           (case (string_field ''iss'' ms [], string_field ''aud'' ms [], string_field ''sub'' ms [], string_field ''nonce'' ms []) of
              (Some i, Some a, Some s, Some n) \<Rightarrow>
                if i = disc_issuer p \<and> a = c
                then Some \<lparr>idt_issuer = i, idt_audience = [a], idt_subject = s, idt_nonce = n, idt_expiry = now, idt_payload = raw\<rparr>
                else None
            | _ \<Rightarrow> None)
       | _ \<Rightarrow> None)\<rparr>"

lemma reference_oidc_documented: "oidc_documented reference_oidc"
  by (auto simp: oidc_documented_def reference_oidc_def issuer_matches_def split: option.splits json.splits if_splits)

end
