(* ===== verification/Sha256.thy ===== *)
theory Sha256
  imports Prelude
begin

text \<open>
  SHA-256, the crypto/sha256.Sum256 of Go's standard library, as FIPS 180-4 defines it: the
  source hashes refresh tokens (internal/auth/tokens.go) and PKCE verifiers
  (internal/auth/oidctest/issuer.go) with it. Every definition computes; the test vector of
  the standard is evaluated in \<open>Sha256_Vectors\<close>.
\<close>

unbundle bit_operations_syntax

section \<open>Word operations\<close>

definition rotr :: "nat \<Rightarrow> u32 \<Rightarrow> u32" where
  "rotr n x = (drop_bit n x) OR (push_bit (32 - n) x)"

definition big_sigma0 :: "u32 \<Rightarrow> u32" where
  "big_sigma0 x = rotr 2 x XOR rotr 13 x XOR rotr 22 x"

definition big_sigma1 :: "u32 \<Rightarrow> u32" where
  "big_sigma1 x = rotr 6 x XOR rotr 11 x XOR rotr 25 x"

definition small_sigma0 :: "u32 \<Rightarrow> u32" where
  "small_sigma0 x = rotr 7 x XOR rotr 18 x XOR drop_bit 3 x"

definition small_sigma1 :: "u32 \<Rightarrow> u32" where
  "small_sigma1 x = rotr 17 x XOR rotr 19 x XOR drop_bit 10 x"

definition sha_ch :: "u32 \<Rightarrow> u32 \<Rightarrow> u32 \<Rightarrow> u32" where
  "sha_ch x y z = (x AND y) XOR (NOT x AND z)"

definition sha_maj :: "u32 \<Rightarrow> u32 \<Rightarrow> u32 \<Rightarrow> u32" where
  "sha_maj x y z = (x AND y) XOR (x AND z) XOR (y AND z)"

definition round_constants :: "u32 list" where
  "round_constants =
    [1116352408, 1899447441, 3049323471, 3921009573, 961987163, 1508970993, 2453635748, 2870763221,
     3624381080, 310598401, 607225278, 1426881987, 1925078388, 2162078206, 2614888103, 3248222580,
     3835390401, 4022224774, 264347078, 604807628, 770255983, 1249150122, 1555081692, 1996064986,
     2554220882, 2821834349, 2952996808, 3210313671, 3336571891, 3584528711, 113926993, 338241895,
     666307205, 773529912, 1294757372, 1396182291, 1695183700, 1986661051, 2177026350, 2456956037,
     2730485921, 2820302411, 3259730800, 3345764771, 3516065817, 3600352804, 4094571909, 275423344,
     430227734, 506948616, 659060556, 883997877, 958139571, 1322822218, 1537002063, 1747873779,
     1955562222, 2024104815, 2227730452, 2361852424, 2428436474, 2756734187, 3204031479, 3329325298]"

text \<open>
  They are the first 32 bits of the fractional parts of the cube roots of the first 64 primes:
  between the cubes of a constant, with the root's integer part before it, and of the next
  lies the prime.
\<close>

definition first_primes :: "nat list" where
  "first_primes =
    [2, 3, 5, 7, 11, 13, 17, 19, 23, 29, 31, 37, 41, 43, 47, 53,
     59, 61, 67, 71, 73, 79, 83, 89, 97, 101, 103, 107, 109, 113, 127, 131,
     137, 139, 149, 151, 157, 163, 167, 173, 179, 181, 191, 193, 197, 199, 211, 223,
     227, 229, 233, 239, 241, 251, 257, 263, 269, 271, 277, 281, 283, 293, 307, 311]"

definition whole_cube_root :: "nat \<Rightarrow> nat" where
  "whole_cube_root p = (if p < 8 then 1 else if p < 27 then 2 else if p < 64 then 3 else if p < 125 then 4
     else if p < 216 then 5 else 6)"

definition is_cube_root :: "nat \<Rightarrow> u32 \<Rightarrow> bool" where
  "is_cube_root p k \<longleftrightarrow> (let r = whole_cube_root p * 4294967296 + unat k; n = p * 79228162514264337593543950336
     in r * r * r \<le> n \<and> n < (r + 1) * (r + 1) * (r + 1))"

lemma round_constants_cube_roots: "list_all2 is_cube_root first_primes round_constants"
  by (simp add: first_primes_def round_constants_def is_cube_root_def whole_cube_root_def Let_def)

section \<open>The compression function\<close>

datatype digest_state = Digest_State u32 u32 u32 u32 u32 u32 u32 u32

definition initial_digest :: digest_state where
  "initial_digest = Digest_State 0x6a09e667 0xbb67ae85 0x3c6ef372 0xa54ff53a
     0x510e527f 0x9b05688c 0x1f83d9ab 0x5be0cd19"

fun sha_round :: "u32 \<Rightarrow> u32 \<Rightarrow> digest_state \<Rightarrow> digest_state" where
  "sha_round k w (Digest_State a b c d e f g h) =
    (let t1 = h + big_sigma1 e + sha_ch e f g + k + w;
         t2 = big_sigma0 a + sha_maj a b c
     in Digest_State (t1 + t2) a b c (d + t1) e f g)"

fun be32 :: "u8 list \<Rightarrow> u32 list" where
  "be32 (a # b # c # d # bs) =
    (push_bit 24 (ucast a) OR push_bit 16 (ucast b) OR push_bit 8 (ucast c) OR ucast d) # be32 bs"
| "be32 _ = []"

text \<open>The message schedule, kept newest word first.\<close>

fun extend_schedule :: "nat \<Rightarrow> u32 list \<Rightarrow> u32 list" where
  "extend_schedule 0 ws = ws"
| "extend_schedule (Suc n) ws =
    extend_schedule n ((small_sigma1 (ws ! 1) + ws ! 6 + small_sigma0 (ws ! 14) + ws ! 15) # ws)"

definition schedule :: "u8 list \<Rightarrow> u32 list" where
  "schedule block = rev (extend_schedule 48 (rev (be32 block)))"

fun rounds :: "u32 list \<Rightarrow> u32 list \<Rightarrow> digest_state \<Rightarrow> digest_state" where
  "rounds (k # ks) (w # ws) s = rounds ks ws (sha_round k w s)"
| "rounds _ _ s = s"

fun add_digest :: "digest_state \<Rightarrow> digest_state \<Rightarrow> digest_state" where
  "add_digest (Digest_State a b c d e f g h) (Digest_State a' b' c' d' e' f' g' h') =
    Digest_State (a + a') (b + b') (c + c') (d + d') (e + e') (f + f') (g + g') (h + h')"

definition compress :: "digest_state \<Rightarrow> u8 list \<Rightarrow> digest_state" where
  "compress s block = add_digest s (rounds round_constants (schedule block) s)"

section \<open>Padding and the digest\<close>

definition be64 :: "64 word \<Rightarrow> u8 list" where
  "be64 x = [ucast (drop_bit 56 x), ucast (drop_bit 48 x), ucast (drop_bit 40 x), ucast (drop_bit 32 x),
     ucast (drop_bit 24 x), ucast (drop_bit 16 x), ucast (drop_bit 8 x), ucast x]"

definition pad_message :: "u8 list \<Rightarrow> u8 list" where
  "pad_message m =
    (let r = length m mod 64
     in m @ [0x80] @ replicate (if r < 56 then 55 - r else 119 - r) 0
          @ be64 (8 * of_nat (length m)))"

fun chunks64 :: "u8 list \<Rightarrow> u8 list list" where
  "chunks64 [] = []"
| "chunks64 (b # bs) = take 64 (b # bs) # chunks64 (drop 63 bs)"

definition be_bytes :: "u32 \<Rightarrow> u8 list" where
  "be_bytes x = [ucast (drop_bit 24 x), ucast (drop_bit 16 x), ucast (drop_bit 8 x), ucast x]"

fun digest_bytes :: "digest_state \<Rightarrow> u8 list" where
  "digest_bytes (Digest_State a b c d e f g h) =
    be_bytes a @ be_bytes b @ be_bytes c @ be_bytes d
    @ be_bytes e @ be_bytes f @ be_bytes g @ be_bytes h"

definition sha256_sum :: "u8 list \<Rightarrow> u8 list" where
  "sha256_sum m = digest_bytes (foldl compress initial_digest (chunks64 (pad_message m)))"

section \<open>Lengths\<close>

text \<open>Padding fills whole 64-byte blocks, and the digest is always 32 bytes.\<close>

lemma length_pad_message: "length (pad_message m) mod 64 = 0"
proof -
  obtain q r where qr: "q = length m div 64" "r = length m mod 64" by blast
  then have m: "length m = 64 * q + r" and r: "r < 64" by simp_all
  have "length (pad_message m) = length m + 9 + (if r < 56 then 55 - r else 119 - r)"
    by (simp add: pad_message_def be64_def Let_def qr)
  also have "\<dots> = 64 * (if r < 56 then q + 1 else q + 2)"
    using m r by simp
  finally show ?thesis by simp
qed

lemma chunks64_full: "length m = 64 * k \<Longrightarrow> b \<in> set (chunks64 m) \<Longrightarrow> length b = 64"
proof (induction k arbitrary: m)
  case 0
  then show ?case by simp
next
  case (Suc k)
  then obtain c cs where m: "m = c # cs" by (cases m) auto
  with Suc.prems(1) have "length (drop 63 cs) = 64 * k" by simp
  then have "b \<in> set (chunks64 (drop 63 cs)) \<Longrightarrow> length b = 64" by (rule Suc.IH)
  with Suc.prems m show ?case by auto
qed

lemma length_digest_bytes [simp]: "length (digest_bytes s) = 32"
  by (cases s) (simp add: be_bytes_def)

lemma length_sha256_sum [simp]: "length (sha256_sum m) = 32"
  by (simp add: sha256_sum_def)

end
