(* ===== verification/Codec.thy ===== *)
theory Codec
  imports Prelude
begin

text \<open>
  The two text encodings of Go's standard library the source uses: base64.RawURLEncoding for
  the refresh token and the PKCE challenge, hex for the stored hash. Each is an instance of
  the interface \<open>codec\<close>: an encoder with a decoder that inverts it, whose client fact is
  that distinct bytes have distinct encodings.
\<close>

unbundle bit_operations_syntax

section \<open>The interface\<close>

locale codec =
  fixes encode :: "'a \<Rightarrow> 'b"
    and decode :: "'b \<Rightarrow> 'a option"
  assumes decode_encode: "decode (encode x) = Some x"
begin

lemma encode_eq_iff: "encode x = encode y \<longleftrightarrow> x = y"
  by (metis decode_encode option.inject)

lemma inj_encode: "inj encode"
  by (rule injI) (simp add: encode_eq_iff)

lemma decode_range: "y \<in> range encode \<Longrightarrow> \<exists>x. decode y = Some x \<and> encode x = y"
  by (auto simp: decode_encode)

end

section \<open>Strings and bytes\<close>

text \<open>A Go string is a sequence of bytes; \<open>[]byte(s)\<close> and \<open>string(b)\<close> convert.\<close>

definition bytes_of :: "string \<Rightarrow> u8 list" where
  "bytes_of s = map of_char s"

definition string_of :: "u8 list \<Rightarrow> string" where
  "string_of bs = map (\<lambda>b. char_of (unat b)) bs"

lemma unat_of_char: "unat (of_char c :: u8) = of_char c"
proof -
  have "(of_char c :: u8) = of_nat (of_char c)" by (simp add: of_nat_of_char)
  then show ?thesis by (simp add: unsigned_of_nat take_bit_eq_mod)
qed

lemma string_of_bytes_of: "string_of (bytes_of s) = s"
  by (simp add: string_of_def bytes_of_def unat_of_char map_idI)

lemma length_bytes_of [simp]: "length (bytes_of s) = length s"
  by (simp add: bytes_of_def)

interpretation bytes: codec bytes_of "\<lambda>bs. Some (string_of bs)"
  by unfold_locales (simp add: string_of_bytes_of)

section \<open>hex.EncodeToString\<close>

definition hex_alphabet :: string where
  "hex_alphabet = ''0123456789abcdef''"

definition hex_byte :: "u8 \<Rightarrow> string" where
  "hex_byte b = [hex_alphabet ! unat (drop_bit 4 b), hex_alphabet ! unat (take_bit 4 b)]"

definition hex_encode :: "u8 list \<Rightarrow> string" where
  "hex_encode bs = concat (map hex_byte bs)"

definition alphabet_index :: "string \<Rightarrow> char \<Rightarrow> nat option" where
  "alphabet_index al c = (let n = length (takeWhile (\<lambda>d. d \<noteq> c) al) in if n < length al then Some n else None)"

fun hex_decode :: "string \<Rightarrow> u8 list option" where
  "hex_decode [] = Some []"
| "hex_decode (c # d # cs) =
    (case (alphabet_index hex_alphabet c, alphabet_index hex_alphabet d, hex_decode cs) of
       (Some i, Some j, Some bs) \<Rightarrow> Some ((push_bit 4 (of_nat i) OR of_nat j) # bs)
     | _ \<Rightarrow> None)"
| "hex_decode [c] = None"

lemma takeWhile_nth_distinct:
  "distinct xs \<Longrightarrow> i < length xs \<Longrightarrow> length (takeWhile (\<lambda>d. d \<noteq> xs ! i) xs) = i"
proof (induction xs arbitrary: i)
  case Nil
  then show ?case by simp
next
  case (Cons x xs)
  then show ?case by (cases i) (auto simp: nth_Cons')
qed

lemma alphabet_index_nth: "distinct al \<Longrightarrow> i < length al \<Longrightarrow> alphabet_index al (al ! i) = Some i"
  by (simp add: alphabet_index_def takeWhile_nth_distinct)

lemma hex_alphabet_distinct: "distinct hex_alphabet"
  by (simp add: hex_alphabet_def)

lemma hex_alphabet_length: "length hex_alphabet = 16"
  by (simp add: hex_alphabet_def)

lemma nibble_bound: "unat (drop_bit 4 (b :: u8)) < 16" "unat (take_bit 4 (b :: u8)) < 16"
proof -
  have "unat b < 256" using unsigned_less [of b, where ?'a = nat] by simp
  then show "unat (drop_bit 4 b) < 16"
    by (subst unsigned_drop_bit_eq) (simp add: take_bit_nat_eq_self drop_bit_eq_div less_mult_imp_div_less)
  show "unat (take_bit 4 b) < 16"
    using take_bit_nat_less_exp [of 4 "unat b"] by (simp add: unsigned_take_bit_eq)
qed

lemma nibbles_join: "push_bit 4 (drop_bit 4 (b :: u8)) OR take_bit 4 b = b"
  by (rule bit_word_eqI) (auto simp: bit_simps)

lemma hex_decode_byte: "hex_decode (hex_byte b @ cs) = map_option (Cons b) (hex_decode cs)"
  by (simp add: hex_byte_def alphabet_index_nth hex_alphabet_distinct hex_alphabet_length
      nibble_bound nibbles_join split: option.splits)

interpretation hex: codec hex_encode hex_decode
proof unfold_locales
  show "hex_decode (hex_encode bs) = Some bs" for bs
    by (induction bs) (simp_all add: hex_encode_def hex_decode_byte)
qed

section \<open>base64.RawURLEncoding\<close>

definition b64_alphabet :: string where
  "b64_alphabet = ''ABCDEFGHIJKLMNOPQRSTUVWXYZabcdefghijklmnopqrstuvwxyz0123456789-_''"

definition b64_char :: "u32 \<Rightarrow> char" where
  "b64_char v = b64_alphabet ! unat (take_bit 6 v)"

text \<open>
  Three bytes, as the 24-bit group the encoder shifts, make four characters; a tail of two
  bytes makes three, of one byte two.
\<close>

definition b64_group :: "u8 \<Rightarrow> u8 \<Rightarrow> u8 \<Rightarrow> u32" where
  "b64_group a b c = push_bit 16 (ucast a) OR push_bit 8 (ucast b) OR ucast c"

fun b64_encode :: "u8 list \<Rightarrow> string" where
  "b64_encode (a # b # c # bs) =
    (let v = b64_group a b c
     in [b64_char (drop_bit 18 v), b64_char (drop_bit 12 v), b64_char (drop_bit 6 v), b64_char v]
        @ b64_encode bs)"
| "b64_encode [a, b] =
    (let v = b64_group a b 0
     in [b64_char (drop_bit 18 v), b64_char (drop_bit 12 v), b64_char (drop_bit 6 v)])"
| "b64_encode [a] =
    (let v = b64_group a 0 0 in [b64_char (drop_bit 18 v), b64_char (drop_bit 12 v)])"
| "b64_encode [] = []"

definition b64_join :: "nat \<Rightarrow> nat \<Rightarrow> nat \<Rightarrow> nat \<Rightarrow> u32" where
  "b64_join i j k l = push_bit 18 (of_nat i) OR push_bit 12 (of_nat j) OR push_bit 6 (of_nat k) OR of_nat l"

fun b64_decode :: "string \<Rightarrow> u8 list option" where
  "b64_decode (c0 # c1 # c2 # c3 # cs) =
    (case (alphabet_index b64_alphabet c0, alphabet_index b64_alphabet c1,
           alphabet_index b64_alphabet c2, alphabet_index b64_alphabet c3, b64_decode cs) of
       (Some i, Some j, Some k, Some l, Some bs) \<Rightarrow>
         (let v = b64_join i j k l
          in Some (ucast (drop_bit 16 v) # ucast (drop_bit 8 v) # ucast v # bs))
     | _ \<Rightarrow> None)"
| "b64_decode [c0, c1, c2] =
    (case (alphabet_index b64_alphabet c0, alphabet_index b64_alphabet c1,
           alphabet_index b64_alphabet c2) of
       (Some i, Some j, Some k) \<Rightarrow>
         (let v = b64_join i j k 0 in Some [ucast (drop_bit 16 v), ucast (drop_bit 8 v)])
     | _ \<Rightarrow> None)"
| "b64_decode [c0, c1] =
    (case (alphabet_index b64_alphabet c0, alphabet_index b64_alphabet c1) of
       (Some i, Some j) \<Rightarrow> Some [ucast (drop_bit 16 (b64_join i j 0 0))]
     | _ \<Rightarrow> None)"
| "b64_decode [c0] = None"
| "b64_decode [] = Some []"

lemma b64_alphabet_distinct: "distinct b64_alphabet"
  by (simp add: b64_alphabet_def)

lemma b64_alphabet_length: "length b64_alphabet = 64"
  by (simp add: b64_alphabet_def)

lemma sextet_bound: "unat (take_bit 6 (v :: u32)) < 64"
  using take_bit_nat_less_exp [of 6 "unat v"] by (simp add: unsigned_take_bit_eq)

lemma b64_char_index: "alphabet_index b64_alphabet (b64_char v) = Some (unat (take_bit 6 v))"
  by (simp add: b64_char_def alphabet_index_nth b64_alphabet_distinct b64_alphabet_length sextet_bound)

lemma b64_join_sextets:
  "b64_join (unat (take_bit 6 (drop_bit 18 v))) (unat (take_bit 6 (drop_bit 12 v)))
     (unat (take_bit 6 (drop_bit 6 v))) (unat (take_bit 6 v)) = take_bit 24 v"
  unfolding b64_join_def of_nat_unat ucast_id
proof (rule bit_word_eqI)
  fix n :: nat
  consider "n < 6" | "6 \<le> n" "n < 12" | "12 \<le> n" "n < 18" | "18 \<le> n" by linarith
  then show "bit (push_bit 18 (take_bit 6 (drop_bit 18 v)) OR push_bit 12 (take_bit 6 (drop_bit 12 v))
      OR push_bit 6 (take_bit 6 (drop_bit 6 v)) OR take_bit 6 v) n = bit (take_bit 24 v) n"
    if "n < LENGTH(32)"
    by cases (use that in \<open>auto simp: bit_simps\<close>)
qed

text \<open>The short tails are the full group with zero bytes, so one fact covers all three.\<close>

lemma b64_group_back:
  "ucast (drop_bit 16 (b64_group a b c)) = a" "ucast (drop_bit 8 (b64_group a b c)) = b"
  "ucast (b64_group a b c) = c" "take_bit 24 (b64_group a b c) = b64_group a b c"
  unfolding b64_group_def by (rule bit_word_eqI, auto simp: bit_simps dest: bit_imp_le_length)+

lemma b64_tail_zero:
  "take_bit 6 (b64_group a b 0) = 0" "take_bit 6 (drop_bit 6 (b64_group a 0 0)) = 0"
  unfolding b64_group_def by (rule bit_word_eqI, auto simp: bit_simps)+

lemma b64_decode_group:
  "b64_decode (b64_encode (a # b # c # bs)) = map_option (\<lambda>r. a # b # c # r) (b64_decode (b64_encode bs))"
  by (simp add: Let_def b64_char_index b64_join_sextets b64_group_back split: option.splits)

lemma b64_decode_pair: "b64_decode (b64_encode [a, b]) = Some [a, b]"
  using b64_join_sextets [of "b64_group a b 0"]
  by (simp add: Let_def b64_char_index b64_group_back b64_tail_zero)

lemma b64_decode_single: "b64_decode (b64_encode [a]) = Some [a]"
  using b64_join_sextets [of "b64_group a 0 0"]
  by (simp add: Let_def b64_char_index b64_group_back b64_tail_zero)

interpretation b64: codec b64_encode b64_decode
proof unfold_locales
  show "b64_decode (b64_encode bs) = Some bs" for bs
  proof (induction bs rule: b64_encode.induct)
    case (1 a b c bs)
    then show ?case by (simp only: b64_decode_group) simp
  next
    case (2 a b)
    show ?case by (rule b64_decode_pair)
  next
    case (3 a)
    show ?case by (rule b64_decode_single)
  next
    case 4
    show ?case by simp
  qed
qed

lemma length_b64_encode: "length (b64_encode bs) = (4 * length bs + 2) div 3"
  by (induction bs rule: b64_encode.induct) (simp_all add: Let_def)

lemma b64_char_in: "b64_char v \<in> set b64_alphabet"
  by (simp add: b64_char_def b64_alphabet_length sextet_bound)

lemma set_b64_encode: "set (b64_encode bs) \<subseteq> set b64_alphabet"
  by (induction bs rule: b64_encode.induct) (simp_all add: Let_def b64_char_in)

lemma length_hex_encode [simp]: "length (hex_encode bs) = 2 * length bs"
  by (induction bs) (simp_all add: hex_encode_def hex_byte_def)

end
