(* ===== verification/Jwt.thy ===== *)
theory Jwt
  imports Codec Go_Lib
begin

text \<open>
  The interface of the JWT library (github.com/golang-jwt/jwt/v5, not part of the
  repository) as the token code uses it. The library is a parameter: a record of the
  functions the source calls. \<open>jwt_documented\<close> states the documented behaviour the source
  relies on; \<open>reference_jwt\<close> is a small concrete library with that behaviour, so that no
  theorem under the hypothesis is vacuous.
\<close>

section \<open>Claims and options\<close>

text \<open>A jwt.MapClaims: the members of a JSON object. A number is a NumericDate in seconds.\<close>

datatype claim = CString string | CNumber int | CBool bool | CNull

type_synonym map_claims = "(string \<times> claim) list"

datatype parsed_claims = MapClaims map_claims | OtherClaims

text \<open>The sentinel errors of the library that Parse joins.\<close>

datatype jwt_failure =
    TokenMalformed
  | TokenUnverifiable
  | TokenSignatureInvalid
  | TokenRequiredClaimMissing
  | TokenExpired
  | TokenNotValidYet
  | TokenInvalidIssuer
  | InvalidType
  | TokenInvalidClaims

record parser_options =
  valid_methods :: "string list"
  expected_issuer :: string
  expiration_required :: bool
  current_time :: nanos

record jwt_lib =
  jwt_numeric_date :: "nanos \<Rightarrow> int"
  jwt_sign :: "string \<Rightarrow> u8 list \<Rightarrow> map_claims \<Rightarrow> string option"
  jwt_parse :: "parser_options \<Rightarrow> u8 list \<Rightarrow> string \<Rightarrow> jwt_failure list + parsed_claims"
  jwt_alg :: "string \<Rightarrow> string option"
  jwt_verifies :: "u8 list \<Rightarrow> string \<Rightarrow> bool"

text \<open>
  The registered-claim checks Parse makes once the signature is good: exp (where the zero
  date counts as absent), nbf and iss.
\<close>

definition exp_failures :: "parser_options \<Rightarrow> map_claims \<Rightarrow> jwt_failure list" where
  "exp_failures opts claims =
    (let missing = (if expiration_required opts then [TokenRequiredClaimMissing] else []) in
     case map_of claims ''exp'' of
       None \<Rightarrow> missing
     | Some (CNumber e) \<Rightarrow>
         if e = 0 then missing else if current_time opts < e * second then [] else [TokenExpired]
     | Some _ \<Rightarrow> [InvalidType])"

definition nbf_failures :: "parser_options \<Rightarrow> map_claims \<Rightarrow> jwt_failure list" where
  "nbf_failures opts claims =
    (case map_of claims ''nbf'' of
       None \<Rightarrow> []
     | Some (CNumber n) \<Rightarrow> if n * second \<le> current_time opts then [] else [TokenNotValidYet]
     | Some _ \<Rightarrow> [InvalidType])"

definition iss_failures :: "parser_options \<Rightarrow> map_claims \<Rightarrow> jwt_failure list" where
  "iss_failures opts claims =
    (case map_of claims ''iss'' of
       None \<Rightarrow> [TokenRequiredClaimMissing]
     | Some (CString i) \<Rightarrow> if i = expected_issuer opts then [] else [TokenInvalidIssuer]
     | Some _ \<Rightarrow> [InvalidType])"

definition claim_failures :: "parser_options \<Rightarrow> map_claims \<Rightarrow> jwt_failure list" where
  "claim_failures opts claims = exp_failures opts claims @ nbf_failures opts claims @ iss_failures opts claims"

definition check_claims :: "parser_options \<Rightarrow> map_claims \<Rightarrow> jwt_failure list + parsed_claims" where
  "check_claims opts claims =
    (case claim_failures opts claims of
       [] \<Rightarrow> Inr (MapClaims claims)
     | fs \<Rightarrow> Inl (TokenInvalidClaims # fs))"

text \<open>
  What the library documents. A token it signed is one it parses back to its claims, subject
  to their checks, when the method is allowed; a token it accepts is signed under the key by
  an allowed method and passed the checks; NumericDate keeps whole seconds; HS256 signing
  does not fail.
\<close>

definition jwt_documented :: "jwt_lib \<Rightarrow> bool" where
  "jwt_documented L \<longleftrightarrow>
    (\<forall>t. jwt_numeric_date L t = t div second)
    \<and> (\<forall>key claims. jwt_sign L ''HS256'' key claims \<noteq> None)
    \<and> (\<forall>opts key claims tok. jwt_sign L ''HS256'' key claims = Some tok \<longrightarrow>
         ''HS256'' \<in> set (valid_methods opts) \<longrightarrow> jwt_parse L opts key tok = check_claims opts claims)
    \<and> (\<forall>opts key tok claims. jwt_parse L opts key tok = Inr (MapClaims claims) \<longrightarrow>
         (\<exists>alg. jwt_alg L tok = Some alg \<and> alg \<in> set (valid_methods opts))
         \<and> jwt_verifies L key tok \<and> claim_failures opts claims = [])"

lemma check_claims_ok: "check_claims opts claims = Inr c \<longleftrightarrow> c = MapClaims claims \<and> claim_failures opts claims = []"
  by (auto simp: check_claims_def split: list.splits)

lemma check_claims_failed:
  "check_claims opts claims = Inl fs \<longleftrightarrow> claim_failures opts claims \<noteq> [] \<and> fs = TokenInvalidClaims # claim_failures opts claims"
  by (auto simp: check_claims_def split: list.splits)

section \<open>A concrete library\<close>

text \<open>
  A token is the signing method, the key and the claims, each written by an invertible
  encoding; a token verifies under a key when it carries that key. It is no cryptography,
  only an executable instance of the documented behaviour.
\<close>

fun enc_string :: "string \<Rightarrow> string" where
  "enc_string [] = ''.''"
| "enc_string (c # cs) = CHR ''-'' # c # enc_string cs"

fun dec_string :: "string \<Rightarrow> (string \<times> string) option" where
  "dec_string (d # cs) =
    (if d = CHR ''.'' then Some ([], cs)
     else (case cs of [] \<Rightarrow> None | c # cs' \<Rightarrow>
        (case dec_string cs' of None \<Rightarrow> None | Some (s, rest) \<Rightarrow> Some (c # s, rest))))"
| "dec_string [] = None"

lemma dec_enc_string [simp]: "dec_string (enc_string s @ rest) = Some (s, rest)"
  by (induction s) auto

definition enc_int :: "int \<Rightarrow> string" where
  "enc_int i = enc_string (if i < 0 then replicate (nat (- i)) (CHR ''m'') else replicate (nat i) (CHR ''p''))"

definition dec_int :: "string \<Rightarrow> (int \<times> string) option" where
  "dec_int s = (case dec_string s of None \<Rightarrow> None
     | Some (t, rest) \<Rightarrow> Some (if CHR ''m'' \<in> set t then - int (length t) else int (length t), rest))"

lemma dec_enc_int [simp]: "dec_int (enc_int i @ rest) = Some (i, rest)"
  by (auto simp: dec_int_def enc_int_def)

fun enc_claim :: "claim \<Rightarrow> string" where
  "enc_claim (CString s) = CHR ''s'' # enc_string s"
| "enc_claim (CNumber i) = CHR ''n'' # enc_int i"
| "enc_claim (CBool b) = (if b then ''t'' else ''f'')"
| "enc_claim CNull = ''0''"

fun dec_claim :: "string \<Rightarrow> (claim \<times> string) option" where
  "dec_claim [] = None"
| "dec_claim (c # cs) =
    (if c = CHR ''s'' then map_option (\<lambda>(s, r). (CString s, r)) (dec_string cs)
     else if c = CHR ''n'' then map_option (\<lambda>(i, r). (CNumber i, r)) (dec_int cs)
     else if c = CHR ''t'' then Some (CBool True, cs)
     else if c = CHR ''f'' then Some (CBool False, cs)
     else Some (CNull, cs))"

lemma dec_enc_claim [simp]: "dec_claim (enc_claim c @ rest) = Some (c, rest)"
  by (cases c) auto

fun enc_claims :: "map_claims \<Rightarrow> string" where
  "enc_claims [] = ''e''"
| "enc_claims ((k, v) # cs) = CHR ''c'' # enc_string k @ enc_claim v @ enc_claims cs"

fun dec_claims :: "nat \<Rightarrow> string \<Rightarrow> map_claims option" where
  "dec_claims (Suc n) (c # cs) =
    (if c = CHR ''e'' then Some []
     else (case dec_string cs of None \<Rightarrow> None | Some (k, r) \<Rightarrow>
        (case dec_claim r of None \<Rightarrow> None | Some (v, r') \<Rightarrow> map_option (Cons (k, v)) (dec_claims n r'))))"
| "dec_claims _ _ = None"

lemma dec_enc_claims: "length cs < n \<Longrightarrow> dec_claims n (enc_claims cs) = Some cs"
  by (induction cs arbitrary: n rule: enc_claims.induct) (auto simp: less_Suc_eq_0_disj gr0_conv_Suc Suc_less_eq2)

lemma length_enc_claims: "length cs < length (enc_claims cs)"
  by (induction cs rule: enc_claims.induct) auto

definition ref_sign :: "string \<Rightarrow> u8 list \<Rightarrow> map_claims \<Rightarrow> string option" where
  "ref_sign alg key claims = Some (enc_string alg @ enc_string (hex_encode key) @ enc_claims claims)"

definition ref_split :: "string \<Rightarrow> (string \<times> string \<times> map_claims) option" where
  "ref_split tok = (case dec_string tok of None \<Rightarrow> None | Some (alg, r) \<Rightarrow>
     (case dec_string r of None \<Rightarrow> None | Some (k, r') \<Rightarrow>
       map_option (\<lambda>cs. (alg, k, cs)) (dec_claims (length r') r')))"

definition ref_parse :: "parser_options \<Rightarrow> u8 list \<Rightarrow> string \<Rightarrow> jwt_failure list + parsed_claims" where
  "ref_parse opts key tok =
    (case ref_split tok of
       None \<Rightarrow> Inl [TokenMalformed]
     | Some (alg, k, claims) \<Rightarrow>
         if alg \<notin> set (valid_methods opts) \<or> k \<noteq> hex_encode key then Inl [TokenSignatureInvalid]
         else check_claims opts claims)"

definition reference_jwt :: jwt_lib where
  "reference_jwt = \<lparr>
     jwt_numeric_date = (\<lambda>t. t div second),
     jwt_sign = ref_sign,
     jwt_parse = ref_parse,
     jwt_alg = (\<lambda>tok. map_option fst (ref_split tok)),
     jwt_verifies = (\<lambda>key tok. map_option (fst \<circ> snd) (ref_split tok) = Some (hex_encode key)) \<rparr>"

lemma ref_split_sign: "ref_sign alg key claims = Some tok \<Longrightarrow> ref_split tok = Some (alg, hex_encode key, claims)"
  by (auto simp: ref_sign_def ref_split_def dec_enc_claims length_enc_claims)

lemma reference_jwt_documented: "jwt_documented reference_jwt"
  by (auto simp: jwt_documented_def reference_jwt_def ref_parse_def ref_split_sign check_claims_ok
      split: option.splits if_splits) (simp add: ref_sign_def)

end
