(* ===== verification/Tokens.thy ===== *)
theory Tokens
  imports Sha256 Codec Go_Lib Jwt
begin

text \<open>
  internal/auth/tokens.go: the server's own tokens. An access token is a JWT signed with the
  issuer's key; a refresh token is 32 random bytes in base64url of which only the SHA-256
  hash is stored. The JWT library is the parameter \<open>L\<close>; the clock and the random source are
  the readings a call makes.
\<close>

section \<open>Constants and errors\<close>

definition access_token_ttl :: nanos where
  "access_token_ttl = 15 * minute"

definition refresh_token_ttl :: nanos where
  "refresh_token_ttl = 60 * 24 * hour"

definition issuer_name :: string where
  "issuer_name = ''einkaufsliste''"

definition access_token_type :: string where
  "access_token_type = ''access''"

definition refresh_token_bytes :: nat where
  "refresh_token_bytes = 32"

definition min_signing_key_bytes :: nat where
  "min_signing_key_bytes = 32"

datatype token_error =
    WeakSigningKey nat
  | NoUserID
  | SigningFailed
  | RandomFailed
  | ErrInvalidAccessToken
  | ErrExpiredAccessToken

section \<open>The issuer\<close>

text \<open>The Clock field is a function of the process; its readings are arguments here.\<close>

record token_issuer =
  signing_key :: "u8 list"

definition new_token_issuer :: "u8 list \<Rightarrow> token_error + token_issuer" where
  "new_token_issuer key =
    (if length key < min_signing_key_bytes then Inl (WeakSigningKey (length key))
     else Inr \<lparr>signing_key = key\<rparr>)"

section \<open>Access tokens\<close>

record access_token =
  access_jwt :: string
  access_expires_at :: nanos

definition access_claims :: "jwt_lib \<Rightarrow> string \<Rightarrow> nanos \<Rightarrow> map_claims" where
  "access_claims L user now =
    [(''iss'', CString issuer_name),
     (''sub'', CString user),
     (''iat'', CNumber (jwt_numeric_date L now)),
     (''exp'', CNumber (jwt_numeric_date L (now + access_token_ttl))),
     (''typ'', CString access_token_type)]"

definition new_access_token :: "jwt_lib \<Rightarrow> token_issuer \<Rightarrow> string \<Rightarrow> nanos \<Rightarrow> token_error + access_token" where
  "new_access_token L t user now =
    (if user = [] then Inl NoUserID
     else (case jwt_sign L ''HS256'' (signing_key t) (access_claims L user now) of
        None \<Rightarrow> Inl SigningFailed
      | Some jws \<Rightarrow> Inr \<lparr>access_jwt = jws, access_expires_at = now + access_token_ttl\<rparr>))"

definition access_options :: "nanos \<Rightarrow> parser_options" where
  "access_options now = \<lparr>valid_methods = [''HS256''], expected_issuer = issuer_name,
     expiration_required = True, current_time = now\<rparr>"

text \<open>A failed type assertion \<open>claims[k].(string)\<close> leaves the empty string.\<close>

definition string_claim :: "map_claims \<Rightarrow> string \<Rightarrow> string" where
  "string_claim claims k = (case map_of claims k of Some (CString s) \<Rightarrow> s | _ \<Rightarrow> [])"

definition parse_access_token :: "jwt_lib \<Rightarrow> token_issuer \<Rightarrow> nanos \<Rightarrow> string \<Rightarrow> token_error + string" where
  "parse_access_token L t now raw =
    (case jwt_parse L (access_options now) (signing_key t) raw of
       Inl failures \<Rightarrow>
         if TokenExpired \<in> set failures then Inl ErrExpiredAccessToken else Inl ErrInvalidAccessToken
     | Inr OtherClaims \<Rightarrow> Inl ErrInvalidAccessToken
     | Inr (MapClaims claims) \<Rightarrow>
         if string_claim claims ''typ'' \<noteq> access_token_type then Inl ErrInvalidAccessToken
         else if string_claim claims ''sub'' = [] then Inl ErrInvalidAccessToken
         else Inr (string_claim claims ''sub''))"

section \<open>Refresh tokens\<close>

record new_refresh =
  refresh_secret :: string
  refresh_hash :: string
  refresh_expires_at :: nanos

definition hash_refresh_token :: "string \<Rightarrow> string" where
  "hash_refresh_token token = hex_encode (sha256_sum (bytes_of token))"

text \<open>
  \<open>random\<close> is the byte stream rand.Read fills the buffer from, None when it fails.
\<close>

type_synonym random_source = "(nat \<Rightarrow> u8) option"

definition rand_read :: "nat \<Rightarrow> random_source \<Rightarrow> u8 list option" where
  "rand_read n random = map_option (\<lambda>f. map f [0..<n]) random"

definition new_refresh_token :: "random_source \<Rightarrow> nanos \<Rightarrow> token_error + new_refresh" where
  "new_refresh_token random now =
    (case rand_read refresh_token_bytes random of
       None \<Rightarrow> Inl RandomFailed
     | Some raw \<Rightarrow>
         (let token = b64_encode raw
          in Inr \<lparr>refresh_secret = token, refresh_hash = hash_refresh_token token,
                 refresh_expires_at = now + refresh_token_ttl\<rparr>))"

definition equal_hashes :: "string \<Rightarrow> string \<Rightarrow> bool" where
  "equal_hashes a b = (constant_time_compare (bytes_of a) (bytes_of b) = 1)"

section \<open>Facts\<close>

lemma length_hash_refresh_token [simp]: "length (hash_refresh_token tok) = 64"
  by (simp add: hash_refresh_token_def)

lemma new_access_token_ok:
  assumes "jwt_documented L" and "user \<noteq> []"
  obtains a where "new_access_token L t user now = Inr a" and "access_expires_at a = now + access_token_ttl"
    and "jwt_sign L ''HS256'' (signing_key t) (access_claims L user now) = Some (access_jwt a)"
proof -
  from assms(1) have "jwt_sign L ''HS256'' (signing_key t) (access_claims L user now) \<noteq> None"
    by (simp add: jwt_documented_def)
  then obtain s where s: "jwt_sign L ''HS256'' (signing_key t) (access_claims L user now) = Some s" by blast
  show thesis
    by (rule that [of "\<lparr>access_jwt = s, access_expires_at = now + access_token_ttl\<rparr>"])
      (simp_all add: new_access_token_def assms(2) s)
qed

lemma exp_deadline_iff: "now < e * second \<longleftrightarrow> now div second < e"
  by (simp add: second_def) linarith

text \<open>What an access token of this issuer is worth at a later moment.\<close>

lemma parse_own_access_token:
  assumes L: "jwt_documented L" and a: "new_access_token L t user issued = Inr a"
    and pos: "0 < (issued + access_token_ttl) div second"
  shows "parse_access_token L t now (access_jwt a) =
    (if now div second < (issued + access_token_ttl) div second then Inr user
     else Inl ErrExpiredAccessToken)"
proof -
  have u: "user \<noteq> []" using a by (auto simp: new_access_token_def)
  have s: "jwt_sign L ''HS256'' (signing_key t) (access_claims L user issued) = Some (access_jwt a)"
    using a u by (auto simp: new_access_token_def split: option.splits)
  have d: "jwt_numeric_date L x = x div second" for x
    using L by (simp add: jwt_documented_def)
  have "jwt_parse L (access_options now) (signing_key t) (access_jwt a)
      = check_claims (access_options now) (access_claims L user issued)"
    using L s by (simp add: jwt_documented_def access_options_def)
  moreover have "claim_failures (access_options now) (access_claims L user issued)
      = (if now div second < (issued + access_token_ttl) div second then [] else [TokenExpired])"
    using pos by (simp add: claim_failures_def exp_failures_def nbf_failures_def iss_failures_def
        access_claims_def access_options_def d exp_deadline_iff)
  ultimately show ?thesis
    using u by (simp add: parse_access_token_def check_claims_def string_claim_def access_claims_def)
qed

lemma parse_access_token_sound:
  assumes L: "jwt_documented L" and p: "parse_access_token L t now raw = Inr user"
  shows "jwt_alg L raw = Some ''HS256'' \<and> jwt_verifies L (signing_key t) raw \<and> user \<noteq> []
    \<and> (\<exists>claims. jwt_parse L (access_options now) (signing_key t) raw = Inr (MapClaims claims)
         \<and> map_of claims ''typ'' = Some (CString access_token_type)
         \<and> map_of claims ''sub'' = Some (CString user)
         \<and> map_of claims ''iss'' = Some (CString issuer_name)
         \<and> (\<exists>e. map_of claims ''exp'' = Some (CNumber e) \<and> now < e * second))"
proof -
  obtain claims where c: "jwt_parse L (access_options now) (signing_key t) raw = Inr (MapClaims claims)"
    and token_type: "string_claim claims ''typ'' = access_token_type"
    and sub: "string_claim claims ''sub'' = user" "user \<noteq> []"
    using p by (auto simp: parse_access_token_def split: sum.splits parsed_claims.splits if_splits)
  have ok: "jwt_alg L raw = Some ''HS256''" "jwt_verifies L (signing_key t) raw"
    "claim_failures (access_options now) claims = []"
    using L c unfolding jwt_documented_def by (fastforce simp: access_options_def)+
  from ok(3) have "iss_failures (access_options now) claims = []" "exp_failures (access_options now) claims = []"
    by (simp_all add: claim_failures_def)
  then have "map_of claims ''iss'' = Some (CString issuer_name)"
    "\<exists>e. map_of claims ''exp'' = Some (CNumber e) \<and> now < e * second"
    by (auto simp: iss_failures_def exp_failures_def access_options_def Let_def
        split: option.splits claim.splits if_splits)
  then show ?thesis
    using ok c token_type sub by (auto simp: string_claim_def access_token_type_def split: option.splits claim.splits)
qed

text \<open>The secret a byte stream yields: 43 characters of the URL-safe alphabet.\<close>

definition refresh_secret_of :: "(nat \<Rightarrow> u8) \<Rightarrow> string" where
  "refresh_secret_of f = b64_encode (map f [0..<refresh_token_bytes])"

lemma new_refresh_token_ok:
  "new_refresh_token (Some f) now = Inr \<lparr>refresh_secret = refresh_secret_of f,
     refresh_hash = hash_refresh_token (refresh_secret_of f), refresh_expires_at = now + refresh_token_ttl\<rparr>"
  by (simp add: new_refresh_token_def rand_read_def refresh_secret_of_def Let_def)

lemma new_refresh_token_None: "new_refresh_token None now = Inl RandomFailed"
  by (simp add: new_refresh_token_def rand_read_def)

lemma refresh_secret_of_eq_iff:
  "refresh_secret_of f = refresh_secret_of g \<longleftrightarrow> (\<forall>i < refresh_token_bytes. f i = g i)"
  by (auto simp: refresh_secret_of_def b64.encode_eq_iff)

lemma length_refresh_secret_of: "length (refresh_secret_of f) = 43"
  by (simp add: refresh_secret_of_def length_b64_encode refresh_token_bytes_def)

lemma refresh_secret_of_nonempty [simp]: "refresh_secret_of f \<noteq> []"
  using length_refresh_secret_of [of f] by force

lemma new_refresh_token_Inr:
  "new_refresh_token random now = Inr r \<Longrightarrow>
    refresh_hash r = hash_refresh_token (refresh_secret r) \<and> refresh_expires_at r = now + refresh_token_ttl"
  by (auto simp: new_refresh_token_def Let_def split: option.splits)

end
