(* ===== verification/Token_Store.thy ===== *)
theory Token_Store
  imports Schema
begin

text \<open>
  The statements on refresh_tokens (internal/store/refresh_tokens.sql.go), one definition
  each, with the constraints of migrations/00003. \<open>table_le\<close> is the contract of the whole
  table: rows are only ever appended, and the two marks used_at and revoked_at are only ever
  set, never changed. \<open>token_history\<close> is that contract as an interface of a component with
  such a table; its client facts (a spent token stays spent, a revoked family stays revoked)
  hold for every run.
\<close>

section \<open>The statements\<close>

definition family_revoked :: "refresh_token list \<Rightarrow> uuid \<Rightarrow> bool" where
  "family_revoked rows f = list_ex (\<lambda>r. token_family r = f \<and> revoked_at r \<noteq> None) rows"

text \<open>The WHERE clause of ConsumeRefreshToken.\<close>

definition consumable :: "micros \<Rightarrow> string \<Rightarrow> refresh_token list \<Rightarrow> refresh_token \<Rightarrow> bool" where
  "consumable now h rows r \<longleftrightarrow>
    token_hash r = h \<and> used_at r = None \<and> revoked_at r = None \<and> expires_at r > now
    \<and> \<not> family_revoked rows (token_family r)"

definition mark_used :: "micros \<Rightarrow> refresh_token \<Rightarrow> refresh_token" where
  "mark_used now r = r\<lparr>used_at := Some now\<rparr>"

definition mark_revoked :: "micros \<Rightarrow> refresh_token \<Rightarrow> refresh_token" where
  "mark_revoked now r = r\<lparr>revoked_at := Some now\<rparr>"

definition consume_refresh_token :: "micros \<Rightarrow> string \<Rightarrow> refresh_token statement" where
  "consume_refresh_token now h d =
    (let P = consumable now h (refresh_tokens d) in
     case find P (refresh_tokens d) of
       None \<Rightarrow> (Inl NoRows, d)
     | Some r \<Rightarrow> (Inr (mark_used now r),
         d\<lparr>refresh_tokens := update_where P (mark_used now) (refresh_tokens d)\<rparr>))"

definition get_refresh_token_by_hash :: "string \<Rightarrow> db \<Rightarrow> sql_error + refresh_token" where
  "get_refresh_token_by_hash h d =
    (case find (\<lambda>r. token_hash r = h) (refresh_tokens d) of None \<Rightarrow> Inl NoRows | Some r \<Rightarrow> Inr r)"

record insert_refresh_token_params =
  param_user :: uuid
  param_family :: uuid
  param_hash :: string
  param_expires :: micros

text \<open>issued_at takes the column default now(); used_at and revoked_at are null.\<close>

definition new_row :: "micros \<Rightarrow> uuid \<Rightarrow> insert_refresh_token_params \<Rightarrow> refresh_token" where
  "new_row now i p = \<lparr>token_id = i, token_user = param_user p, token_family = param_family p,
     token_hash = param_hash p, issued_at = now, expires_at = param_expires p,
     used_at = None, revoked_at = None\<rparr>"

definition insert_refresh_token :: "micros \<Rightarrow> uuid \<Rightarrow> insert_refresh_token_params \<Rightarrow> refresh_token statement" where
  "insert_refresh_token now i p d =
    (if i \<in> token_id ` set (refresh_tokens d) then (Inl (UniqueViolation ''refresh_tokens_pkey''), d)
     else if param_hash p \<in> token_hash ` set (refresh_tokens d)
       then (Inl (UniqueViolation ''refresh_tokens_token_hash_key''), d)
     else if param_user p \<notin> user_id ` set (users d)
       then (Inl (ForeignKeyViolation ''refresh_tokens_user_id_fkey''), d)
     else (Inr (new_row now i p), d\<lparr>refresh_tokens := refresh_tokens d @ [new_row now i p]\<rparr>))"

text \<open>
  IsBenignRefreshRace. The comparison with a null used_at is null, and no row satisfies
  issued_at >= null, so the conjunction is false then; the result is never null.
\<close>

definition is_benign_refresh_race :: "micros \<Rightarrow> micros option \<Rightarrow> int \<Rightarrow> uuid \<Rightarrow> db \<Rightarrow> bool option" where
  "is_benign_refresh_race now spent_at grace_seconds f d =
    Some (case spent_at of
       None \<Rightarrow> False
     | Some u \<Rightarrow>
         u > now - grace_seconds * 1000000
         \<and> list_ex (\<lambda>s. token_family s = f \<and> issued_at s \<ge> u \<and> used_at s = None
               \<and> revoked_at s = None \<and> expires_at s > now) (refresh_tokens d)
         \<and> \<not> list_ex (\<lambda>s. token_family s = f \<and> issued_at s \<ge> u \<and> used_at s \<noteq> None) (refresh_tokens d)
         \<and> \<not> family_revoked (refresh_tokens d) f)"

text \<open>The :execrows statements return how many rows they changed.\<close>

definition revoke_where :: "(refresh_token \<Rightarrow> bool) \<Rightarrow> micros \<Rightarrow> nat statement" where
  "revoke_where P now d =
    (let Q = (\<lambda>r. P r \<and> revoked_at r = None) in
     (Inr (length (filter Q (refresh_tokens d))),
      d\<lparr>refresh_tokens := update_where Q (mark_revoked now) (refresh_tokens d)\<rparr>))"

definition revoke_refresh_token_family :: "micros \<Rightarrow> uuid \<Rightarrow> nat statement" where
  "revoke_refresh_token_family now f = revoke_where (\<lambda>r. token_family r = f) now"

definition revoke_refresh_tokens_for_user :: "micros \<Rightarrow> uuid \<Rightarrow> nat statement" where
  "revoke_refresh_tokens_for_user now u = revoke_where (\<lambda>r. token_user r = u) now"

section \<open>What the marks leave alone\<close>

lemma mark_simps [simp]:
  "token_id (mark_used now r) = token_id r" "token_user (mark_used now r) = token_user r"
  "token_family (mark_used now r) = token_family r" "token_hash (mark_used now r) = token_hash r"
  "issued_at (mark_used now r) = issued_at r" "expires_at (mark_used now r) = expires_at r"
  "used_at (mark_used now r) = Some now" "revoked_at (mark_used now r) = revoked_at r"
  "token_id (mark_revoked now r) = token_id r" "token_user (mark_revoked now r) = token_user r"
  "token_family (mark_revoked now r) = token_family r" "token_hash (mark_revoked now r) = token_hash r"
  "issued_at (mark_revoked now r) = issued_at r" "expires_at (mark_revoked now r) = expires_at r"
  "used_at (mark_revoked now r) = used_at r" "revoked_at (mark_revoked now r) = Some now"
  by (simp_all add: mark_used_def mark_revoked_def)

lemma new_row_simps [simp]:
  "token_id (new_row now i p) = i" "token_user (new_row now i p) = param_user p"
  "token_family (new_row now i p) = param_family p" "token_hash (new_row now i p) = param_hash p"
  "issued_at (new_row now i p) = now" "expires_at (new_row now i p) = param_expires p"
  "used_at (new_row now i p) = None" "revoked_at (new_row now i p) = None"
  by (simp_all add: new_row_def)

text \<open>The updates keep the key columns: the contract \<open>row_update\<close>, once per column.\<close>

interpretation used_hash: row_update token_hash "mark_used now" for now by unfold_locales simp
interpretation used_id: row_update token_id "mark_used now" for now by unfold_locales simp
interpretation used_family: row_update token_family "mark_used now" for now by unfold_locales simp
interpretation revoked_hash: row_update token_hash "mark_revoked now" for now by unfold_locales simp
interpretation revoked_id: row_update token_id "mark_revoked now" for now by unfold_locales simp
interpretation revoked_family: row_update token_family "mark_revoked now" for now by unfold_locales simp

section \<open>The table only grows\<close>

definition row_le :: "refresh_token \<Rightarrow> refresh_token \<Rightarrow> bool" where
  "row_le r s \<longleftrightarrow> token_id s = token_id r \<and> token_user s = token_user r \<and> token_family s = token_family r
    \<and> token_hash s = token_hash r \<and> issued_at s = issued_at r \<and> expires_at s = expires_at r
    \<and> (used_at r \<noteq> None \<longrightarrow> used_at s = used_at r) \<and> (revoked_at r \<noteq> None \<longrightarrow> revoked_at s = revoked_at r)"

definition table_le :: "refresh_token list \<Rightarrow> refresh_token list \<Rightarrow> bool" where
  "table_le rs ss \<longleftrightarrow> (\<exists>ts new. ss = ts @ new \<and> list_all2 row_le rs ts)"

lemma row_le_refl [simp]: "row_le r r"
  by (simp add: row_le_def)

lemma row_le_trans: "row_le r s \<Longrightarrow> row_le s t \<Longrightarrow> row_le r t"
  by (auto simp: row_le_def)

lemma table_le_refl [simp]: "table_le rs rs"
  unfolding table_le_def by (rule exI [of _ rs]) (simp add: list_all2_refl)

lemma table_le_trans: "table_le rs ss \<Longrightarrow> table_le ss us \<Longrightarrow> table_le rs us"
proof -
  assume "table_le rs ss" and "table_le ss us"
  then obtain ts new vs new' where ss: "ss = ts @ new" "list_all2 row_le rs ts"
    and us: "us = vs @ new'" "list_all2 row_le ss vs"
    by (auto simp: table_le_def)
  from us(2) ss(1) obtain v1 v2 where v: "vs = v1 @ v2" "list_all2 row_le ts v1"
    by (auto simp: list_all2_append1)
  have "list_all2 row_le rs v1"
    using list_all2_trans [OF _ ss(2) v(2)] row_le_trans by blast
  then show ?thesis unfolding table_le_def using us(1) v(1) by (metis append_assoc)
qed

lemma table_le_append [simp]: "table_le rs (rs @ new)"
  unfolding table_le_def by (rule exI [of _ rs]) (simp add: list_all2_refl)

lemma table_le_update: "(\<And>r. P r \<Longrightarrow> row_le r (f r)) \<Longrightarrow> table_le rs (update_where P f rs)"
  unfolding table_le_def
  by (rule exI [of _ "update_where P f rs"]) (simp add: update_where_def list_all2_map2 list_all2_same)

lemma table_le_row:
  assumes "table_le rs ss" and "r \<in> set rs"
  obtains s where "s \<in> set ss" and "row_le r s"
proof -
  from assms(1) obtain ts new where ss: "ss = ts @ new" and le: "list_all2 row_le rs ts"
    by (auto simp: table_le_def)
  from assms(2) obtain i where i: "i < length rs" "rs ! i = r" by (auto simp: in_set_conv_nth)
  have "ts ! i \<in> set ss" using i le ss by (auto dest: list_all2_lengthD)
  moreover have "row_le r (ts ! i)" using list_all2_nthD [OF le i(1)] i(2) by simp
  ultimately show thesis by (rule that)
qed

definition hash_spent :: "string \<Rightarrow> refresh_token list \<Rightarrow> bool" where
  "hash_spent h rows = list_ex (\<lambda>r. token_hash r = h \<and> used_at r \<noteq> None) rows"

lemma hash_spent_mono: "table_le rs ss \<Longrightarrow> hash_spent h rs \<Longrightarrow> hash_spent h ss"
  unfolding hash_spent_def list_ex_iff by (metis row_le_def table_le_row)

lemma family_revoked_mono: "table_le rs ss \<Longrightarrow> family_revoked rs f \<Longrightarrow> family_revoked ss f"
  unfolding family_revoked_def list_ex_iff by (metis row_le_def table_le_row)

text \<open>
  The interface of a component whose refresh-token table only grows, and what its clients
  get: two stable predicates, hence facts about every run.
\<close>

locale token_history =
  fixes rows :: "'s \<Rightarrow> refresh_token list"
    and step :: "'op \<Rightarrow> 's \<Rightarrow> 's"
  assumes grows: "table_le (rows s) (rows (step a s))"
begin

lemma run_grows: "table_le (rows s) (rows (run_steps step as s))"
  by (induction as arbitrary: s) (auto intro: table_le_trans grows)

end

sublocale token_history \<subseteq> spent: stable_predicate step "\<lambda>_ _. True" "\<lambda>_. True" "\<lambda>s. hash_spent h (rows s)" for h
  by unfold_locales (auto intro: hash_spent_mono grows)

sublocale token_history \<subseteq> revoked: stable_predicate step "\<lambda>_ _. True" "\<lambda>_. True" "\<lambda>s. family_revoked (rows s) f" for f
  by unfold_locales (auto intro: family_revoked_mono grows)

end
