(* ===== verification/Token_Chains.thy ===== *)
theory Token_Chains
  imports Token_Store
begin

text \<open>
  The shape of the refresh-token table. Every operation of the session service changes it by
  one \<open>token_effect\<close>; under the guards of the operations (a fresh family for a sign-in, a
  clock past every issued_at for a rotation) the tokens of a family form a chain: each spent
  token was spent at the moment its successor was issued, and only the last is unspent. The
  chain gives IsBenignRefreshRace its meaning: it accepts exactly the token whose immediate
  successor is the live end of the family.
\<close>

section \<open>The statements, by outcome\<close>

lemma consume_Inr:
  assumes "consume_refresh_token now h d = (Inr c, d')"
  obtains r where "r \<in> set (refresh_tokens d)" and "consumable now h (refresh_tokens d) r"
    and "c = mark_used now r"
    and "d' = d\<lparr>refresh_tokens :=
      update_where (consumable now h (refresh_tokens d)) (mark_used now) (refresh_tokens d)\<rparr>"
  using assms by (auto simp: consume_refresh_token_def Let_def split: option.splits dest!: find_SomeD)

lemma consume_Inl:
  "consume_refresh_token now h d = (Inl err, d') \<longleftrightarrow>
    err = NoRows \<and> d' = d \<and> (\<forall>r \<in> set (refresh_tokens d). \<not> consumable now h (refresh_tokens d) r)"
  by (auto simp: consume_refresh_token_def Let_def find_None_iff split: option.splits dest: find_SomeD)

lemma insert_Inr:
  "insert_refresh_token now i p d = (Inr r, d') \<longleftrightarrow>
    i \<notin> token_id ` set (refresh_tokens d) \<and> param_hash p \<notin> token_hash ` set (refresh_tokens d)
    \<and> param_user p \<in> user_id ` set (users d) \<and> r = new_row now i p
    \<and> d' = d\<lparr>refresh_tokens := refresh_tokens d @ [new_row now i p]\<rparr>"
  by (auto simp: insert_refresh_token_def)

lemma insert_state: "snd (insert_refresh_token now i p d) = d \<or> (\<exists>r d'. insert_refresh_token now i p d = (Inr r, d'))"
  by (simp add: insert_refresh_token_def)

lemma consume_le: "consume_refresh_token now h d = (r, d') \<Longrightarrow> table_le (refresh_tokens d) (refresh_tokens d')"
  by (auto simp: consume_refresh_token_def Let_def row_le_def consumable_def split: option.splits intro!: table_le_update)

lemma insert_le: "insert_refresh_token now i p d = (r, d') \<Longrightarrow> table_le (refresh_tokens d) (refresh_tokens d')"
  by (auto simp: insert_refresh_token_def split: if_splits)

lemma revoke_le: "table_le (refresh_tokens d) (refresh_tokens (snd (revoke_where P now d)))"
  by (auto simp: revoke_where_def Let_def row_le_def intro!: table_le_update)

section \<open>Effects of an operation\<close>

text \<open>
  An effect may start a family only when it is given one (\<open>Some f\<close>), and rotate only at the
  transaction time it is given.
\<close>

inductive token_effect :: "micros option \<Rightarrow> uuid option \<Rightarrow> db \<Rightarrow> db \<Rightarrow> bool" where
  nothing: "token_effect n g d d"
| revoked: "token_effect n g d (snd (revoke_where P t d))"
| started: "insert_refresh_token t i p d = (Inr r, d') \<Longrightarrow> param_family p = f \<Longrightarrow> token_effect n (Some f) d d'"
| rotated: "consume_refresh_token now h d = (Inr c, d1) \<Longrightarrow>
    insert_refresh_token now i p d1 = (Inr r, d2) \<Longrightarrow>
    param_family p = token_family c \<Longrightarrow> param_user p = token_user c \<Longrightarrow> token_effect (Some now) g d d2"

lemma token_effect_le: "token_effect n g d d' \<Longrightarrow> table_le (refresh_tokens d) (refresh_tokens d')"
  by (induction rule: token_effect.induct) (auto intro: insert_le consume_le revoke_le table_le_trans)

section \<open>Constraints\<close>

text \<open>What the schema's keys promise of the table.\<close>

definition tokens_wf :: "db \<Rightarrow> bool" where
  "tokens_wf d \<longleftrightarrow> distinct (map token_id (refresh_tokens d)) \<and> distinct (map token_hash (refresh_tokens d))
    \<and> (\<forall>r \<in> set (refresh_tokens d). token_user r \<in> user_id ` set (users d))"

lemma consume_wf: "consume_refresh_token now h d = (r, d') \<Longrightarrow> tokens_wf d \<Longrightarrow> tokens_wf d'"
  by (auto simp: consume_refresh_token_def Let_def tokens_wf_def used_id.distinct_same used_hash.distinct_same
      set_update_where split: option.splits)

lemma insert_wf: "insert_refresh_token now i p d = (r, d') \<Longrightarrow> tokens_wf d \<Longrightarrow> tokens_wf d'"
  by (auto simp: insert_refresh_token_def tokens_wf_def split: if_splits)

lemma revoke_wf: "tokens_wf d \<Longrightarrow> tokens_wf (snd (revoke_where P now d))"
  by (auto simp: revoke_where_def Let_def tokens_wf_def revoked_id.distinct_same revoked_hash.distinct_same
      set_update_where)

lemma token_effect_wf: "token_effect n g d d' \<Longrightarrow> tokens_wf d \<Longrightarrow> tokens_wf d'"
  by (induction rule: token_effect.induct) (blast intro: insert_wf consume_wf revoke_wf)+

lemma same_hash_same_row:
  "tokens_wf d \<Longrightarrow> r \<in> set (refresh_tokens d) \<Longrightarrow> s \<in> set (refresh_tokens d) \<Longrightarrow> token_hash r = token_hash s \<Longrightarrow> r = s"
  by (rule distinct_key_unique [of token_hash]) (auto simp: tokens_wf_def)

lemma get_by_hash_row:
  "tokens_wf d \<Longrightarrow> r \<in> set (refresh_tokens d) \<Longrightarrow> get_refresh_token_by_hash (token_hash r) d = Inr r"
  by (simp add: get_refresh_token_by_hash_def tokens_wf_def find_by_key)

section \<open>Chains\<close>

definition family_rows :: "uuid \<Rightarrow> refresh_token list \<Rightarrow> refresh_token list" where
  "family_rows f rows = filter (\<lambda>r. token_family r = f) rows"

fun chain :: "refresh_token list \<Rightarrow> bool" where
  "chain [] \<longleftrightarrow> True"
| "chain [r] \<longleftrightarrow> used_at r = None"
| "chain (r # s # rs) \<longleftrightarrow> used_at r = Some (issued_at s) \<and> issued_at r < issued_at s
     \<and> token_user r = token_user s \<and> chain (s # rs)"

definition chains_ok :: "db \<Rightarrow> bool" where
  "chains_ok d \<longleftrightarrow> (\<forall>f. chain (family_rows f (refresh_tokens d)))"

lemma chain_Cons_Some: "chain (r # s # rs) \<Longrightarrow> used_at r \<noteq> None"
  by simp

lemma chain_spent: "chain (xs @ [l]) \<Longrightarrow> r \<in> set xs \<Longrightarrow> used_at r \<noteq> None"
proof (induction xs)
  case Nil
  then show ?case by simp
next
  case (Cons a xs)
  then show ?case by (cases "xs @ [l]") auto
qed

lemma chain_last: "chain (xs @ [l]) \<Longrightarrow> used_at l = None"
proof (induction xs)
  case (Cons a xs)
  then show ?case by (cases "xs @ [l]") auto
qed simp

lemma chain_sorted: "chain rs \<Longrightarrow> sorted_wrt (\<lambda>a b. issued_at a < issued_at b) rs"
  by (induction rs rule: chain.induct) auto

lemma chain_successor: "chain (xs @ r # s # ys) \<Longrightarrow> used_at r = Some (issued_at s)"
proof (induction xs)
  case (Cons a xs)
  then show ?case by (cases "xs @ r # s # ys") auto
qed simp

lemma chain_suffix: "chain (xs @ ys) \<Longrightarrow> ys \<noteq> [] \<Longrightarrow> chain ys"
proof (induction xs)
  case (Cons a xs)
  then show ?case by (cases "xs @ ys") auto
qed simp

lemma chain_user_head: "chain (a # rs) \<Longrightarrow> r \<in> set rs \<Longrightarrow> token_user r = token_user a"
proof (induction rs arbitrary: a)
  case (Cons b rs)
  then have "chain (b # rs)" and "token_user b = token_user a" by simp_all
  with Cons show ?case by auto
qed simp

lemma chain_user: "chain rs \<Longrightarrow> r \<in> set rs \<Longrightarrow> s \<in> set rs \<Longrightarrow> token_user r = token_user s"
  by (cases rs) (simp, metis chain_user_head set_ConsD)

text \<open>Spending the end of a chain and appending its successor keeps a chain.\<close>

lemma chain_extend:
  assumes "chain (xs @ [l])" and "issued_at l < now"
    and "issued_at n = now" and "used_at n = None" and "token_user n = token_user l"
  shows "chain (xs @ [mark_used now l, n])"
  using assms
proof (induction xs)
  case Nil
  then show ?case by simp
next
  case (Cons a xs)
  then have "chain (xs @ [mark_used now l, n])" by (cases xs) auto
  with Cons.prems show ?case by (cases xs) auto
qed

lemma chain_revoke: "chain (update_where P (mark_revoked now) rs) = chain rs"
  by (induction rs rule: chain.induct) auto

lemma chain_unspent_is_last:
  assumes "chain rs" and "r \<in> set rs" and "used_at r = None"
  obtains xs where "rs = xs @ [r]" and "\<forall>x \<in> set xs. used_at x \<noteq> None"
proof -
  from assms(2) have "rs \<noteq> []" by auto
  then obtain xs l where rs: "rs = xs @ [l]" by (metis append_butlast_last_id)
  with assms chain_spent have "r = l" by fastforce
  with rs assms(1) chain_spent that show thesis by blast
qed

lemma family_rows_append [simp]: "family_rows f (xs @ ys) = family_rows f xs @ family_rows f ys"
  by (simp add: family_rows_def)

lemma set_family_rows: "set (family_rows f rows) = {r \<in> set rows. token_family r = f}"
  by (auto simp: family_rows_def)

lemma family_rows_update_used [simp]:
  "family_rows f (update_where P (mark_used now) rows) = update_where P (mark_used now) (family_rows f rows)"
  unfolding family_rows_def by (rule used_family.filter_key)

lemma family_rows_update_revoked [simp]:
  "family_rows f (update_where P (mark_revoked now) rows) = update_where P (mark_revoked now) (family_rows f rows)"
  unfolding family_rows_def by (rule revoked_family.filter_key)

lemma family_rows_new [simp]:
  "family_rows f [new_row now i p] = (if param_family p = f then [new_row now i p] else [])"
  by (simp add: family_rows_def)

section \<open>Every effect keeps the chains\<close>

lemma revoked_chains: "chains_ok d \<Longrightarrow> chains_ok (snd (revoke_where P now d))"
  by (simp add: chains_ok_def revoke_where_def Let_def chain_revoke)

lemma started_chains:
  assumes "insert_refresh_token t i p d = (Inr r, d')" and "chains_ok d"
    and "param_family p \<notin> token_family ` set (refresh_tokens d)"
  shows "chains_ok d'"
proof -
  have "family_rows (param_family p) (refresh_tokens d) = []"
    using assms(3) by (force simp: family_rows_def filter_empty_conv)
  with assms(1,2) show ?thesis by (auto simp: insert_Inr chains_ok_def)
qed

text \<open>What consuming a token of a chained table does to the families.\<close>

lemma consume_family_rows:
  assumes c: "consume_refresh_token now h d = (Inr c, d')" and wf: "tokens_wf d" and ok: "chains_ok d"
  obtains r xs where "r \<in> set (refresh_tokens d)" and "consumable now h (refresh_tokens d) r"
    and "c = mark_used now r"
    and "family_rows (token_family r) (refresh_tokens d) = xs @ [r]"
    and "family_rows (token_family r) (refresh_tokens d') = xs @ [mark_used now r]"
    and "\<forall>f. f \<noteq> token_family r \<longrightarrow> family_rows f (refresh_tokens d') = family_rows f (refresh_tokens d)"
    and "users d' = users d"
proof -
  let ?T = "refresh_tokens d" and ?P = "consumable now h (refresh_tokens d)"
  obtain r where r: "r \<in> set ?T" "?P r" "c = mark_used now r"
    and d': "d' = d\<lparr>refresh_tokens := update_where ?P (mark_used now) ?T\<rparr>"
    using c by (rule consume_Inr)
  have only: "s = r" if "s \<in> set ?T" "?P s" for s
    using same_hash_same_row [OF wf that(1) r(1)] that(2) r(2) by (simp add: consumable_def)
  have "chain (family_rows (token_family r) ?T)" using ok by (simp add: chains_ok_def)
  moreover have "r \<in> set (family_rows (token_family r) ?T)" "used_at r = None"
    using r by (simp_all add: set_family_rows consumable_def)
  ultimately obtain xs where xs: "family_rows (token_family r) ?T = xs @ [r]"
    and spent: "\<forall>x \<in> set xs. used_at x \<noteq> None"
    by (rule chain_unspent_is_last)
  have "update_where ?P (mark_used now) xs = xs"
    using spent by (intro update_where_none) (auto simp: consumable_def)
  then have same: "family_rows (token_family r) (refresh_tokens d') = xs @ [mark_used now r]"
    using xs r(2) d' by simp
  have other: "family_rows f (refresh_tokens d') = family_rows f ?T" if "f \<noteq> token_family r" for f
  proof -
    have "update_where ?P (mark_used now) (family_rows f ?T) = family_rows f ?T"
      using only that by (intro update_where_none) (auto simp: set_family_rows)
    then show ?thesis by (simp add: d')
  qed
  have "users d' = users d" by (simp add: d')
  with r xs same other show thesis by (intro that) auto
qed

lemma rotated_chains:
  assumes c: "consume_refresh_token now h d = (Inr c, d1)" and i: "insert_refresh_token now i p d1 = (Inr r, d2)"
    and p: "param_family p = token_family c" "param_user p = token_user c"
    and wf: "tokens_wf d" and ok: "chains_ok d" and clock: "\<forall>s \<in> set (refresh_tokens d). issued_at s < now"
  shows "chains_ok d2"
  unfolding chains_ok_def
proof
  fix f
  obtain s xs where s: "s \<in> set (refresh_tokens d)" "consumable now h (refresh_tokens d) s" "c = mark_used now s"
    and fam: "family_rows (token_family s) (refresh_tokens d) = xs @ [s]"
    and fam1: "family_rows (token_family s) (refresh_tokens d1) = xs @ [mark_used now s]"
    and oth: "\<forall>f. f \<noteq> token_family s \<longrightarrow> family_rows f (refresh_tokens d1) = family_rows f (refresh_tokens d)"
    and "users d1 = users d"
    by (rule consume_family_rows [OF c wf ok])
  have d2: "refresh_tokens d2 = refresh_tokens d1 @ [new_row now i p]" using i by (auto simp: insert_Inr)
  have all: "chain (family_rows g (refresh_tokens d))" for g using ok by (simp add: chains_ok_def)
  show "chain (family_rows f (refresh_tokens d2))"
  proof (cases "f = token_family s")
    case True
    have "chain (xs @ [mark_used now s, new_row now i p])"
      using all [of "token_family s"] fam clock s p by (intro chain_extend) auto
    then show ?thesis using True fam1 d2 p s by simp
  next
    case False
    then show ?thesis using all [of f] oth d2 p s by simp
  qed
qed

lemma token_effect_chains:
  assumes "token_effect n g d d'" and "tokens_wf d" and "chains_ok d"
    and "\<forall>now. n = Some now \<longrightarrow> (\<forall>s \<in> set (refresh_tokens d). issued_at s < now)"
    and "\<forall>f. g = Some f \<longrightarrow> f \<notin> token_family ` set (refresh_tokens d)"
  shows "chains_ok d'"
  using assms
  by (induction rule: token_effect.induct) (blast intro: revoked_chains started_chains rotated_chains)+

section \<open>What a benign race is\<close>

lemma chain_after:
  assumes ch: "chain (xs @ r # s # ys)" and t: "t \<in> set (xs @ r # s # ys)"
  shows "issued_at t \<ge> issued_at s \<longleftrightarrow> t \<in> set (s # ys)"
proof -
  have w: "sorted_wrt (\<lambda>a b. issued_at a < issued_at b) (xs @ r # s # ys)" by (rule chain_sorted [OF ch])
  show ?thesis
  proof
    assume ge: "issued_at t \<ge> issued_at s"
    show "t \<in> set (s # ys)"
      using w t ge by (auto simp: sorted_wrt_append not_le [symmetric])
  next
    assume "t \<in> set (s # ys)"
    then show "issued_at t \<ge> issued_at s"
      using w by (auto simp: sorted_wrt_append intro: less_imp_le)
  qed
qed

text \<open>
  On a chained family the query accepts exactly the token just before the live end: spent
  within the grace period, its successor unexpired, the family not revoked.
\<close>

lemma benign_iff:
  assumes ch: "chain (family_rows f (refresh_tokens d))"
    and split: "family_rows f (refresh_tokens d) = xs @ r # s # ys"
  shows "is_benign_refresh_race now (used_at r) g f d = Some True \<longleftrightarrow>
    issued_at s > now - g * 1000000 \<and> ys = [] \<and> expires_at s > now \<and> \<not> family_revoked (refresh_tokens d) f"
proof -
  let ?T = "refresh_tokens d" and ?F = "xs @ r # s # ys"
  have used: "used_at r = Some (issued_at s)" using ch split chain_successor by metis
  have ex: "list_ex (\<lambda>t. token_family t = f \<and> issued_at t \<ge> issued_at s \<and> Q t) ?T
      \<longleftrightarrow> list_ex Q (s # ys)" for Q
  proof -
    have "list_ex (\<lambda>t. token_family t = f \<and> issued_at t \<ge> issued_at s \<and> Q t) ?T
        \<longleftrightarrow> (\<exists>t \<in> set ?F. issued_at t \<ge> issued_at s \<and> Q t)"
      using arg_cong [OF split, of set] by (auto simp: list_ex_iff set_family_rows)
    also have "\<dots> \<longleftrightarrow> list_ex Q (s # ys)"
      using chain_after [of xs r s ys] ch split by (auto simp: list_ex_iff)
    finally show ?thesis .
  qed
  have tail: "chain (s # ys)" using ch split chain_suffix [of "xs @ [r]" "s # ys"] by simp
  have used_any: "list_ex (\<lambda>t. used_at t \<noteq> None) (s # ys) \<longleftrightarrow> ys \<noteq> []"
    using tail by (cases ys) auto
  show ?thesis
  proof (cases ys)
    case Nil
    then have "used_at s = None" using tail by simp
    moreover have "s \<in> set ?T" "token_family s = f"
      using arg_cong [OF split, of set] by (auto simp: set_family_rows)
    ultimately show ?thesis
      using Nil ex [of "\<lambda>t. used_at t = None \<and> revoked_at t = None \<and> expires_at t > now"]
        ex [of "\<lambda>t. used_at t \<noteq> None"]
      by (auto simp: is_benign_refresh_race_def used family_revoked_def list_ex_iff)
  next
    case (Cons t ts)
    then show ?thesis
      using ex [of "\<lambda>t. used_at t \<noteq> None"] used_any
      by (simp add: is_benign_refresh_race_def used)
  qed
qed

end
