(* ===== verification/Sessions.thy ===== *)
theory Sessions
  imports Tokens Token_Chains
begin

text \<open>
  internal/auth/sessions.go: issuing, rotating and revoking refresh tokens. Each operation
  takes the libraries \<open>L\<close>, the token issuer \<open>t\<close>, what the request draws from its environment
  \<open>e\<close> and the committed database, and returns its result with the database it leaves. A
  transaction works on its own copy, which commit makes the committed one and rollback drops.
\<close>

section \<open>Libraries, errors, sessions\<close>

text \<open>uuid_string and uuid_parse are github.com/google/uuid, parameters like the JWT library.\<close>

record libs =
  jwt :: jwt_lib
  uuid_string :: "uuid \<Rightarrow> string"
  uuid_parse :: "string \<Rightarrow> uuid option"

definition uuid_documented :: "libs \<Rightarrow> bool" where
  "uuid_documented L \<longleftrightarrow> (\<forall>u. uuid_string L u \<noteq> [] \<and> uuid_parse L (uuid_string L u) = Some u)"

datatype session_error =
    ErrInvalidRefreshToken
  | ErrRefreshTokenReused
  | ErrRefreshTokenRaced
  | TokenFailure token_error
  | DbFailure string sql_error

definition reuse_grace :: nanos where
  "reuse_grace = 10 * second"

record session =
  session_access :: access_token
  session_refresh :: new_refresh
  session_family :: uuid
  session_user :: uuid

section \<open>The operations\<close>

text \<open>
  \<open>now\<close> is the database time of the handle mint writes through: the rotation's transaction,
  or the autocommitted statement.
\<close>

definition mint :: "libs \<Rightarrow> token_issuer \<Rightarrow> env \<Rightarrow> micros \<Rightarrow> uuid \<Rightarrow> uuid \<Rightarrow> db \<Rightarrow> (session_error + session) \<times> db" where
  "mint L t e now user family d =
    (case new_refresh_token (random_bytes e) (go_now e RefreshClock) of
       Inl err \<Rightarrow> (Inl (TokenFailure err), d)
     | Inr refresh \<Rightarrow>
         (case exec (fault_at e InsertRefreshToken)
                 (insert_refresh_token now (row_id e RefreshTokensTable)
                   \<lparr>param_user = user, param_family = family, param_hash = refresh_hash refresh,
                    param_expires = to_micros (refresh_expires_at refresh)\<rparr>) d of
            (Inl err, d1) \<Rightarrow> (Inl (DbFailure ''storing refresh token'' err), d1)
          | (Inr _, d1) \<Rightarrow>
              (case new_access_token (jwt L) t (uuid_string L user) (go_now e AccessClock) of
                 Inl err \<Rightarrow> (Inl (TokenFailure err), d1)
               | Inr access \<Rightarrow>
                   (Inr \<lparr>session_access = access, session_refresh = refresh,
                     session_family = family, session_user = user\<rparr>, d1))))"

definition issue :: "libs \<Rightarrow> token_issuer \<Rightarrow> env \<Rightarrow> uuid \<Rightarrow> db \<Rightarrow> (session_error + session) \<times> db" where
  "issue L t e user d = mint L t e (db_now e InsertRefreshToken) user (fresh_uuid e) d"

definition diagnose_failed_consume :: "env \<Rightarrow> string \<Rightarrow> db \<Rightarrow> session_error \<times> db" where
  "diagnose_failed_consume e hash d =
    (case exec (fault_at e GetRefreshTokenByHash) (query (get_refresh_token_by_hash hash)) d of
       (Inl NoRows, d1) \<Rightarrow> (ErrInvalidRefreshToken, d1)
     | (Inl err, d1) \<Rightarrow> (DbFailure ''looking up refresh token'' err, d1)
     | (Inr existing, d1) \<Rightarrow>
         if used_at existing \<noteq> None then
           (case exec (fault_at e IsBenignRefreshRace)
                   (query (\<lambda>d. Inr (is_benign_refresh_race (db_now e IsBenignRefreshRace) (used_at existing)
                      (trunc_seconds reuse_grace) (token_family existing) d))) d1 of
              (Inl err, d2) \<Rightarrow> (DbFailure ''checking for a benign refresh race'' err, d2)
            | (Inr benign, d2) \<Rightarrow>
                if benign = Some True then (ErrRefreshTokenRaced, d2)
                else (case exec (fault_at e RevokeRefreshTokenFamily)
                        (revoke_refresh_token_family (db_now e RevokeRefreshTokenFamily) (token_family existing)) d2 of
                   (Inl err, d3) \<Rightarrow> (DbFailure ''revoking reused token family'' err, d3)
                 | (Inr _, d3) \<Rightarrow> (ErrRefreshTokenReused, d3)))
         else (ErrInvalidRefreshToken, d1))"

definition rotate :: "libs \<Rightarrow> token_issuer \<Rightarrow> env \<Rightarrow> string \<Rightarrow> db \<Rightarrow> (session_error + session) \<times> db" where
  "rotate L t e token d =
    (let hash = hash_refresh_token token; now = db_now e BeginTx in
     case exec (fault_at e BeginTx) begin_tx d of
       (Inl err, _) \<Rightarrow> (Inl (DbFailure ''beginning rotation'' err), d)
     | (Inr _, tx) \<Rightarrow>
         (case exec (fault_at e ConsumeRefreshToken) (consume_refresh_token now hash) tx of
            (Inl NoRows, _) \<Rightarrow> (let (err, d') = diagnose_failed_consume e hash d in (Inl err, d'))
          | (Inl err, _) \<Rightarrow> (Inl (DbFailure ''consuming refresh token'' err), d)
          | (Inr consumed, tx1) \<Rightarrow>
              (case mint L t e now (token_user consumed) (token_family consumed) tx1 of
                 (Inl err, _) \<Rightarrow> (Inl err, d)
               | (Inr session, tx2) \<Rightarrow>
                   (case exec (fault_at e CommitTx) (commit_tx tx2) d of
                      (Inl err, d') \<Rightarrow> (Inl (DbFailure ''committing rotation'' err), d')
                    | (Inr _, d') \<Rightarrow> (Inr session, d')))))"

definition revoke_family :: "env \<Rightarrow> uuid \<Rightarrow> db \<Rightarrow> (session_error + unit) \<times> db" where
  "revoke_family e f d =
    (case exec (fault_at e RevokeRefreshTokenFamily)
            (revoke_refresh_token_family (db_now e RevokeRefreshTokenFamily) f) d of
       (Inl err, d1) \<Rightarrow> (Inl (DbFailure ''revoking family'' err), d1)
     | (Inr _, d1) \<Rightarrow> (Inr (), d1))"

definition revoke_all_for_user :: "env \<Rightarrow> uuid \<Rightarrow> db \<Rightarrow> (session_error + unit) \<times> db" where
  "revoke_all_for_user e u d =
    (case exec (fault_at e RevokeRefreshTokensForUser)
            (revoke_refresh_tokens_for_user (db_now e RevokeRefreshTokensForUser) u) d of
       (Inl err, d1) \<Rightarrow> (Inl (DbFailure ''revoking user sessions'' err), d1)
     | (Inr _, d1) \<Rightarrow> (Inr (), d1))"

definition revoke_by_token :: "env \<Rightarrow> string \<Rightarrow> db \<Rightarrow> (session_error + unit) \<times> db" where
  "revoke_by_token e token d =
    (case exec (fault_at e GetRefreshTokenByHash) (query (get_refresh_token_by_hash (hash_refresh_token token))) d of
       (Inl NoRows, d1) \<Rightarrow> (Inr (), d1)
     | (Inl err, d1) \<Rightarrow> (Inl (DbFailure ''looking up refresh token'' err), d1)
     | (Inr existing, d1) \<Rightarrow>
         (case exec (fault_at e RevokeRefreshTokenFamily)
                 (revoke_refresh_token_family (db_now e RevokeRefreshTokenFamily) (token_family existing)) d1 of
            (Inl err, d2) \<Rightarrow> (Inl (DbFailure ''revoking family'' err), d2)
          | (Inr _, d2) \<Rightarrow> (Inr (), d2)))"

section \<open>The service as a transition system\<close>

datatype session_op =
    OpIssue env uuid
  | OpRotate env string
  | OpRevokeFamily env uuid
  | OpRevokeAll env uuid
  | OpRevokeByToken env string

fun session_step :: "libs \<Rightarrow> token_issuer \<Rightarrow> session_op \<Rightarrow> db \<Rightarrow> db" where
  "session_step L t (OpIssue e u) d = snd (issue L t e u d)"
| "session_step L t (OpRotate e tok) d = snd (rotate L t e tok d)"
| "session_step L t (OpRevokeFamily e f) d = snd (revoke_family e f d)"
| "session_step L t (OpRevokeAll e u) d = snd (revoke_all_for_user e u d)"
| "session_step L t (OpRevokeByToken e tok) d = snd (revoke_by_token e tok d)"

text \<open>
  What the environment owes: uuid.New() does not repeat a family, and the database clock has
  moved on since the last token was issued.
\<close>

fun op_clock :: "session_op \<Rightarrow> micros option" where
  "op_clock (OpRotate e tok) = Some (db_now e BeginTx)"
| "op_clock _ = None"

fun op_family :: "session_op \<Rightarrow> uuid option" where
  "op_family (OpIssue e u) = Some (fresh_uuid e)"
| "op_family _ = None"

definition session_guard :: "session_op \<Rightarrow> db \<Rightarrow> bool" where
  "session_guard a d \<longleftrightarrow>
    (\<forall>now. op_clock a = Some now \<longrightarrow> (\<forall>s \<in> set (refresh_tokens d). issued_at s < now))
    \<and> (\<forall>f. op_family a = Some f \<longrightarrow> f \<notin> token_family ` set (refresh_tokens d))"

subsection \<open>Every operation is one effect\<close>

lemma exec_revoke_effect: "exec f (revoke_where P now) d = (r, d') \<Longrightarrow> token_effect n g d d'"
  using exec_state [of f "revoke_where P now" d r d'] by (auto intro: token_effect.intros)

lemma mint_state:
  assumes "mint L t e now user fam d = (r, d')"
  shows "d' = d \<or> (\<exists>p row. insert_refresh_token now (row_id e RefreshTokensTable) p d = (Inr row, d')
      \<and> param_family p = fam \<and> param_user p = user)"
proof (cases "new_refresh_token (random_bytes e) (go_now e RefreshClock)")
  case (Inl err)
  then show ?thesis using assms by (simp add: mint_def)
next
  case (Inr n)
  let ?p = "\<lparr>param_user = user, param_family = fam, param_hash = refresh_hash n,
      param_expires = to_micros (refresh_expires_at n)\<rparr>"
  obtain x d1 where x: "exec (fault_at e InsertRefreshToken)
      (insert_refresh_token now (row_id e RefreshTokensTable) ?p) d = (x, d1)"
    by (cases "exec (fault_at e InsertRefreshToken)
      (insert_refresh_token now (row_id e RefreshTokensTable) ?p) d")
  have "d' = d1"
    using assms Inr x by (auto simp: mint_def split: sum.splits)
  moreover have "d1 = d \<or> (\<exists>row. insert_refresh_token now (row_id e RefreshTokensTable) ?p d = (Inr row, d1))"
    using exec_state [OF x] insert_state [of now "row_id e RefreshTokensTable" ?p d] by auto
  ultimately show ?thesis by (metis insert_refresh_token_params.select_convs(1,2))
qed

lemma issue_effect: "token_effect n (Some (fresh_uuid e)) d (snd (issue L t e u d))"
proof -
  obtain r d' where m: "mint L t e (db_now e InsertRefreshToken) u (fresh_uuid e) d = (r, d')"
    by (cases "mint L t e (db_now e InsertRefreshToken) u (fresh_uuid e) d")
  show ?thesis using mint_state [OF m] m by (auto simp: issue_def intro: token_effect.intros)
qed

lemma diagnose_effect: "token_effect n g d (snd (diagnose_failed_consume e h d))"
  by (auto simp: diagnose_failed_consume_def revoke_refresh_token_family_def
      split: sum.splits sql_error.splits prod.splits if_splits
      dest!: exec_query_state intro: token_effect.nothing exec_revoke_effect)

lemma revoke_family_effect: "token_effect n g d (snd (revoke_family e f d))"
  by (auto simp: revoke_family_def revoke_refresh_token_family_def split: sum.splits prod.splits
      intro: exec_revoke_effect)

lemma revoke_all_effect: "token_effect n g d (snd (revoke_all_for_user e u d))"
  by (auto simp: revoke_all_for_user_def revoke_refresh_tokens_for_user_def split: sum.splits prod.splits
      intro: exec_revoke_effect)

lemma revoke_by_token_effect: "token_effect n g d (snd (revoke_by_token e tok d))"
  by (auto simp: revoke_by_token_def revoke_refresh_token_family_def
      split: sum.splits sql_error.splits prod.splits
      dest!: exec_query_state intro: token_effect.nothing exec_revoke_effect)

lemma mint_commit_fault [simp]: "mint L t (e\<lparr>fault_at := (fault_at e)(CommitTx := f)\<rparr>) = mint L t e"
  by (intro ext) (simp add: mint_def split: sum.split prod.split)

text \<open>
  The three ways out of a rotation: nothing was consumable and the failure is diagnosed, the
  transaction is dropped, or it reached its commit.
\<close>

lemma rotate_cases:
  obtains
    (diagnosed) "exec (fault_at e BeginTx) begin_tx d = (Inr (), d)"
      and "exec (fault_at e ConsumeRefreshToken) (consume_refresh_token (db_now e BeginTx) (hash_refresh_token tok)) d
            = (Inl NoRows, d)"
      and "rotate L t e tok d = map_prod Inl id (diagnose_failed_consume e (hash_refresh_token tok) d)"
  | (dropped) err where "rotate L t e tok d = (Inl err, d)"
      and "\<exists>what cause. err = DbFailure what cause \<or> (\<exists>f. err = TokenFailure f)"
  | (committed) c tx1 s tx2 where
        "consume_refresh_token (db_now e BeginTx) (hash_refresh_token tok) d = (Inr c, tx1)"
      and "mint L t e (db_now e BeginTx) (token_user c) (token_family c) tx1 = (Inr s, tx2)"
      and "rotate L t e tok d = (Inr s, tx2) \<or>
           (\<exists>err. rotate L t e tok d = (Inl (DbFailure ''committing rotation'' err), d)
                \<or> rotate L t e tok d = (Inl (DbFailure ''committing rotation'' err), tx2))"
      and "rotate L t (e\<lparr>fault_at := (fault_at e)(CommitTx := NoFault)\<rparr>) tok d = (Inr s, tx2)"
proof -
  let ?h = "hash_refresh_token tok" and ?now = "db_now e BeginTx"
  obtain b tx where b: "exec (fault_at e BeginTx) begin_tx d = (b, tx)"
    by (cases "exec (fault_at e BeginTx) begin_tx d")
  have tx: "tx = d" using exec_begin_state [OF b] .
  obtain c tx1 where c: "exec (fault_at e ConsumeRefreshToken) (consume_refresh_token ?now ?h) d = (c, tx1)"
    by (cases "exec (fault_at e ConsumeRefreshToken) (consume_refresh_token ?now ?h) d")
  show thesis
  proof (cases b)
    case (Inl err)
    then show thesis using b by (intro dropped) (auto simp: rotate_def Let_def)
  next
    case b_ok: (Inr u)
    show thesis
    proof (cases c)
      case (Inl err)
      show thesis
      proof (cases "err = NoRows")
        case True
        have "consume_refresh_token ?now ?h d = (Inl NoRows, tx1) \<or> NoRows = ConnectionLost"
          using c Inl True by (auto simp: exec_def split: fault.splits)
        then have "tx1 = d" by (auto simp: consume_Inl)
        with True b b_ok c Inl tx show thesis
          by (intro diagnosed) (auto simp: rotate_def Let_def map_prod_def split: prod.splits)
      next
        case False
        with b b_ok c Inl tx show thesis
          by (intro dropped [of "DbFailure ''consuming refresh token'' err"])
            (cases err, auto simp: rotate_def Let_def)
      qed
    next
      case c_ok: (Inr r)
      obtain m tx2 where m: "mint L t e ?now (token_user r) (token_family r) tx1 = (m, tx2)"
        by (cases "mint L t e ?now (token_user r) (token_family r) tx1")
      obtain k d' where k: "exec (fault_at e CommitTx) (commit_tx tx2) d = (k, d')"
        by (cases "exec (fault_at e CommitTx) (commit_tx tx2) d")
      have run: "rotate L t e tok d = (case m of Inl err \<Rightarrow> (Inl err, d) | Inr s \<Rightarrow>
          (case k of Inl err \<Rightarrow> (Inl (DbFailure ''committing rotation'' err), d') | Inr _ \<Rightarrow> (Inr s, d')))"
        using b b_ok c c_ok m k tx by (auto simp: rotate_def Let_def split: sum.splits)
      show thesis
      proof (cases m)
        case (Inl err)
        moreover have "\<exists>what cause. err = DbFailure what cause \<or> (\<exists>f. err = TokenFailure f)"
          using m Inl by (auto simp: mint_def split: sum.splits prod.splits)
        ultimately show thesis using run by (intro dropped) auto
      next
        case (Inr s)
        show thesis
          by (rule committed [OF exec_Inr [OF c [unfolded c_ok]] m [unfolded Inr]])
            (use run Inr exec_commit_state [OF k] exec_commit_Inr [of _ tx2 d _ d'] k b b_ok c c_ok m tx
              in \<open>auto simp: rotate_def Let_def commit_tx_def split: sum.splits\<close>)
      qed
    qed
  qed
qed

lemma mint_Inr:
  assumes "mint L t e now user fam d = (Inr s, d')"
  obtains f where "random_bytes e = Some f" and "refresh_secret (session_refresh s) = refresh_secret_of f"
    and "refresh_hash (session_refresh s) = hash_refresh_token (refresh_secret_of f)"
    and "refresh_expires_at (session_refresh s) = go_now e RefreshClock + refresh_token_ttl"
    and "session_family s = fam" and "session_user s = user"
    and "new_access_token (jwt L) t (uuid_string L user) (go_now e AccessClock) = Inr (session_access s)"
    and "insert_refresh_token now (row_id e RefreshTokensTable)
      \<lparr>param_user = user, param_family = fam, param_hash = hash_refresh_token (refresh_secret_of f),
       param_expires = to_micros (go_now e RefreshClock + refresh_token_ttl)\<rparr> d
      = (Inr (new_row now (row_id e RefreshTokensTable)
      \<lparr>param_user = user, param_family = fam, param_hash = hash_refresh_token (refresh_secret_of f),
       param_expires = to_micros (go_now e RefreshClock + refresh_token_ttl)\<rparr>), d')"
proof (cases "random_bytes e")
  case None
  then show thesis using assms by (simp add: mint_def new_refresh_token_None)
next
  case (Some f)
  then show thesis
    using assms
    by (auto simp: mint_def new_refresh_token_ok split: sum.splits prod.splits
        dest!: exec_Inr intro!: that [of f] simp: insert_Inr)
qed

lemma rotate_effect: "token_effect (Some (db_now e BeginTx)) g d (snd (rotate L t e tok d))"
proof (cases rule: rotate_cases [of e d tok L t])
  case diagnosed
  then show ?thesis by (simp add: diagnose_effect)
next
  case (dropped err)
  then show ?thesis by (simp add: token_effect.nothing)
next
  case (committed c tx1 s tx2)
  from committed(2) have "token_effect (Some (db_now e BeginTx)) g d tx2"
    by (rule mint_Inr) (rule token_effect.rotated [OF committed(1)], auto)
  then show ?thesis using committed(3) by (auto intro: token_effect.nothing)
qed

lemma session_step_effect: "token_effect (op_clock a) (op_family a) d (session_step L t a d)"
  by (cases a) (simp_all add: issue_effect rotate_effect revoke_family_effect revoke_all_effect
      revoke_by_token_effect)

subsection \<open>The service satisfies the interfaces\<close>

text \<open>Its table only grows, whatever the operations and whatever fails.\<close>

interpretation tok: token_history refresh_tokens "session_step L t" for L t
  by unfold_locales (rule token_effect_le [OF session_step_effect])

text \<open>The schema's keys hold unconditionally, the chains under the guards.\<close>

interpretation keys: transition_system "session_step L t" "\<lambda>_ _. True" tokens_wf for L t
  by unfold_locales (rule token_effect_wf [OF session_step_effect])

definition sessions_ok :: "db \<Rightarrow> bool" where
  "sessions_ok d \<longleftrightarrow> tokens_wf d \<and> chains_ok d"

interpretation sess: transition_system "session_step L t" session_guard sessions_ok for L t
  by unfold_locales
    (auto simp: sessions_ok_def session_guard_def
      intro: token_effect_wf [OF session_step_effect] token_effect_chains [OF session_step_effect])

end
