(* ===== verification/Accounts.thy ===== *)
theory Accounts
  imports Account_Store Verifier Sessions
begin

text \<open>
  internal/auth/accounts.go: from a verified identity to a user. The whole of Provision runs
  in one transaction; the log is not part of it, so what was logged stays logged when the
  transaction is rolled back. A computation threads a \<open>world\<close>: the transaction's copy of the
  database and the log so far.
\<close>

section \<open>The log\<close>

datatype level = LevelDebug | LevelInfo | LevelWarn | LevelError

datatype attr_value = AString string | AStrings "string list" | ABool bool | AInt int | AError

record log_entry =
  log_level :: level
  log_message :: string
  log_attrs :: "(string \<times> attr_value) list"

definition info :: "string \<Rightarrow> (string \<times> attr_value) list \<Rightarrow> log_entry" where
  "info msg attrs = \<lparr>log_level = LevelInfo, log_message = msg, log_attrs = attrs\<rparr>"

definition warn :: "string \<Rightarrow> (string \<times> attr_value) list \<Rightarrow> log_entry" where
  "warn msg attrs = \<lparr>log_level = LevelWarn, log_message = msg, log_attrs = attrs\<rparr>"

section \<open>Worlds\<close>

record world =
  world_db :: db
  world_log :: "log_entry list"

datatype account_error = AccountDbFailure string sql_error

definition add_log :: "log_entry \<Rightarrow> world \<Rightarrow> world" where
  "add_log l w = w\<lparr>world_log := world_log w @ [l]\<rparr>"

text \<open>Run a statement in the transaction; its error is wrapped with what was being done.\<close>

definition run_sql :: "fault \<Rightarrow> 'a statement \<Rightarrow> world \<Rightarrow> (sql_error + 'a) \<times> world" where
  "run_sql f q w = map_prod id (\<lambda>d. w\<lparr>world_db := d\<rparr>) (exec f q (world_db w))"

definition wrap :: "string \<Rightarrow> sql_error + 'a \<Rightarrow> account_error + 'a" where
  "wrap what = map_sum (AccountDbFailure what) id"

section \<open>Profile helpers\<close>

definition private_relay_suffix :: string where
  "private_relay_suffix = ''@privaterelay.appleid.com''"

definition is_private_relay :: "string \<Rightarrow> bool" where
  "is_private_relay e = has_suffix (to_lower e) private_relay_suffix"

definition optional :: "string \<Rightarrow> string option" where
  "optional s = (if s = [] then None else Some s)"

fun same_optional :: "string option \<Rightarrow> string option \<Rightarrow> bool" where
  "same_optional None None = True"
| "same_optional None (Some b) = False"
| "same_optional (Some a) None = False"
| "same_optional (Some a) (Some b) = (a = b)"

definition display_name_of :: "identity \<Rightarrow> string" where
  "display_name_of i =
    (if id_name i \<noteq> [] then id_name i
     else (let (local, _, found) = cut (id_email i) (CHR ''@'') in
       if found \<and> local \<noteq> [] then local else id_subject i))"

text \<open>Whether the stored profile is the one the provider gives.\<close>

definition profile_current :: "identity \<Rightarrow> user_row \<Rightarrow> bool" where
  "profile_current i u \<longleftrightarrow> display_name_of i = display_name u \<and> same_optional (optional (id_picture i)) (avatar_url u)"

section \<open>The steps of Provision\<close>

definition refresh_profile :: "env \<Rightarrow> user_row \<Rightarrow> identity \<Rightarrow> world \<Rightarrow> (account_error + user_row) \<times> world" where
  "refresh_profile e user i w =
    (let name = display_name_of i; avatar = optional (id_picture i) in
     if name = display_name user \<and> same_optional avatar (avatar_url user) then (Inr user, w)
     else map_prod (wrap ''updating profile'') id
       (run_sql (fault_at e UpdateUserProfile) (update_user_profile (db_now e BeginTx) (user_id user) name avatar) w))"

definition link_target :: "pg \<Rightarrow> env \<Rightarrow> identity \<Rightarrow> world \<Rightarrow> (account_error + user_row option) \<times> world" where
  "link_target g e i w =
    (if \<not> id_email_verified i then
       (Inr None, add_log (info ''not linking: incoming email is unverified'' [(''provider'', AString (id_provider i))]) w)
     else if is_private_relay (id_email i) then
       (Inr None, add_log (info ''not linking: private relay address'' [(''provider'', AString (id_provider i))]) w)
     else (case run_sql (fault_at e GetVerifiedUserByEmail) (query (get_verified_user_by_email g (id_email i))) w of
        (Inl NoRows, w1) \<Rightarrow> (Inr None, w1)
      | (Inl err, w1) \<Rightarrow> (Inl (AccountDbFailure ''looking for a linkable account'' err), w1)
      | (Inr candidate, w1) \<Rightarrow> (Inr (Some candidate), w1)))"

definition identity_label :: "string \<times> string \<Rightarrow> string" where
  "identity_label ps = fst ps @ '':'' @ snd ps"

definition link :: "pg \<Rightarrow> libs \<Rightarrow> env \<Rightarrow> user_row \<Rightarrow> identity \<Rightarrow> world \<Rightarrow> (account_error + user_row) \<times> world" where
  "link g L e user i w =
    (case run_sql (fault_at e CreateIdentity)
            (create_identity (db_now e BeginTx) (row_id e IdentitiesTable)
              \<lparr>link_user = user_id user, link_provider = id_provider i, link_subject = id_subject i\<rparr>) w of
       (Inl err, w1) \<Rightarrow> (Inl (AccountDbFailure ''linking identity'' err), w1)
     | (Inr _, w1) \<Rightarrow>
        (case run_sql (fault_at e ListIdentitySubjectsForUser) (query (list_identity_subjects_for_user g (user_id user))) w1 of
           (Inl err, w2) \<Rightarrow> (Inl (AccountDbFailure ''reading linked identities'' err), w2)
         | (Inr subjects, w2) \<Rightarrow>
             refresh_profile e user i (add_log (warn ''linked a new provider to an existing account''
               [(''user_id'', AString (uuid_string L (user_id user))),
                (''added'', AString (identity_label (id_provider i, id_subject i))),
                (''identities'', AStrings (map identity_label subjects))]) w2)))"

definition create :: "pg \<Rightarrow> libs \<Rightarrow> env \<Rightarrow> identity \<Rightarrow> world \<Rightarrow> (account_error + user_row) \<times> world" where
  "create g L e i w =
    (let verified = id_email_verified i \<and> \<not> is_private_relay (id_email i) in
     case run_sql (fault_at e CreateUser)
            (create_user g (db_now e BeginTx) (row_id e UsersTable)
              \<lparr>new_display_name = display_name_of i, new_email = id_email i,
               new_email_verified = verified, new_avatar_url = optional (id_picture i)\<rparr>) w of
       (Inl err, w1) \<Rightarrow> (Inl (AccountDbFailure ''creating user'' err), w1)
     | (Inr user, w1) \<Rightarrow>
        (case run_sql (fault_at e CreateIdentity)
                (create_identity (db_now e BeginTx) (row_id e IdentitiesTable)
                  \<lparr>link_user = user_id user, link_provider = id_provider i, link_subject = id_subject i\<rparr>) w1 of
           (Inl err, w2) \<Rightarrow> (Inl (AccountDbFailure ''creating identity'' err), w2)
         | (Inr _, w2) \<Rightarrow>
             (Inr user, add_log (info ''created an account''
               [(''user_id'', AString (uuid_string L (user_id user))), (''provider'', AString (id_provider i)),
                (''email_verified'', ABool verified)]) w2)))"

definition provision_tx :: "pg \<Rightarrow> libs \<Rightarrow> env \<Rightarrow> identity \<Rightarrow> world \<Rightarrow> (account_error + user_row) \<times> world" where
  "provision_tx g L e i w =
    (case run_sql (fault_at e GetUserByIdentity) (query (get_user_by_identity (id_provider i) (id_subject i))) w of
       (Inr existing, w1) \<Rightarrow> refresh_profile e existing i w1
     | (Inl NoRows, w1) \<Rightarrow>
        (case link_target g e i w1 of
           (Inl err, w2) \<Rightarrow> (Inl err, w2)
         | (Inr (Some user), w2) \<Rightarrow> link g L e user i w2
         | (Inr None, w2) \<Rightarrow> create g L e i w2)
     | (Inl err, w1) \<Rightarrow> (Inl (AccountDbFailure ''looking up identity'' err), w1))"

definition provision :: "pg \<Rightarrow> libs \<Rightarrow> env \<Rightarrow> identity \<Rightarrow> db \<Rightarrow> (account_error + user_row) \<times> log_entry list \<times> db" where
  "provision g L e i d =
    (case exec (fault_at e BeginTx) begin_tx d of
       (Inl err, _) \<Rightarrow> (Inl (AccountDbFailure ''beginning provisioning'' err), [], d)
     | (Inr _, tx) \<Rightarrow>
        (case provision_tx g L e i \<lparr>world_db = tx, world_log = []\<rparr> of
           (Inl err, w) \<Rightarrow> (Inl err, world_log w, d)
         | (Inr user, w) \<Rightarrow>
            (case exec (fault_at e CommitTx) (commit_tx (world_db w)) d of
               (Inl err, d') \<Rightarrow> (Inl (AccountDbFailure ''committing provisioning'' err), world_log w, d')
             | (Inr _, d') \<Rightarrow> (Inr user, world_log w, d'))))"

definition by_id :: "env \<Rightarrow> uuid \<Rightarrow> db \<Rightarrow> (account_error + user_row) \<times> db" where
  "by_id e i d = map_prod (wrap ''loading user'') id (exec (fault_at e GetUserByID) (query (get_user_by_id i)) d)"

section \<open>What a provisioning can do to the tables\<close>

text \<open>
  Either a profile is refreshed, of a user known by the identity or of one it may be linked
  to after its identity row is added; or a user and its first identity are added.
\<close>

definition may_link :: "pg \<Rightarrow> identity \<Rightarrow> user_row \<Rightarrow> bool" where
  "may_link g i u \<longleftrightarrow> id_email_verified i \<and> \<not> is_private_relay (id_email i)
    \<and> email_verified u \<and> same_email g (email u) (id_email i) \<and> user_deleted_at u = None"

definition owns_identity :: "db \<Rightarrow> string \<Rightarrow> string \<Rightarrow> user_row \<Rightarrow> bool" where
  "owns_identity d p s u \<longleftrightarrow> u \<in> set (users d) \<and> user_deleted_at u = None
    \<and> list_ex (\<lambda>r. identity_user r = user_id u \<and> is_identity p s r) (identities d)"

lemma run_sql_Inr: "run_sql f q w = (Inr a, w') \<Longrightarrow> q (world_db w) = (Inr a, world_db w') \<and> world_log w' = world_log w
    \<and> w' = w\<lparr>world_db := world_db w'\<rparr>"
  by (auto simp: run_sql_def map_prod_def split: prod.splits dest!: exec_Inr)

lemma run_query: "run_sql f (query q) w = (x, w') \<Longrightarrow> w' = w \<and> (\<forall>a. x = Inr a \<longrightarrow> q (world_db w) = Inr a)
    \<and> (x = Inl NoRows \<longrightarrow> q (world_db w) = Inl NoRows)"
  by (auto simp: run_sql_def map_prod_def exec_def query_def split: prod.splits fault.splits)

lemma wrap_simps [simp]: "wrap what (Inr a) = Inr a" "wrap what (Inl err) = Inl (AccountDbFailure what err)"
  "wrap what x = Inr a \<longleftrightarrow> x = Inr a"
  by (simp_all add: wrap_def map_sum_Inr)

lemma same_optional_iff [simp]: "same_optional a b \<longleftrightarrow> a = b"
  by (cases a; cases b) simp_all

lemma refresh_profile_Inr:
  assumes "refresh_profile e u i w = (Inr v, w')"
  shows "v = u \<and> w' = w \<and> profile_current i u \<or>
    update_user_profile (db_now e BeginTx) (user_id u) (display_name_of i) (optional (id_picture i)) (world_db w)
      = (Inr v, world_db w') \<and> world_log w' = world_log w \<and> \<not> profile_current i u"
  using assms by (auto simp: refresh_profile_def profile_current_def Let_def map_prod_def split: if_splits prod.splits dest!: run_sql_Inr)

lemma link_target_Inr:
  assumes "link_target g e i w = (Inr t, w')"
  shows "world_db w' = world_db w
    \<and> (\<forall>u. t = Some u \<longrightarrow> w' = w \<and> u \<in> set (users (world_db w)) \<and> may_link g i u)
    \<and> (t = None \<longrightarrow> id_email_verified i \<longrightarrow> \<not> is_private_relay (id_email i) \<longrightarrow>
         (\<forall>u \<in> set (users (world_db w)). \<not> may_link g i u))"
  using assms
  by (auto simp: link_target_def add_log_def get_verified_user_by_email_def may_link_def find_None_iff
      split: if_splits sum.splits sql_error.splits prod.splits dest!: run_query find_SomeD)

lemma get_user_by_identity_Inr:
  "get_user_by_identity p s d = Inr u \<Longrightarrow> owns_identity d p s u"
  by (auto simp: get_user_by_identity_def owns_identity_def dest!: find_SomeD)

lemma get_user_by_identity_None:
  "get_user_by_identity p s d = Inl NoRows \<longleftrightarrow> (\<forall>u. \<not> owns_identity d p s u)"
  by (auto simp: get_user_by_identity_def owns_identity_def find_None_iff)


text \<open>The three ways Provision succeeds.\<close>

lemma provision_tx_Inr:
  assumes "provision_tx g L e i w = (Inr u, w')"
  obtains
    (returning) v where "owns_identity (world_db w) (id_provider i) (id_subject i) v"
      and "u = v \<and> world_db w' = world_db w \<and> profile_current i v \<or>
        update_user_profile (db_now e BeginTx) (user_id v) (display_name_of i) (optional (id_picture i)) (world_db w)
          = (Inr u, world_db w') \<and> \<not> profile_current i v"
      and "get_user_by_identity (id_provider i) (id_subject i) (world_db w) = Inr v"
  | (linked) v r d1 where "\<forall>v. \<not> owns_identity (world_db w) (id_provider i) (id_subject i) v"
      and "v \<in> set (users (world_db w))" and "may_link g i v"
      and "create_identity (db_now e BeginTx) (row_id e IdentitiesTable)
          \<lparr>link_user = user_id v, link_provider = id_provider i, link_subject = id_subject i\<rparr> (world_db w) = (Inr r, d1)"
      and "u = v \<and> world_db w' = d1 \<and> profile_current i v \<or>
        update_user_profile (db_now e BeginTx) (user_id v) (display_name_of i) (optional (id_picture i)) d1
          = (Inr u, world_db w') \<and> \<not> profile_current i v"
      and "world_log w' = world_log w @ [warn ''linked a new provider to an existing account''
               [(''user_id'', AString (uuid_string L (user_id v))),
                (''added'', AString (identity_label (id_provider i, id_subject i))),
                (''identities'', AStrings (map identity_label (projr (list_identity_subjects_for_user g (user_id v) d1))))]]"
      and "link_target g e i w = (Inr (Some v), w)"
  | (created) r d1 where "\<forall>v. \<not> owns_identity (world_db w) (id_provider i) (id_subject i) v"
      and "\<forall>v \<in> set (users (world_db w)). \<not> may_link g i v"
      and "create_user g (db_now e BeginTx) (row_id e UsersTable)
          \<lparr>new_display_name = display_name_of i, new_email = id_email i,
           new_email_verified = (id_email_verified i \<and> \<not> is_private_relay (id_email i)),
           new_avatar_url = optional (id_picture i)\<rparr> (world_db w) = (Inr u, d1)"
      and "create_identity (db_now e BeginTx) (row_id e IdentitiesTable)
          \<lparr>link_user = user_id u, link_provider = id_provider i, link_subject = id_subject i\<rparr> d1 = (Inr r, world_db w')"
      and "\<exists>w1. link_target g e i w = (Inr None, w1)"
proof -
  let ?q = "query (get_user_by_identity (id_provider i) (id_subject i))"
  obtain x w1 where x: "run_sql (fault_at e GetUserByIdentity) ?q w = (x, w1)"
    by (cases "run_sql (fault_at e GetUserByIdentity) ?q w")
  have w1: "w1 = w" and q: "\<And>a. x = Inr a \<Longrightarrow> get_user_by_identity (id_provider i) (id_subject i) (world_db w) = Inr a"
    and none: "x = Inl NoRows \<Longrightarrow> get_user_by_identity (id_provider i) (id_subject i) (world_db w) = Inl NoRows"
    using run_query [OF x] by auto
  show thesis
  proof (cases x)
    case (Inr v)
    then have "refresh_profile e v i w = (Inr u, w')" using assms x w1 by (simp add: provision_tx_def)
    from refresh_profile_Inr [OF this] get_user_by_identity_Inr [OF q [OF Inr]] show thesis
      using q [OF Inr] by (intro returning [of v]) auto
  next
    case (Inl err)
    then have err: "err = NoRows" using assms x by (cases err) (simp_all add: provision_tx_def)
    then have nobody: "\<forall>v. \<not> owns_identity (world_db w) (id_provider i) (id_subject i) v"
      using none Inl by (simp add: get_user_by_identity_None)
    obtain y w2 where y: "link_target g e i w = (y, w2)" by (cases "link_target g e i w")
    then obtain t where t: "y = Inr t" and run: "(case t of None \<Rightarrow> create g L e i w2 | Some v \<Rightarrow> link g L e v i w2) = (Inr u, w')"
      using assms x w1 Inl err by (auto simp: provision_tx_def split: sum.splits option.splits)
    note lt = link_target_Inr [OF y [unfolded t]]
    show thesis
    proof (cases t)
      case (Some v)
      then have w2: "w2 = w" and v: "v \<in> set (users (world_db w))" "may_link g i v" using lt by auto
      have "link g L e v i w = (Inr u, w')" using run Some w2 by simp
      then obtain r w3 subs where c: "create_identity (db_now e BeginTx) (row_id e IdentitiesTable)
          \<lparr>link_user = user_id v, link_provider = id_provider i, link_subject = id_subject i\<rparr> (world_db w) = (Inr r, world_db w3)"
        and l3: "world_log w3 = world_log w"
        and subs: "list_identity_subjects_for_user g (user_id v) (world_db w3) = Inr subs"
        and ref: "refresh_profile e v i (add_log (warn ''linked a new provider to an existing account''
               [(''user_id'', AString (uuid_string L (user_id v))),
                (''added'', AString (identity_label (id_provider i, id_subject i))),
                (''identities'', AStrings (map identity_label subs))]) w3) = (Inr u, w')"
        by (auto simp: link_def split: sum.splits prod.splits dest!: run_sql_Inr run_query)
      have "projr (list_identity_subjects_for_user g (user_id v) (world_db w3)) = subs" using subs by simp
      with refresh_profile_Inr [OF ref] show thesis
        using y t Some w2 by (intro linked [OF nobody v c]) (auto simp: add_log_def l3)
    next
      case None
      have db: "world_db w2 = world_db w" using lt by simp
      have "create g L e i w2 = (Inr u, w')" using run None by simp
      then obtain d1 r where c: "create_user g (db_now e BeginTx) (row_id e UsersTable)
          \<lparr>new_display_name = display_name_of i, new_email = id_email i,
           new_email_verified = (id_email_verified i \<and> \<not> is_private_relay (id_email i)),
           new_avatar_url = optional (id_picture i)\<rparr> (world_db w) = (Inr u, d1)"
        "create_identity (db_now e BeginTx) (row_id e IdentitiesTable)
          \<lparr>link_user = user_id u, link_provider = id_provider i, link_subject = id_subject i\<rparr> d1 = (Inr r, world_db w')"
        unfolding create_def Let_def db [symmetric]
        by (auto simp: add_log_def split: sum.splits prod.splits dest!: run_sql_Inr)
      have "\<forall>v \<in> set (users (world_db w)). \<not> may_link g i v" using lt None by (auto simp: may_link_def)
      moreover have "\<exists>w1. link_target g e i w = (Inr None, w1)" using y t None by simp
      ultimately show thesis by (rule created [OF nobody _ c])
    qed
  qed
qed

lemma provision_outcome:
  assumes "provision g L e i d = (r, logs, d')"
  shows "d' = d \<and> (\<exists>err. r = Inl err) \<or>
    (\<exists>u w. provision_tx g L e i \<lparr>world_db = d, world_log = []\<rparr> = (Inr u, w) \<and> d' = world_db w \<and> logs = world_log w
      \<and> (r = Inr u \<or> (\<exists>cause. r = Inl (AccountDbFailure ''committing provisioning'' cause))))"
  using assms
  by (auto simp: provision_def split: sum.splits prod.splits
      dest!: exec_begin_state dest: exec_commit_state exec_commit_Inr)

lemma provision_Inr:
  assumes "provision g L e i d = (Inr u, logs, d')"
  obtains w where "provision_tx g L e i \<lparr>world_db = d, world_log = []\<rparr> = (Inr u, w)" and "d' = world_db w"
    and "logs = world_log w"
  using provision_outcome [OF assms] by auto

section \<open>The tables only grow\<close>

definition user_core :: "user_row \<Rightarrow> uuid \<times> string \<times> bool \<times> micros \<times> micros option" where
  "user_core u = (user_id u, email u, email_verified u, user_created_at u, user_deleted_at u)"

lemma update_profile_core:
  assumes "update_user_profile now i n a d = (Inr u, d')"
  shows "map user_core (users d') = map user_core (users d) \<and> identities d' = identities d
    \<and> refresh_tokens d' = refresh_tokens d \<and> user_id u = i
    \<and> (\<exists>v \<in> set (users d). user_id v = i \<and> user_core u = user_core v) \<and> display_name u = n \<and> avatar_url u = a"
proof -
  have "map user_core (update_where (\<lambda>u. user_id u = i) (set_profile now n a) us) = map user_core us" for us
    by (rule map_update_where_same) (simp add: user_core_def)
  then show ?thesis using assms
    by (auto simp: update_user_profile_Inr user_core_def dest!: find_SomeD)
qed

lemma provision_tx_grows:
  assumes "provision_tx g L e i w = (Inr u, w')"
  shows "\<exists>us rs. map user_core (users (world_db w')) = map user_core (users (world_db w)) @ us \<and> length us \<le> 1
    \<and> identities (world_db w') = identities (world_db w) @ rs \<and> length rs \<le> 1
    \<and> refresh_tokens (world_db w') = refresh_tokens (world_db w)"
  using assms
proof (cases rule: provision_tx_Inr)
  case (returning v)
  then show ?thesis by (auto dest!: update_profile_core)
next
  case (linked v r d1)
  then have d1: "users d1 = users (world_db w)" "refresh_tokens d1 = refresh_tokens (world_db w)"
    "identities d1 = identities (world_db w) @ [r]" by (auto simp: create_identity_Inr)
  show ?thesis using linked(5) d1 by (elim disjE) (auto dest!: update_profile_core)
next
  case (created r d1)
  then show ?thesis by (auto simp: create_user_Inr create_identity_Inr)
qed

lemma provision_tx_wf:
  assumes "provision_tx g L e i w = (Inr u, w')" and "accounts_wf g (world_db w)"
  shows "accounts_wf g (world_db w')"
proof -
  note step = create_user_wf create_identity_wf update_user_profile_wf
  show ?thesis
    using assms(1)
  proof (cases rule: provision_tx_Inr)
    case (returning v)
    then show ?thesis using assms(2) step(3) by (metis snd_conv)
  next
    case (linked v r d1)
    then have "accounts_wf g d1" using assms(2) step(2) by (metis snd_conv)
    then show ?thesis using linked(5) step(3) by (metis snd_conv)
  next
    case (created r d1)
    then have "accounts_wf g d1" using assms(2) step(1) by (metis snd_conv)
    then show ?thesis using created(4) step(2) by (metis snd_conv)
  qed
qed

lemma provision_wf: "accounts_wf g d \<Longrightarrow> accounts_wf g (snd (snd (provision g L e i d)))"
  using provision_outcome [of g L e i d "fst (provision g L e i d)" "fst (snd (provision g L e i d))" "snd (snd (provision g L e i d))"]
  by (auto dest: provision_tx_wf)

lemma provision_grows:
  "\<exists>us rs. map user_core (users (snd (snd (provision g L e i d)))) = map user_core (users d) @ us \<and> length us \<le> 1
    \<and> identities (snd (snd (provision g L e i d))) = identities d @ rs \<and> length rs \<le> 1
    \<and> refresh_tokens (snd (snd (provision g L e i d))) = refresh_tokens d"
  using provision_outcome [of g L e i d "fst (provision g L e i d)" "fst (snd (provision g L e i d))" "snd (snd (provision g L e i d))"]
  by (auto dest!: provision_tx_grows)

end
