(* ===== verification/Exchange.thy ===== *)
theory Exchange
  imports Verifier "HOL-Library.Multiset"
begin

text \<open>
  internal/auth/exchange.go: redeeming an authorisation code at the provider's token endpoint
  and verifying the ID token it answers with. golang.org/x/oauth2 is the parameter \<open>xl\<close>: from
  the request's configuration, the code and the PKCE verifier to the members of the token
  response, or nothing where the provider refused.
\<close>

section \<open>The library and the configuration\<close>

record oauth_config =
  oauth_client_id :: string
  oauth_client_secret :: string
  oauth_token_url :: string
  oauth_redirect_url :: string
  oauth_scopes :: "string list"

type_synonym oauth_lib = "oauth_config \<Rightarrow> string \<Rightarrow> string \<Rightarrow> (string \<rightharpoonup> json) option"

record exchange_config =
  ec_provider :: provider_config
  ec_client_secret :: string

record exchange_entry =
  entry_oauth :: oauth_config
  entry_issuer :: string

record exchanger =
  ex_verifier :: verifier
  ex_configs :: "(string \<times> exchange_entry) list"

fun add_exchanges :: "oidc_lib \<Rightarrow> exchange_config list \<Rightarrow> (string \<times> exchange_entry) list \<Rightarrow>
    setup_error + (string \<times> exchange_entry) list" where
  "add_exchanges ol [] es = Inr es"
| "add_exchanges ol (cfg # cfgs) es =
    (case oidc_new_provider ol 1 (provider_issuer (ec_provider cfg)) of
       None \<Rightarrow> Inl (DiscoveryFailed (provider_name (ec_provider cfg)))
     | Some p \<Rightarrow> add_exchanges ol cfgs ((provider_name (ec_provider cfg),
         \<lparr>entry_oauth = \<lparr>oauth_client_id = provider_client_id (ec_provider cfg),
             oauth_client_secret = ec_client_secret cfg, oauth_token_url = disc_endpoint p,
             oauth_redirect_url = [], oauth_scopes = [''openid'', ''email'', ''profile'']\<rparr>,
          entry_issuer = provider_issuer (ec_provider cfg)\<rparr>) # es))"

definition new_exchanger :: "oidc_lib \<Rightarrow> exchange_config list \<Rightarrow> setup_error + exchanger" where
  "new_exchanger ol cfgs =
    (if cfgs = [] then Inr \<lparr>ex_verifier = \<lparr>providers = []\<rparr>, ex_configs = []\<rparr>
     else (case new_verifier ol (map ec_provider cfgs) of
        Inl err \<Rightarrow> Inl err
      | Inr v \<Rightarrow> map_sum id (\<lambda>es. \<lparr>ex_verifier = v, ex_configs = es\<rparr>) (add_exchanges ol cfgs [])))"

definition exchanger_providers :: "(string list \<Rightarrow> string list) \<Rightarrow> exchanger \<Rightarrow> string list" where
  "exchanger_providers order ex = verifier_providers order (ex_verifier ex)"

section \<open>The exchange\<close>

record code_exchange =
  req_provider :: string
  req_code :: string
  req_code_verifier :: string
  req_redirect_uri :: string
  req_nonce :: string

definition exchange :: "oidc_lib \<Rightarrow> oauth_lib \<Rightarrow> exchanger \<Rightarrow> nanos \<Rightarrow> code_exchange \<Rightarrow> auth_error + identity" where
  "exchange ol xl ex now req =
    (case map_of (ex_configs ex) (req_provider req) of
       None \<Rightarrow> Inl ErrUnknownProvider
     | Some cfg \<Rightarrow>
        (case xl ((entry_oauth cfg)\<lparr>oauth_redirect_url := req_redirect_uri req\<rparr>) (req_code req) (req_code_verifier req) of
           None \<Rightarrow> Inl ErrExchangeFailed
         | Some token \<Rightarrow>
            (case token ''id_token'' of
               Some (JString raw) \<Rightarrow>
                 if raw = [] then Inl ErrNoIDToken
                 else verify ol (ex_verifier ex) now (req_provider req) raw (req_nonce req)
             | _ \<Rightarrow> Inl ErrNoIDToken)))"

section \<open>Facts\<close>

text \<open>What the exchanger knows of a provider it was configured with.\<close>

definition exchange_entry_of :: "oidc_lib \<Rightarrow> exchange_config \<Rightarrow> string \<times> exchange_entry" where
  "exchange_entry_of ol cfg = (provider_name (ec_provider cfg),
     \<lparr>entry_oauth = \<lparr>oauth_client_id = provider_client_id (ec_provider cfg),
         oauth_client_secret = ec_client_secret cfg,
         oauth_token_url = disc_endpoint (the (oidc_new_provider ol 1 (provider_issuer (ec_provider cfg)))),
         oauth_redirect_url = [], oauth_scopes = [''openid'', ''email'', ''profile'']\<rparr>,
      entry_issuer = provider_issuer (ec_provider cfg)\<rparr>)"

lemma add_exchanges_Inr:
  "add_exchanges ol cfgs es = Inr fs \<longleftrightarrow>
    (\<forall>cfg \<in> set cfgs. oidc_new_provider ol 1 (provider_issuer (ec_provider cfg)) \<noteq> None)
    \<and> fs = rev (map (exchange_entry_of ol) cfgs) @ es"
  by (induction cfgs arbitrary: es) (auto simp: exchange_entry_of_def split: option.splits)

lemma new_exchanger_Inr:
  assumes "new_exchanger ol cfgs = Inr ex" and "cfgs \<noteq> []"
  shows "new_verifier ol (map ec_provider cfgs) = Inr (ex_verifier ex)"
    and "ex_configs ex = rev (map (exchange_entry_of ol) cfgs)"
  using assms by (auto simp: new_exchanger_def map_sum_Inr add_exchanges_Inr split: sum.splits)

lemma exchanger_lookup:
  assumes "new_exchanger ol cfgs = Inr ex"
  shows "map_of (ex_configs ex) name = Some e \<longleftrightarrow> (\<exists>cfg \<in> set cfgs. (name, e) = exchange_entry_of ol cfg)"
    and "map_of (ex_configs ex) name = None \<longleftrightarrow> name \<notin> (\<lambda>cfg. provider_name (ec_provider cfg)) ` set cfgs"
    and "map_of (providers (ex_verifier ex)) name = None \<longleftrightarrow> name \<notin> (\<lambda>cfg. provider_name (ec_provider cfg)) ` set cfgs"
proof -
  show "map_of (ex_configs ex) name = Some e \<longleftrightarrow> (\<exists>cfg \<in> set cfgs. (name, e) = exchange_entry_of ol cfg)"
  proof (cases "cfgs = []")
    case False
    note x = new_exchanger_Inr [OF assms False]
    have "distinct (map fst (rev (map (exchange_entry_of ol) cfgs)))"
      using x(1) by (simp add: new_verifier_Inr o_def exchange_entry_of_def flip: rev_map)
    from map_of_eq_Some_iff [OF this] show ?thesis by (auto simp: x(2))
  qed (use assms in \<open>auto simp: new_exchanger_def\<close>)
  show "map_of (ex_configs ex) name = None \<longleftrightarrow> name \<notin> (\<lambda>cfg. provider_name (ec_provider cfg)) ` set cfgs"
    using assms new_exchanger_Inr(2) [OF assms]
    by (cases "cfgs = []") (auto simp: new_exchanger_def map_of_eq_None_iff exchange_entry_of_def image_image)
  show "map_of (providers (ex_verifier ex)) name = None \<longleftrightarrow> name \<notin> (\<lambda>cfg. provider_name (ec_provider cfg)) ` set cfgs"
    using assms new_verifier_lookup(2) [OF new_exchanger_Inr(1) [OF assms]]
    by (cases "cfgs = []") (auto simp: new_exchanger_def image_image)
qed

lemma exchange_Inr:
  "exchange ol xl ex now req = Inr i \<longleftrightarrow>
    (\<exists>cfg token raw. map_of (ex_configs ex) (req_provider req) = Some cfg
      \<and> xl ((entry_oauth cfg)\<lparr>oauth_redirect_url := req_redirect_uri req\<rparr>) (req_code req) (req_code_verifier req) = Some token
      \<and> token ''id_token'' = Some (JString raw) \<and> raw \<noteq> []
      \<and> verify ol (ex_verifier ex) now (req_provider req) raw (req_nonce req) = Inr i)"
  by (auto simp: exchange_def split: option.splits json.splits if_splits)

section \<open>Properties\<close>

text \<open>
  What a claims document says under a name: its last member of that name that is not null. The
  struct the claims are read into ends up with exactly that.
\<close>

definition said :: "string \<Rightarrow> (string \<times> json) list \<Rightarrow> json option" where
  "said f ms = map_option snd (find (\<lambda>(k, v). fold_name k = f \<and> v \<noteq> JNull) (rev ms))"

definition said_text :: "string \<Rightarrow> (string \<times> json) list \<Rightarrow> string" where
  "said_text f ms = (case said f ms of Some (JString s) \<Rightarrow> s | _ \<Rightarrow> [])"

lemma said_Nil [simp]: "said f [] = None"
  by (simp add: said_def)

lemma said_Cons: "said f ((k, v) # ms) = (case said f ms of Some w \<Rightarrow> Some w | None \<Rightarrow> if fold_name k = f \<and> v \<noteq> JNull then Some v else None)"
proof -
  have "find P (xs @ ys) = (case find P xs of None \<Rightarrow> find P ys | Some x \<Rightarrow> Some x)" for P :: "string \<times> json \<Rightarrow> bool" and xs ys
    by (induction xs) auto
  then show ?thesis by (simp add: said_def split: option.split)
qed

lemma string_field_said: "string_field f ms acc = Some s \<Longrightarrow> said f ms = None \<and> s = acc \<or> said f ms = Some (JString s)"
  by (induction f ms acc rule: string_field.induct) (auto simp: said_Cons split: if_splits json.splits)

lemma bool_field_said: "bool_field f ms acc = Some b \<Longrightarrow> said f ms = None \<and> b = acc \<or> said f ms = Some (JBool b)"
  by (induction f ms acc rule: bool_field.induct) (auto simp: said_Cons split: if_splits json.splits)

lemma claims_said:
  assumes "read_id_claims payload = Some k"
  obtains v ms where "json_unmarshal payload = Some v" and "struct_members v = Some ms"
    and "claim_email k = said_text ''email'' ms" and "claim_email_verified k \<longleftrightarrow> said ''email_verified'' ms = Some (JBool True)"
    and "claim_name k = said_text ''name'' ms" and "claim_picture k = said_text ''picture'' ms"
proof -
  from assms obtain v ms where v: "json_unmarshal payload = Some v" "struct_members v = Some ms"
    and k: "string_field ''email'' ms [] = Some (claim_email k)" "bool_field ''email_verified'' ms False = Some (claim_email_verified k)"
      "string_field ''name'' ms [] = Some (claim_name k)" "string_field ''picture'' ms [] = Some (claim_picture k)"
    by (auto simp: read_id_claims_def split: option.splits prod.splits)
  have says: "s = said_text f ms" if "string_field f ms [] = Some s" for f s
    using string_field_said [OF that] by (auto simp: said_text_def)
  have "claim_email_verified k \<longleftrightarrow> said ''email_verified'' ms = Some (JBool True)"
    using bool_field_said [OF k(2)] by auto
  with v says [OF k(1)] says [OF k(3)] says [OF k(4)] show thesis by (intro that)
qed

text \<open>
  C17. A verified identity is what the configured provider asserted, to this client, for this
  sign-in. When Verify accepts a token, the provider is one of those configured; the token is
  one the library verified under that provider's issuer and client id, unexpired; it carries
  the nonce the caller expects, which is not empty; the identity's key is the provider's
  name with the token's own subject; and the address, whether it is verified, the name and the
  picture are what the token's claims say, the address and the name trimmed: an address
  counts as verified exactly when the claims say email_verified is true.
\<close>

theorem verified_identity_is_asserted:
  assumes "oidc_documented ol" and "new_verifier ol cfgs = Inr v"
    and "verify ol v now provider raw nonce = Inr i"
  shows "\<exists>cfg \<in> set cfgs. \<exists>p t claims ms. provider_name cfg = provider
    \<and> oidc_verify ol p (provider_client_id cfg) now raw = Some t
    \<and> issuer_matches (provider_issuer cfg) (idt_issuer t) \<and> provider_client_id cfg \<in> set (idt_audience t)
    \<and> now \<le> idt_expiry t \<and> idt_nonce t = nonce \<and> nonce \<noteq> []
    \<and> id_provider i = provider \<and> id_subject i = idt_subject t \<and> id_subject i \<noteq> []
    \<and> json_unmarshal (idt_payload t) = Some claims \<and> struct_members claims = Some ms
    \<and> id_email i = trim_space (said_text ''email'' ms)
    \<and> (id_email_verified i \<longleftrightarrow> said ''email_verified'' ms = Some (JBool True))
    \<and> id_name i = trim_space (said_text ''name'' ms) \<and> id_picture i = said_text ''picture'' ms"
proof -
  obtain p c t k where m: "map_of (providers v) provider = Some (p, c)" and t: "oidc_verify ol p c now raw = Some t"
    and n: "nonce \<noteq> []" "idt_nonce t = nonce" "idt_subject t \<noteq> []" and k: "read_id_claims (idt_payload t) = Some k"
    and i: "i = \<lparr>id_provider = provider, id_subject = idt_subject t, id_email = trim_space (claim_email k),
      id_email_verified = claim_email_verified k, id_name = trim_space (claim_name k), id_picture = claim_picture k\<rparr>"
    using assms(3) by (auto simp: verify_Inr)
  obtain cfg where cfg: "cfg \<in> set cfgs" "provider_name cfg = provider" "c = provider_client_id cfg"
    "oidc_new_provider ol 0 (provider_issuer cfg) = Some p"
    using m by (auto simp: new_verifier_lookup(1) [OF assms(2)])
  then have "disc_issuer p = provider_issuer cfg" using assms(1) by (simp add: oidc_documented_def)
  moreover have "issuer_matches (disc_issuer p) (idt_issuer t) \<and> c \<in> set (idt_audience t) \<and> now \<le> idt_expiry t"
    using assms(1) t by (simp add: oidc_documented_def)
  ultimately have checks: "issuer_matches (provider_issuer cfg) (idt_issuer t)" "provider_client_id cfg \<in> set (idt_audience t)" "now \<le> idt_expiry t"
    using cfg by simp_all
  obtain claims ms where said: "json_unmarshal (idt_payload t) = Some claims" "struct_members claims = Some ms"
    "claim_email k = said_text ''email'' ms" "claim_email_verified k \<longleftrightarrow> said ''email_verified'' ms = Some (JBool True)"
    "claim_name k = said_text ''name'' ms" "claim_picture k = said_text ''picture'' ms"
    by (rule claims_said [OF k])
  show ?thesis
    by (rule bexI [OF _ cfg(1)], rule exI [of _ p], rule exI [of _ t], rule exI [of _ claims], rule exI [of _ ms])
      (use cfg t n said checks in \<open>simp add: i\<close>)
qed

definition sample_provider :: provider_config where
  "sample_provider = \<lparr>provider_name = ''p'', provider_issuer = ''i'', provider_client_id = ''c''\<rparr>"

definition sample_id_token :: string where
  "sample_id_token = ''{ '' @ [CHR 0x22] @ ''iss'' @ [CHR 0x22] @ '':'' @ [CHR 0x22] @ ''i'' @ [CHR 0x22] @ '','' @ [CHR 0x22]
     @ ''aud'' @ [CHR 0x22] @ '':'' @ [CHR 0x22] @ ''c'' @ [CHR 0x22] @ '','' @ [CHR 0x22] @ ''sub'' @ [CHR 0x22] @ '':'' @ [CHR 0x22]
     @ ''s'' @ [CHR 0x22] @ '','' @ [CHR 0x22] @ ''nonce'' @ [CHR 0x22] @ '':'' @ [CHR 0x22] @ ''n'' @ [CHR 0x22] @ ''}''"

lemma sample_verifier: "new_verifier reference_oidc [sample_provider]
    = Inr \<lparr>providers = [(''p'', \<lparr>disc_issuer = ''i'', disc_endpoint = ''i/token''\<rparr>, ''c'')]\<rparr>"
  by (simp add: new_verifier_def sample_provider_def reference_oidc_def)

lemma sample_verified: "verify reference_oidc
    \<lparr>providers = [(''p'', \<lparr>disc_issuer = ''i'', disc_endpoint = ''i/token''\<rparr>, ''c'')]\<rparr> now ''p'' sample_id_token ''n''
    = Inr \<lparr>id_provider = ''p'', id_subject = ''s'', id_email = [], id_email_verified = False, id_name = [], id_picture = []\<rparr>"
proof -
  have "json_unmarshal sample_id_token = Some (JObject
      [(''iss'', JString ''i''), (''aud'', JString ''c''), (''sub'', JString ''s''), (''nonce'', JString ''n'')])"
    by code_simp
  moreover have "read_id_claims sample_id_token = Some \<lparr>claim_email = [], claim_email_verified = False, claim_name = [], claim_picture = []\<rparr>"
    by code_simp
  moreover have "string_field ''iss'' [(''iss'', JString ''i''), (''aud'', JString ''c''), (''sub'', JString ''s''), (''nonce'', JString ''n'')] [] = Some ''i''"
    "string_field ''aud'' [(''iss'', JString ''i''), (''aud'', JString ''c''), (''sub'', JString ''s''), (''nonce'', JString ''n'')] [] = Some ''c''"
    "string_field ''sub'' [(''iss'', JString ''i''), (''aud'', JString ''c''), (''sub'', JString ''s''), (''nonce'', JString ''n'')] [] = Some ''s''"
    "string_field ''nonce'' [(''iss'', JString ''i''), (''aud'', JString ''c''), (''sub'', JString ''s''), (''nonce'', JString ''n'')] [] = Some ''n''"
    by code_simp+
  ultimately show ?thesis by (simp add: verify_def reference_oidc_def del: string_field.simps)
qed

theorem verified_identity_is_asserted_witness:
  "\<exists>cfg \<in> set [sample_provider]. \<exists>p t claims ms. provider_name cfg = ''p''
    \<and> oidc_verify reference_oidc p (provider_client_id cfg) 7 sample_id_token = Some t
    \<and> issuer_matches (provider_issuer cfg) (idt_issuer t) \<and> provider_client_id cfg \<in> set (idt_audience t)
    \<and> 7 \<le> idt_expiry t \<and> idt_nonce t = ''n'' \<and> ''s'' = idt_subject t
    \<and> json_unmarshal (idt_payload t) = Some claims \<and> struct_members claims = Some ms
    \<and> [] = trim_space (said_text ''email'' ms) \<and> said ''email_verified'' ms \<noteq> Some (JBool True)
    \<and> [] = trim_space (said_text ''name'' ms) \<and> [] = said_text ''picture'' ms"
  using verified_identity_is_asserted [OF reference_oidc_documented sample_verifier sample_verified [of 7]] by simp

text \<open>
  Redeeming a code. Exchange grants an identity only of a configured provider, from the
  ID token that provider's token endpoint gave for this very code, PKCE verifier and redirect
  URI under the provider's own client id and secret; the token is then verified with the
  nonce of the request.
\<close>

theorem exchanged_identity_is_redeemed:
  assumes "new_exchanger ol cfgs = Inr ex" and "exchange ol xl ex now req = Inr i"
  shows "\<exists>cfg \<in> set cfgs. \<exists>p token raw. provider_name (ec_provider cfg) = req_provider req
    \<and> oidc_new_provider ol 1 (provider_issuer (ec_provider cfg)) = Some p
    \<and> xl \<lparr>oauth_client_id = provider_client_id (ec_provider cfg), oauth_client_secret = ec_client_secret cfg,
          oauth_token_url = disc_endpoint p, oauth_redirect_url = req_redirect_uri req,
          oauth_scopes = [''openid'', ''email'', ''profile'']\<rparr> (req_code req) (req_code_verifier req) = Some token
    \<and> token ''id_token'' = Some (JString raw)
    \<and> verify ol (ex_verifier ex) now (req_provider req) raw (req_nonce req) = Inr i"
proof -
  obtain e token raw where e: "map_of (ex_configs ex) (req_provider req) = Some e"
    and x: "xl ((entry_oauth e)\<lparr>oauth_redirect_url := req_redirect_uri req\<rparr>) (req_code req) (req_code_verifier req) = Some token"
    "token ''id_token'' = Some (JString raw)" "verify ol (ex_verifier ex) now (req_provider req) raw (req_nonce req) = Inr i"
    using assms(2) by (auto simp: exchange_Inr)
  obtain cfg where cfg: "cfg \<in> set cfgs" "(req_provider req, e) = exchange_entry_of ol cfg"
    using e by (auto simp: exchanger_lookup(1) [OF assms(1)])
  then have "cfgs \<noteq> []" by auto
  then have "\<forall>c \<in> set cfgs. oidc_new_provider ol 1 (provider_issuer (ec_provider c)) \<noteq> None"
    using assms(1) by (auto simp: new_exchanger_def map_sum_Inr add_exchanges_Inr split: sum.splits)
  then obtain p where "oidc_new_provider ol 1 (provider_issuer (ec_provider cfg)) = Some p" using cfg by auto
  then show ?thesis using cfg x by (intro bexI [of _ cfg]) (auto simp: exchange_entry_of_def)
qed

definition sample_exchange_config :: exchange_config where
  "sample_exchange_config = \<lparr>ec_provider = sample_provider, ec_client_secret = ''x''\<rparr>"

definition sample_request :: code_exchange where
  "sample_request = \<lparr>req_provider = ''p'', req_code = ''k'', req_code_verifier = ''v'', req_redirect_uri = ''u'', req_nonce = ''n''\<rparr>"

text \<open>A provider that redeems one code, against the right secret, redirect URI and verifier.\<close>

definition sample_oauth :: oauth_lib where
  "sample_oauth cfg code verifier =
    (if oauth_client_secret cfg = ''x'' \<and> oauth_redirect_url cfg = ''u'' \<and> code = ''k'' \<and> verifier = ''v''
     then Some [''id_token'' \<mapsto> JString sample_id_token] else None)"

lemma sample_exchanger:
  obtains ex where "new_exchanger reference_oidc [sample_exchange_config] = Inr ex"
    and "\<forall>now. exchange reference_oidc sample_oauth ex now sample_request = Inr
      \<lparr>id_provider = ''p'', id_subject = ''s'', id_email = [], id_email_verified = False, id_name = [], id_picture = []\<rparr>"
proof -
  let ?v = "\<lparr>providers = [(''p'', \<lparr>disc_issuer = ''i'', disc_endpoint = ''i/token''\<rparr>, ''c'')]\<rparr>"
  let ?ex = "\<lparr>ex_verifier = ?v, ex_configs = [exchange_entry_of reference_oidc sample_exchange_config]\<rparr>"
  have "new_exchanger reference_oidc [sample_exchange_config] = Inr ?ex"
    using sample_verifier
    by (simp add: new_exchanger_def sample_exchange_config_def exchange_entry_of_def, simp add: reference_oidc_def)
  moreover have "sample_id_token \<noteq> []" by (simp add: sample_id_token_def)
  then have "exchange reference_oidc sample_oauth ?ex now sample_request = Inr
      \<lparr>id_provider = ''p'', id_subject = ''s'', id_email = [], id_email_verified = False, id_name = [], id_picture = []\<rparr>" for now
    using sample_verified
    by (simp add: exchange_def sample_oauth_def sample_request_def exchange_entry_of_def sample_exchange_config_def sample_provider_def)
  ultimately show thesis by (intro that allI)
qed

text \<open>
  Set-up. NewExchanger accepts a list of providers exactly when every entry has a name,
  an issuer and a client id, names do not repeat, and discovery of each issuer works both
  times it is tried; the empty list is accepted.
\<close>

theorem exchanger_starts_iff:
  "(\<exists>ex. new_exchanger ol cfgs = Inr ex) \<longleftrightarrow>
      list_all (usable_config ol) (map ec_provider cfgs) \<and> distinct (map (\<lambda>cfg. provider_name (ec_provider cfg)) cfgs)
      \<and> list_all (\<lambda>cfg. oidc_new_provider ol 1 (provider_issuer (ec_provider cfg)) \<noteq> None) cfgs"
proof (cases "cfgs = []")
  case False
  have "(\<exists>ex. new_exchanger ol cfgs = Inr ex) \<longleftrightarrow> (\<exists>v. new_verifier ol (map ec_provider cfgs) = Inr v)
      \<and> (\<exists>es. add_exchanges ol cfgs [] = Inr es)"
    using False by (auto simp: new_exchanger_def map_sum_Inr split: sum.splits)
  moreover have "(\<exists>v. new_verifier ol (map ec_provider cfgs) = Inr v) \<longleftrightarrow>
      list_all (usable_config ol) (map ec_provider cfgs) \<and> distinct (map (\<lambda>cfg. provider_name (ec_provider cfg)) cfgs)"
    using False by (auto simp: new_verifier_Inr o_def intro!: exI [of _ "\<lparr>providers = rev (map (verifier_entry ol) (map ec_provider cfgs))\<rparr>"])
  ultimately show ?thesis by (auto simp: add_exchanges_Inr list_all_iff)
qed (auto simp: new_exchanger_def)

text \<open>
  Unknown providers. A server set up with some providers lists exactly their names, and
  answers ErrUnknownProvider exactly to the requests that name another, whatever else they
  carry and whatever the network does.
\<close>

theorem unknown_provider_iff:
  assumes "new_exchanger ol cfgs = Inr ex"
  shows "mset (exchanger_providers (\<lambda>names. names) ex) = mset (map (\<lambda>cfg. provider_name (ec_provider cfg)) cfgs)
    \<and> (exchange ol xl ex now req = Inl ErrUnknownProvider \<longleftrightarrow> req_provider req \<notin> (\<lambda>cfg. provider_name (ec_provider cfg)) ` set cfgs)"
proof
  show "mset (exchanger_providers (\<lambda>names. names) ex) = mset (map (\<lambda>cfg. provider_name (ec_provider cfg)) cfgs)"
  proof (cases "cfgs = []")
    case False
    then show ?thesis
      using new_exchanger_Inr(1) [OF assms False]
      by (simp add: exchanger_providers_def verifier_providers_def new_verifier_Inr o_def verifier_entry_def flip: rev_map)
  qed (use assms in \<open>auto simp: new_exchanger_def exchanger_providers_def verifier_providers_def\<close>)
  have "verify ol (ex_verifier ex) now (req_provider req) raw n \<noteq> Inl ErrUnknownProvider"
    if "map_of (ex_configs ex) (req_provider req) \<noteq> None" for raw n
  proof -
    have "map_of (providers (ex_verifier ex)) (req_provider req) \<noteq> None"
      using that exchanger_lookup(2,3) [OF assms] by simp
    then show ?thesis by (auto simp: verify_def split: option.splits)
  qed
  then have "exchange ol xl ex now req = Inl ErrUnknownProvider \<longleftrightarrow> map_of (ex_configs ex) (req_provider req) = None"
    by (auto simp: exchange_def split: option.splits json.splits)
  then show "exchange ol xl ex now req = Inl ErrUnknownProvider \<longleftrightarrow> req_provider req \<notin> (\<lambda>cfg. provider_name (ec_provider cfg)) ` set cfgs"
    using exchanger_lookup(2) [OF assms] by simp
qed

end
