(* ===== verification/Http.thy ===== *)
theory Http
  imports Accounts Exchange "HOL-Library.AList"
begin

text \<open>
  internal/transport/http: the handlers. A handler turns a request, what the request draws
  from its environment and the committed database into a response, the lines it logged and
  the database it leaves. The body of a response is the value handed to the JSON encoder,
  which writes nothing where the encoder refuses it.
\<close>

section \<open>Requests and responses\<close>

text \<open>
  The request after net/http has parsed it: the cookies in the order sent, the Authorization
  header (empty where absent) and the bytes of the body.
\<close>

record request =
  request_cookies :: "(string \<times> string) list"
  authorization :: string
  request_body :: string

datatype same_site = SameSiteLax | SameSiteStrict | SameSiteNone

record cookie =
  cookie_name :: string
  cookie_value :: string
  cookie_path :: string
  cookie_expires :: nanos
  cookie_max_age :: int
  cookie_http_only :: bool
  cookie_secure :: bool
  cookie_same_site :: same_site

record problem =
  problem_detail :: "string option"
  problem_instance :: "string option"
  problem_status :: int
  problem_title :: string
  problem_type :: "string option"

record api_user =
  api_avatar_url :: "string option"
  api_created_at :: micros
  api_display_name :: string
  api_email :: string
  api_id :: uuid

record api_session =
  api_access_token :: string
  api_expires_in :: int
  api_session_user :: api_user

datatype body = ProblemBody problem | SessionBody api_session | UserBody api_user | HealthBody string | TextBody string

record response =
  resp_status :: "int option"
  resp_headers :: "(string \<times> string) list"
  resp_cookies :: "cookie list"
  resp_body :: "body option"

definition no_response :: response where
  "no_response = \<lparr>resp_status = None, resp_headers = [], resp_cookies = [], resp_body = None\<rparr>"

text \<open>Headers count until the first WriteHeader; Set replaces, SetCookie adds.\<close>

definition set_header :: "string \<Rightarrow> string \<Rightarrow> response \<Rightarrow> response" where
  "set_header k v r = (if resp_status r = None then r\<lparr>resp_headers := AList.update k v (resp_headers r)\<rparr> else r)"

definition set_cookie :: "cookie \<Rightarrow> response \<Rightarrow> response" where
  "set_cookie c r = (if resp_status r = None then r\<lparr>resp_cookies := resp_cookies r @ [c]\<rparr> else r)"

definition write_header :: "int \<Rightarrow> response \<Rightarrow> response" where
  "write_header s r = (if resp_status r = None then r\<lparr>resp_status := Some s\<rparr> else r)"

section \<open>The server and what it stands on\<close>

record platform =
  pf_libs :: libs
  pf_pg :: pg
  pf_oidc :: oidc_lib
  pf_oauth :: oauth_lib
  pf_email_marshals :: "string \<Rightarrow> bool"

text \<open>
  \<open>pf_email_marshals\<close> is github.com/oapi-codegen/runtime's Email type, which refuses to
  marshal what it does not take for an address.
\<close>

record server =
  srv_exchanger :: exchanger
  srv_tokens :: token_issuer
  srv_secure_cookies :: bool

fun body_encodes :: "platform \<Rightarrow> body \<Rightarrow> bool" where
  "body_encodes p (ProblemBody b) = True"
| "body_encodes p (SessionBody b) = pf_email_marshals p (api_email (api_session_user b))"
| "body_encodes p (UserBody b) = pf_email_marshals p (api_email b)"
| "body_encodes p (HealthBody s) = True"
| "body_encodes p (TextBody s) = True"

definition error_line :: "string \<Rightarrow> log_entry" where
  "error_line msg = \<lparr>log_level = LevelError, log_message = msg, log_attrs = [(''error'', AError)]\<rparr>"

text \<open>json.NewEncoder(w).Encode(body), with the line logged where it fails.\<close>

definition encode_body :: "platform \<Rightarrow> string \<Rightarrow> body \<Rightarrow> response \<Rightarrow> response \<times> log_entry list" where
  "encode_body p msg b r =
    (if body_encodes p b then (r\<lparr>resp_body := Some b\<rparr>, []) else (r, [error_line msg]))"

section \<open>Problems (problem.go)\<close>

definition status_text :: "int \<Rightarrow> string" where
  "status_text s = (case map_of [(200, ''OK''), (204, ''No Content''), (400, ''Bad Request''), (401, ''Unauthorized''),
     (404, ''Not Found''), (405, ''Method Not Allowed''), (500, ''Internal Server Error''), (501, ''Not Implemented'')] s of
     Some t \<Rightarrow> t | None \<Rightarrow> [])"

definition problem_content_type :: string where
  "problem_content_type = ''application/problem+json''"

definition write_problem :: "platform \<Rightarrow> int \<Rightarrow> string \<Rightarrow> response \<Rightarrow> response \<times> log_entry list" where
  "write_problem p status detail r =
    encode_body p ''writing problem response''
      (ProblemBody \<lparr>problem_detail = (if detail \<noteq> [] then Some detail else None), problem_instance = None,
         problem_status = status, problem_title = status_text status, problem_type = None\<rparr>)
      (write_header status (set_header ''Content-Type'' problem_content_type r))"

section \<open>Cookies (cookies.go)\<close>

definition refresh_cookie_name :: string where
  "refresh_cookie_name = ''refresh_token''"

definition refresh_cookie_path :: string where
  "refresh_cookie_path = ''/api/v1/auth''"

definition set_refresh_cookie :: "server \<Rightarrow> env \<Rightarrow> new_refresh \<Rightarrow> response \<Rightarrow> response" where
  "set_refresh_cookie s e token = set_cookie \<lparr>
     cookie_name = refresh_cookie_name, cookie_value = refresh_secret token, cookie_path = refresh_cookie_path,
     cookie_expires = refresh_expires_at token,
     cookie_max_age = trunc_seconds (refresh_expires_at token - go_now e CookieClock),
     cookie_http_only = True, cookie_secure = srv_secure_cookies s, cookie_same_site = SameSiteLax\<rparr>"

definition clear_refresh_cookie :: "server \<Rightarrow> response \<Rightarrow> response" where
  "clear_refresh_cookie s = set_cookie \<lparr>
     cookie_name = refresh_cookie_name, cookie_value = [], cookie_path = refresh_cookie_path,
     cookie_expires = 0, cookie_max_age = -1,
     cookie_http_only = True, cookie_secure = srv_secure_cookies s, cookie_same_site = SameSiteLax\<rparr>"

definition refresh_cookie :: "request \<Rightarrow> string" where
  "refresh_cookie r = (case map_of (request_cookies r) refresh_cookie_name of None \<Rightarrow> [] | Some v \<Rightarrow> v)"

section \<open>Sessions (auth.go)\<close>

definition max_auth_body :: nat where
  "max_auth_body = 8 * 2 ^ 10"

definition api_user_of :: "user_row \<Rightarrow> api_user" where
  "api_user_of u = \<lparr>api_avatar_url = avatar_url u, api_created_at = user_created_at u,
     api_display_name = display_name u, api_email = email u, api_id = user_id u\<rparr>"

text \<open>What a handler leaves.\<close>

record outcome_state =
  out_response :: response
  out_log :: "log_entry list"
  out_db :: db

definition respond :: "log_entry list \<Rightarrow> db \<Rightarrow> response \<times> log_entry list \<Rightarrow> outcome_state" where
  "respond logs d rl = \<lparr>out_response = fst rl, out_log = logs @ snd rl, out_db = d\<rparr>"

definition write_session :: "platform \<Rightarrow> server \<Rightarrow> env \<Rightarrow> session \<Rightarrow> user_row option \<Rightarrow> log_entry list \<Rightarrow> db \<Rightarrow> outcome_state" where
  "write_session p s e ses user logs d =
    (let r = set_refresh_cookie s e (session_refresh ses) no_response;
         finish = (\<lambda>u d'. respond logs d' (encode_body p ''writing session response''
           (SessionBody \<lparr>api_access_token = access_jwt (session_access ses),
              api_expires_in = round_seconds (access_expires_at (session_access ses) - go_now e BodyClock),
              api_session_user = api_user_of u\<rparr>)
           (write_header 200 (set_header ''Content-Type'' ''application/json'' r))))
     in case user of
          Some u \<Rightarrow> finish u d
        | None \<Rightarrow>
           (case by_id e (session_user ses) d of
              (Inl err, d') \<Rightarrow> respond (logs @ [error_line ''loading the user for a session'']) d'
                 (write_problem p 500 ''could not complete sign-in'' r)
            | (Inr u, d') \<Rightarrow> finish u d'))"

record callback_body =
  body_code :: string
  body_code_verifier :: string
  body_nonce :: string
  body_redirect_uri :: string

text \<open>Decoding at most \<open>max_auth_body\<close> bytes into the generated struct.\<close>

definition callback_of :: "json \<Rightarrow> callback_body option" where
  "callback_of v =
    (case struct_members v of
       None \<Rightarrow> None
     | Some ms \<Rightarrow>
        (case (string_field ''code'' ms [], string_field ''code_verifier'' ms [],
               string_field ''nonce'' ms [], string_field ''redirect_uri'' ms []) of
           (Some c, Some cv, Some n, Some u) \<Rightarrow>
             Some \<lparr>body_code = c, body_code_verifier = cv, body_nonce = n, body_redirect_uri = u\<rparr>
         | _ \<Rightarrow> None))"

definition read_callback_body :: "string \<Rightarrow> callback_body option" where
  "read_callback_body bytes =
    (case json_decode_limited max_auth_body bytes of None \<Rightarrow> None | Some v \<Rightarrow> callback_of v)"

definition sign_in_failed :: "platform \<Rightarrow> log_entry list \<Rightarrow> string \<Rightarrow> db \<Rightarrow> outcome_state" where
  "sign_in_failed p logs msg d = respond (logs @ [error_line msg]) d
     (write_problem p 500 ''could not complete sign-in'' no_response)"

text \<open>A sign-in whose identity is known: the account, the end of the browser's previous session, the new one.\<close>

definition complete_sign_in :: "platform \<Rightarrow> server \<Rightarrow> env \<Rightarrow> string \<Rightarrow> request \<Rightarrow> identity \<Rightarrow> db \<Rightarrow> outcome_state" where
  "complete_sign_in p s e provider r i d =
    (case provision (pf_pg p) (pf_libs p) e i d of
       (Inl err, logs, d1) \<Rightarrow> sign_in_failed p logs ''provisioning an account'' d1
     | (Inr user, logs, d1) \<Rightarrow>
        (let previous = refresh_cookie r in
         case (if previous \<noteq> [] then revoke_by_token e previous d1 else (Inr (), d1)) of
           (Inl err, d2) \<Rightarrow> sign_in_failed p logs ''ending the previous session on sign-in'' d2
         | (Inr _, d2) \<Rightarrow>
            (case issue (pf_libs p) (srv_tokens s) e (user_id user) d2 of
               (Inl err, d3) \<Rightarrow> sign_in_failed p logs ''issuing a session'' d3
             | (Inr ses, d3) \<Rightarrow>
                 write_session p s e ses (Some user)
                   (logs @ [info ''signed in'' [(''provider'', AString provider),
                      (''user_id'', AString (uuid_string (pf_libs p) (session_user ses)))]]) d3)))"

definition auth_callback :: "platform \<Rightarrow> server \<Rightarrow> env \<Rightarrow> string \<Rightarrow> request \<Rightarrow> db \<Rightarrow> outcome_state" where
  "auth_callback p s e provider r d =
    (case read_callback_body (request_body r) of
       None \<Rightarrow> respond [] d (write_problem p 400 ''the request body is not valid JSON'' no_response)
     | Some b \<Rightarrow>
        (if body_code b = [] \<or> body_code_verifier b = [] \<or> body_redirect_uri b = [] \<or> body_nonce b = [] then
           respond [] d (write_problem p 400 ''code, code_verifier, redirect_uri and nonce are all required'' no_response)
         else (case exchange (pf_oidc p) (pf_oauth p) (srv_exchanger s) (go_now e VerifyClock)
                 \<lparr>req_provider = provider, req_code = body_code b, req_code_verifier = body_code_verifier b,
                  req_redirect_uri = body_redirect_uri b, req_nonce = body_nonce b\<rparr> of
            Inl err \<Rightarrow>
              respond [warn ''sign-in failed'' [(''provider'', AString provider), (''error'', AError)]] d
                (if err = ErrUnknownProvider then write_problem p 400 ''unknown provider'' no_response
                 else write_problem p 401 ''sign-in failed'' no_response)
          | Inr i \<Rightarrow> complete_sign_in p s e provider r i d)))"

definition auth_refresh :: "platform \<Rightarrow> server \<Rightarrow> env \<Rightarrow> request \<Rightarrow> db \<Rightarrow> outcome_state" where
  "auth_refresh p s e r d =
    (let presented = refresh_cookie r in
     if presented = [] then respond [] d (write_problem p 401 ''not signed in'' no_response)
     else (case rotate (pf_libs p) (srv_tokens s) e presented d of
        (Inl ErrRefreshTokenRaced, d1) \<Rightarrow>
          respond [info ''refresh lost a concurrent rotation; the session is untouched'' []] d1
            (write_problem p 401 ''not signed in'' no_response)
      | (Inl err, d1) \<Rightarrow>
          respond (if err = ErrRefreshTokenReused
                then [warn ''refresh token reused; the session family was revoked'' []] else []) d1
            (write_problem p 401 ''not signed in'' (clear_refresh_cookie s no_response))
      | (Inr ses, d1) \<Rightarrow> write_session p s e ses None [] d1))"

definition auth_logout :: "platform \<Rightarrow> server \<Rightarrow> env \<Rightarrow> request \<Rightarrow> db \<Rightarrow> outcome_state" where
  "auth_logout p s e r d =
    (let presented = refresh_cookie r;
         (res, d1) = (if presented \<noteq> [] then revoke_by_token e presented d else (Inr (), d))
     in respond (case res of Inl err \<Rightarrow> [warn ''revoking on logout'' [(''error'', AError)]] | Inr _ \<Rightarrow> []) d1
          (write_header 204 (clear_refresh_cookie s no_response), []))"

section \<open>The signed-in user (me.go)\<close>

definition bearer_prefix :: string where
  "bearer_prefix = ''Bearer ''"

definition authenticate :: "platform \<Rightarrow> server \<Rightarrow> env \<Rightarrow> request \<Rightarrow> token_error + uuid" where
  "authenticate p s e r =
    (if \<not> has_prefix (authorization r) bearer_prefix then Inl ErrInvalidAccessToken
     else (case parse_access_token (jwt (pf_libs p)) (srv_tokens s) (go_now e ParseClock)
                  (trim_prefix (authorization r) bearer_prefix) of
        Inl err \<Rightarrow> Inl err
      | Inr subject \<Rightarrow>
         (case uuid_parse (pf_libs p) subject of None \<Rightarrow> Inl ErrInvalidAccessToken | Some u \<Rightarrow> Inr u)))"

definition expired_challenge :: string where
  "expired_challenge = ''Bearer error='' @ [CHR 0x22] @ ''invalid_token'' @ [CHR 0x22] @ '', error_description=''
     @ [CHR 0x22] @ ''expired'' @ [CHR 0x22]"

definition get_me :: "platform \<Rightarrow> server \<Rightarrow> env \<Rightarrow> request \<Rightarrow> db \<Rightarrow> outcome_state" where
  "get_me p s e r d =
    (case authenticate p s e r of
       Inl err \<Rightarrow>
         respond [] d (write_problem p 401 ''not signed in''
           (set_header ''WWW-Authenticate'' (if err = ErrExpiredAccessToken then expired_challenge else ''Bearer'') no_response))
     | Inr u \<Rightarrow>
        (case by_id e u d of
           (Inl err, d1) \<Rightarrow>
             respond [warn ''no user for a valid access token'' [(''user_id'', AString (uuid_string (pf_libs p) u)), (''error'', AError)]] d1
               (write_problem p 401 ''not signed in'' no_response)
         | (Inr user, d1) \<Rightarrow>
             respond [] d1 (encode_body p ''writing /me response'' (UserBody (api_user_of user))
               (write_header 200 (set_header ''Content-Type'' ''application/json'' no_response)))))"

section \<open>Health (health.go)\<close>

definition health_status_ok :: string where
  "health_status_ok = ''ok''"

definition health_status_valid :: "string \<Rightarrow> bool" where
  "health_status_valid s \<longleftrightarrow> s = health_status_ok"

definition get_health :: "platform \<Rightarrow> db \<Rightarrow> outcome_state" where
  "get_health p d = respond [] d (encode_body p ''writing healthz response'' (HealthBody health_status_ok)
     (write_header 200 (set_header ''Content-Type'' ''application/json'' no_response)))"

end
