(* ===== verification/Router.thy ===== *)
theory Router
  imports Http
begin

text \<open>
  The routes (internal/transport/http/router.go and openapi/openapi.gen.go). The chi mux and
  the binding of path parameters by oapi-codegen's runtime are the parameter \<open>x\<close>;
  \<open>chi_documented\<close> is what the mux promises of the routes below, and \<open>reference_chi\<close> an
  instance. The middlewares chi wraps around a handler (request ids, recovery from panics)
  leave its answer alone.
\<close>

section \<open>The mux\<close>

text \<open>A route is a method and a pattern; \<open>chi_find\<close> answers the index of the matching route and its parameters.\<close>

record chi_lib =
  chi_find :: "(string \<times> string) list \<Rightarrow> string \<Rightarrow> string \<Rightarrow> (nat \<times> (string \<times> string) list) option"
  chi_missing :: "(string \<times> string) list \<Rightarrow> string \<Rightarrow> string \<Rightarrow> response"
  bind_path_param :: "string \<Rightarrow> bool \<Rightarrow> string + string"

definition segments :: "string \<Rightarrow> string list" where
  "segments s = foldr (\<lambda>c acc. if c = CHR ''/'' then [] # acc else (c # hd acc) # tl acc) s [[]]"

definition param_name :: "string \<Rightarrow> string option" where
  "param_name seg = (if seg \<noteq> [] \<and> hd seg = CHR ''{'' \<and> last seg = CHR ''}'' then Some (butlast (tl seg)) else None)"

fun match_segments :: "string list \<Rightarrow> string list \<Rightarrow> (string \<times> string) list option" where
  "match_segments [] [] = Some []"
| "match_segments (p # ps) (s # ss) =
    (case param_name p of
       Some n \<Rightarrow> if s = [] then None else map_option (Cons (n, s)) (match_segments ps ss)
     | None \<Rightarrow> if p = s then match_segments ps ss else None)"
| "match_segments _ _ = None"

definition route_matches :: "string \<Rightarrow> string \<Rightarrow> string \<times> string \<Rightarrow> (string \<times> string) list option" where
  "route_matches meth path rt = (if fst rt = meth then match_segments (segments (snd rt)) (segments path) else None)"

section \<open>The generated table\<close>

datatype operation = OpGetHealth | OpAuthCallback | OpAuthRefresh | OpAuthLogout | OpGetMe

definition api_routes :: "string \<Rightarrow> ((string \<times> string) \<times> operation) list" where
  "api_routes base_url =
    [((''GET'', base_url @ ''/healthz''), OpGetHealth),
     ((''POST'', base_url @ ''/api/v1/auth/oidc/{provider}/callback''), OpAuthCallback),
     ((''POST'', base_url @ ''/api/v1/auth/refresh''), OpAuthRefresh),
     ((''POST'', base_url @ ''/api/v1/auth/logout''), OpAuthLogout),
     ((''GET'', base_url @ ''/api/v1/me''), OpGetMe)]"

text \<open>
  Of the routes registered here, a path that one alone matches goes to that route, with the
  segments it names.
\<close>

definition chi_documented :: "chi_lib \<Rightarrow> bool" where
  "chi_documented x \<longleftrightarrow> (let routes = map fst (api_routes []) in
    (\<forall>meth path n ps. n < length routes \<longrightarrow> route_matches meth path (routes ! n) = Some ps \<longrightarrow>
       (\<forall>k < length routes. k \<noteq> n \<longrightarrow> route_matches meth path (routes ! k) = None) \<longrightarrow>
       chi_find x routes meth path = Some (n, ps)))"

text \<open>
  The generated parameter errors: what each says, and the error it wraps (%d is the decimal
  numeral).
\<close>

datatype param_error =
    UnescapedCookieParamError string string
  | UnmarshalingParamError string string
  | RequiredParamError string
  | RequiredHeaderError string string
  | InvalidParamFormatError string string
  | TooManyValuesForParamError string int

fun param_error_text :: "param_error \<Rightarrow> string" where
  "param_error_text (UnescapedCookieParamError name err) = ''error unescaping cookie parameter '' @ [CHR 0x27] @ name @ [CHR 0x27]"
| "param_error_text (UnmarshalingParamError name err) = ''Error unmarshaling parameter '' @ name @ '' as JSON: '' @ err"
| "param_error_text (RequiredParamError name) = ''Query argument '' @ name @ '' is required, but not found''"
| "param_error_text (RequiredHeaderError name err) = ''Header parameter '' @ name @ '' is required, but not found''"
| "param_error_text (InvalidParamFormatError name err) = ''Invalid format for parameter '' @ name @ '': '' @ err"
| "param_error_text (TooManyValuesForParamError name n) = ''Expected one value for '' @ name @ '', got '' @ decimal n"

fun param_error_unwrap :: "param_error \<Rightarrow> string option" where
  "param_error_unwrap (UnescapedCookieParamError name err) = Some err"
| "param_error_unwrap (UnmarshalingParamError name err) = Some err"
| "param_error_unwrap (RequiredParamError name) = None"
| "param_error_unwrap (RequiredHeaderError name err) = Some err"
| "param_error_unwrap (InvalidParamFormatError name err) = Some err"
| "param_error_unwrap (TooManyValuesForParamError name n) = None"

text \<open>The default ErrorHandlerFunc: http.Error with status 400.\<close>

definition bad_parameter :: "param_error \<Rightarrow> response" where
  "bad_parameter err =
    (write_header 400 (set_header ''X-Content-Type-Options'' ''nosniff''
      (set_header ''Content-Type'' ''text/plain; charset=utf-8'' no_response)))
     \<lparr>resp_body := Some (TextBody (param_error_text err @ [CHR 0x0A]))\<rparr>"

record http_call =
  call_method :: string
  call_path :: string
  call_escaped :: bool  \<comment> \<open>r.URL.RawPath is set: the path has escapes that matter\<close>
  call_request :: request

section \<open>The generated server\<close>

type_synonym http_handler = "http_call \<Rightarrow> db \<Rightarrow> outcome_state"
type_synonym http_middleware = "http_handler \<Rightarrow> http_handler"

record server_interface =
  si_logout :: http_handler
  si_callback :: "string \<Rightarrow> http_handler"
  si_refresh :: http_handler
  si_me :: http_handler
  si_health :: http_handler

text \<open>Unimplemented answers 501 to every operation.\<close>

definition unimplemented :: response where
  "unimplemented = write_header 501 no_response"

definition unimplemented_server :: server_interface where
  "unimplemented_server = \<lparr>si_logout = (\<lambda>c d. respond [] d (unimplemented, [])),
     si_callback = (\<lambda>provider c d. respond [] d (unimplemented, [])), si_refresh = (\<lambda>c d. respond [] d (unimplemented, [])),
     si_me = (\<lambda>c d. respond [] d (unimplemented, [])), si_health = (\<lambda>c d. respond [] d (unimplemented, []))\<rparr>"

text \<open>The server embeds Unimplemented and overrides every operation of it.\<close>

definition api_server :: "platform \<Rightarrow> server \<Rightarrow> env \<Rightarrow> server_interface" where
  "api_server p s e = unimplemented_server\<lparr>
     si_logout := (\<lambda>c. auth_logout p s e (call_request c)),
     si_callback := (\<lambda>provider c. auth_callback p s e provider (call_request c)),
     si_refresh := (\<lambda>c. auth_refresh p s e (call_request c)),
     si_me := (\<lambda>c. get_me p s e (call_request c)),
     si_health := (\<lambda>c. get_health p)\<rparr>"

text \<open>ServerInterfaceWrapper: every operation runs inside the middlewares, the last one outermost.\<close>

record interface_wrapper =
  siw_handler :: server_interface
  siw_middlewares :: "http_middleware list"
  siw_error_handler :: "param_error \<Rightarrow> http_handler"

definition in_middlewares :: "interface_wrapper \<Rightarrow> http_handler \<Rightarrow> http_handler" where
  "in_middlewares w h = fold (\<lambda>m h. m h) (siw_middlewares w) h"

fun wrapped :: "chi_lib \<Rightarrow> interface_wrapper \<Rightarrow> operation \<Rightarrow> (string \<times> string) list \<Rightarrow> http_handler" where
  "wrapped x w OpAuthLogout params = in_middlewares w (si_logout (siw_handler w))"
| "wrapped x w OpAuthCallback params = (\<lambda>c d.
    let raw = (case map_of params ''provider'' of None \<Rightarrow> [] | Some v \<Rightarrow> v) in
    case bind_path_param x raw (\<not> call_escaped c) of
      Inl err \<Rightarrow> siw_error_handler w (InvalidParamFormatError ''provider'' err) c d
    | Inr provider \<Rightarrow> in_middlewares w (si_callback (siw_handler w) provider) c d)"
| "wrapped x w OpAuthRefresh params = in_middlewares w (si_refresh (siw_handler w))"
| "wrapped x w OpGetMe params = in_middlewares w (si_me (siw_handler w))"
| "wrapped x w OpGetHealth params = in_middlewares w (si_health (siw_handler w))"

text \<open>A mux is the routes registered on it, with what handles each once its parameters are known.\<close>

type_synonym mux = "((string \<times> string) \<times> ((string \<times> string) list \<Rightarrow> http_handler)) list"

record chi_server_options =
  opt_base_url :: string
  opt_base_router :: "mux option"
  opt_middlewares :: "http_middleware list"
  opt_error_handler :: "(param_error \<Rightarrow> http_handler) option"

definition no_options :: chi_server_options where
  "no_options = \<lparr>opt_base_url = [], opt_base_router = None, opt_middlewares = [], opt_error_handler = None\<rparr>"

definition handler_with_options :: "chi_lib \<Rightarrow> server_interface \<Rightarrow> chi_server_options \<Rightarrow> mux" where
  "handler_with_options x si opts =
    (let r = (case opt_base_router opts of None \<Rightarrow> [] | Some r \<Rightarrow> r);
         on_error = (case opt_error_handler opts of None \<Rightarrow> (\<lambda>err c d. respond [] d (bad_parameter err, [])) | Some f \<Rightarrow> f);
         w = \<lparr>siw_handler = si, siw_middlewares = opt_middlewares opts, siw_error_handler = on_error\<rparr>
     in r @ map (\<lambda>(route, op). (route, wrapped x w op)) (api_routes (opt_base_url opts)))"

definition handler_of :: "chi_lib \<Rightarrow> server_interface \<Rightarrow> mux" where
  "handler_of x si = handler_with_options x si no_options"

definition handler_from_mux :: "chi_lib \<Rightarrow> server_interface \<Rightarrow> mux \<Rightarrow> mux" where
  "handler_from_mux x si r = handler_with_options x si (no_options\<lparr>opt_base_router := Some r\<rparr>)"

definition handler_from_mux_with_base_url :: "chi_lib \<Rightarrow> server_interface \<Rightarrow> mux \<Rightarrow> string \<Rightarrow> mux" where
  "handler_from_mux_with_base_url x si r base_url =
    handler_with_options x si (no_options\<lparr>opt_base_url := base_url, opt_base_router := Some r\<rparr>)"

text \<open>NewRouter mounts the operations of the server on a new mux; a mux hands a call to the route it finds.\<close>

definition new_router :: "platform \<Rightarrow> chi_lib \<Rightarrow> server \<Rightarrow> env \<Rightarrow> mux" where
  "new_router p x s e = handler_from_mux x (api_server p s e) []"

definition mux_serve :: "chi_lib \<Rightarrow> mux \<Rightarrow> http_handler" where
  "mux_serve x r c d =
    (let routes = map fst r in
     case chi_find x routes (call_method c) (call_path c) of
       None \<Rightarrow> respond [] d (chi_missing x routes (call_method c) (call_path c), [])
     | Some (n, params) \<Rightarrow>
         if n < length r then snd (r ! n) params c d
         else respond [] d (chi_missing x routes (call_method c) (call_path c), []))"

definition serve :: "platform \<Rightarrow> chi_lib \<Rightarrow> server \<Rightarrow> env \<Rightarrow> http_handler" where
  "serve p x s e = mux_serve x (new_router p x s e)"

section \<open>The five operations\<close>

text \<open>What the wrappers do as NewRouter uses them, without middlewares and with the default error handler.\<close>

definition wrap_auth_callback :: "platform \<Rightarrow> chi_lib \<Rightarrow> server \<Rightarrow> env \<Rightarrow> (string \<times> string) list \<Rightarrow> http_call \<Rightarrow> db \<Rightarrow> outcome_state" where
  "wrap_auth_callback p x s e params c d =
    (let raw = (case map_of params ''provider'' of None \<Rightarrow> [] | Some v \<Rightarrow> v) in
     case bind_path_param x raw (\<not> call_escaped c) of
       Inl err \<Rightarrow> respond [] d (bad_parameter (InvalidParamFormatError ''provider'' err), [])
     | Inr provider \<Rightarrow> auth_callback p s e provider (call_request c) d)"

fun run_operation :: "platform \<Rightarrow> chi_lib \<Rightarrow> server \<Rightarrow> env \<Rightarrow> operation \<Rightarrow> (string \<times> string) list \<Rightarrow> http_call \<Rightarrow> db \<Rightarrow> outcome_state" where
  "run_operation p x s e OpGetHealth params c d = get_health p d"
| "run_operation p x s e OpAuthCallback params c d = wrap_auth_callback p x s e params c d"
| "run_operation p x s e OpAuthRefresh params c d = auth_refresh p s e (call_request c) d"
| "run_operation p x s e OpAuthLogout params c d = auth_logout p s e (call_request c) d"
| "run_operation p x s e OpGetMe params c d = get_me p s e (call_request c) d"

lemma wrapped_plain:
  "wrapped x \<lparr>siw_handler = api_server p s e, siw_middlewares = [], siw_error_handler = (\<lambda>err c d. respond [] d (bad_parameter err, []))\<rparr> op
    = run_operation p x s e op"
  by (cases op; intro ext) (simp_all add: in_middlewares_def api_server_def wrap_auth_callback_def Let_def split: sum.split)

lemma new_router_routes: "new_router p x s e = map (\<lambda>(route, op). (route, run_operation p x s e op)) (api_routes [])"
  by (simp add: new_router_def handler_from_mux_def handler_with_options_def no_options_def wrapped_plain)

lemma serve_routes:
  "serve p x s e c d =
    (let routes = map fst (api_routes []) in
     case chi_find x routes (call_method c) (call_path c) of
       None \<Rightarrow> respond [] d (chi_missing x routes (call_method c) (call_path c), [])
     | Some (n, params) \<Rightarrow>
         if n < length routes then run_operation p x s e (snd (api_routes [] ! n)) params c d
         else respond [] d (chi_missing x routes (call_method c) (call_path c), []))"
proof -
  have "map fst (new_router p x s e) = map fst (api_routes [])" "length (new_router p x s e) = length (api_routes [])"
    by (simp_all add: new_router_routes split_beta)
  moreover have "snd (new_router p x s e ! n) = run_operation p x s e (snd (api_routes [] ! n))" if "n < length (api_routes [])" for n
    using that by (simp add: new_router_routes split_beta)
  ultimately show ?thesis by (simp add: serve_def mux_serve_def Let_def split: option.split)
qed

text \<open>The middlewares nest: what is given first runs innermost.\<close>

lemma in_middlewares_append: "siw_middlewares w = ms @ [m] \<Longrightarrow> in_middlewares w h = m (in_middlewares (w\<lparr>siw_middlewares := ms\<rparr>) h)"
  by (simp add: in_middlewares_def)

section \<open>Facts\<close>

lemma segments_Cons: "segments (c # s) = (if c = CHR ''/'' then [] # segments s else (c # hd (segments s)) # tl (segments s))"
  by (simp add: segments_def)

lemma segments_Nil [simp]: "segments [] = [[]]"
  by (simp add: segments_def)

lemma segments_nonempty [simp]: "segments s \<noteq> []"
  by (cases s) (simp_all add: segments_def)

lemma segments_slash_free:
  "CHR ''/'' \<notin> set s \<Longrightarrow> segments (s @ t) = (s @ hd (segments t)) # tl (segments t)"
  by (induction s) (auto simp: segments_Cons)

text \<open>The segments of the five patterns.\<close>

lemma route_segments:
  "segments ''/healthz'' = [[], ''healthz'']"
  "segments ''/api/v1/auth/oidc/{provider}/callback'' = [[], ''api'', ''v1'', ''auth'', ''oidc'', ''{provider}'', ''callback'']"
  "segments ''/api/v1/auth/refresh'' = [[], ''api'', ''v1'', ''auth'', ''refresh'']"
  "segments ''/api/v1/auth/logout'' = [[], ''api'', ''v1'', ''auth'', ''logout'']"
  "segments ''/api/v1/me'' = [[], ''api'', ''v1'', ''me'']"
  by code_simp+

lemma segments_split: "CHR ''/'' \<notin> set s \<Longrightarrow> segments (s @ CHR ''/'' # t) = s # segments t"
  using segments_slash_free [of s "CHR ''/'' # t"] by (simp add: segments_Cons)

lemma segments_last: "CHR ''/'' \<notin> set s \<Longrightarrow> segments s = [s]"
  using segments_slash_free [of s "[]"] by simp

lemma callback_segments:
  assumes "CHR ''/'' \<notin> set name"
  shows "segments (''/api/v1/auth/oidc/'' @ name @ ''/callback'') = [[], ''api'', ''v1'', ''auth'', ''oidc'', name, ''callback'']"
proof -
  have eq: "''/api/v1/auth/oidc/'' @ name @ ''/callback'' = [] @ CHR ''/'' # ''api'' @ CHR ''/'' # ''v1'' @ CHR ''/'' # ''auth''
      @ CHR ''/'' # ''oidc'' @ CHR ''/'' # name @ CHR ''/'' # ''callback''" by simp
  have free: "CHR ''/'' \<notin> set ''api''" "CHR ''/'' \<notin> set ''v1''" "CHR ''/'' \<notin> set ''auth''" "CHR ''/'' \<notin> set ''oidc''"
    "CHR ''/'' \<notin> set ''callback''" by simp_all
  have "CHR ''/'' \<notin> set ([] :: string)" by simp
  note steps = segments_split [OF this] segments_split [OF free(1)] segments_split [OF free(2)] segments_split [OF free(3)]
    segments_split [OF free(4)] segments_split [OF assms] segments_last [OF free(5)]
  show ?thesis unfolding eq steps ..
qed

lemma serve_route:
  assumes "chi_documented x" and "n < 5" and "route_matches (call_method c) (call_path c) (fst (api_routes [] ! n)) = Some ps"
    and "\<forall>k < 5. k \<noteq> n \<longrightarrow> route_matches (call_method c) (call_path c) (fst (api_routes [] ! k)) = None"
  shows "serve p x s e c d = run_operation p x s e (snd (api_routes [] ! n)) ps c d"
proof -
  have len: "length (map fst (api_routes [])) = 5" by (simp add: api_routes_def)
  then have "map fst (api_routes []) ! k = fst (api_routes [] ! k)" if "k < 5" for k using that by simp
  then have "chi_find x (map fst (api_routes [])) (call_method c) (call_path c) = Some (n, ps)"
    using assms(2-4) len assms(1) [unfolded chi_documented_def Let_def, rule_format, of n "call_method c" "call_path c" ps]
    by simp
  then show ?thesis using assms(2) len by (simp add: serve_routes Let_def)
qed

lemma five: "k < (5 :: nat) \<longleftrightarrow> k \<in> {0, 1, 2, 3, 4}"
  by auto

lemma serve_callback:
  assumes "chi_documented x" and "call_method c = ''POST''" and "call_path c = ''/api/v1/auth/oidc/'' @ name @ ''/callback''"
    and "CHR ''/'' \<notin> set name" and "name \<noteq> []" and "bind_path_param x name (\<not> call_escaped c) = Inr provider"
  shows "serve p x s e c d = auth_callback p s e provider (call_request c) d"
proof -
  have seg: "segments (call_path c) = [[], ''api'', ''v1'', ''auth'', ''oidc'', name, ''callback'']"
    unfolding assms(3) by (rule callback_segments [OF assms(4)])
  have "serve p x s e c d = run_operation p x s e (snd (api_routes [] ! 1)) [(''provider'', name)] c d"
    by (rule serve_route [OF assms(1)])
      (use assms(2,5) seg in \<open>auto simp: route_matches_def api_routes_def route_segments param_name_def five\<close>)
  then show ?thesis using assms(6) by (simp add: api_routes_def wrap_auth_callback_def)
qed

lemma serve_static:
  assumes "chi_documented x"
  shows "call_method c = ''POST'' \<Longrightarrow> call_path c = ''/api/v1/auth/refresh'' \<Longrightarrow> serve p x s e c d = auth_refresh p s e (call_request c) d"
    and "call_method c = ''POST'' \<Longrightarrow> call_path c = ''/api/v1/auth/logout'' \<Longrightarrow> serve p x s e c d = auth_logout p s e (call_request c) d"
    and "call_method c = ''GET'' \<Longrightarrow> call_path c = ''/api/v1/me'' \<Longrightarrow> serve p x s e c d = get_me p s e (call_request c) d"
    and "call_method c = ''GET'' \<Longrightarrow> call_path c = ''/healthz'' \<Longrightarrow> serve p x s e c d = get_health p d"
proof -
  assume a: "call_method c = ''POST''" "call_path c = ''/api/v1/auth/refresh''"
  have "serve p x s e c d = run_operation p x s e (snd (api_routes [] ! 2)) [] c d"
    by (rule serve_route [OF assms]) (use a in \<open>auto simp: route_matches_def api_routes_def route_segments param_name_def five\<close>)
  then show "serve p x s e c d = auth_refresh p s e (call_request c) d" by (simp add: api_routes_def)
next
  assume a: "call_method c = ''POST''" "call_path c = ''/api/v1/auth/logout''"
  have "serve p x s e c d = run_operation p x s e (snd (api_routes [] ! 3)) [] c d"
    by (rule serve_route [OF assms]) (use a in \<open>auto simp: route_matches_def api_routes_def route_segments param_name_def five\<close>)
  then show "serve p x s e c d = auth_logout p s e (call_request c) d" by (simp add: api_routes_def)
next
  assume a: "call_method c = ''GET''" "call_path c = ''/api/v1/me''"
  have "serve p x s e c d = run_operation p x s e (snd (api_routes [] ! 4)) [] c d"
    by (rule serve_route [OF assms]) (use a in \<open>auto simp: route_matches_def api_routes_def route_segments param_name_def five\<close>)
  then show "serve p x s e c d = get_me p s e (call_request c) d" by (simp add: api_routes_def)
next
  assume a: "call_method c = ''GET''" "call_path c = ''/healthz''"
  have "serve p x s e c d = run_operation p x s e (snd (api_routes [] ! 0)) [] c d"
    by (rule serve_route [OF assms]) (use a in \<open>auto simp: route_matches_def api_routes_def route_segments param_name_def five\<close>)
  then show "serve p x s e c d = get_health p d" by (simp add: api_routes_def)
qed

section \<open>A concrete mux\<close>

definition reference_chi :: chi_lib where
  "reference_chi = \<lparr>
     chi_find = (\<lambda>routes meth path.
       map_option (\<lambda>n. (n, the (route_matches meth path (routes ! n))))
         (find (\<lambda>n. route_matches meth path (routes ! n) \<noteq> None) [0..<length routes])),
     chi_missing = (\<lambda>_ _ _. write_header 404 no_response),
     bind_path_param = (\<lambda>v _. Inr v)\<rparr>"

lemma reference_chi_documented: "chi_documented reference_chi"
proof -
  have "find (\<lambda>n. route_matches meth path (routes ! n) \<noteq> None) [0..<length routes] = Some n"
    if "n < length routes" "route_matches meth path (routes ! n) = Some ps"
      "\<forall>k < length routes. k \<noteq> n \<longrightarrow> route_matches meth path (routes ! k) = None" for routes meth path n ps
    using that by (auto simp: find_Some_iff intro!: exI [of _ n])
  from this [of _ "map fst (api_routes [])"] show ?thesis
    unfolding chi_documented_def reference_chi_def Let_def by (auto simp del: length_map not_None_eq)
qed

end
