(* ===== verification/Session_Spec.thy ===== *)
theory Session_Spec
  imports Sessions
begin

text \<open>
  What the session service promises, without its tables. A registry knows, for each sign-in
  family, who holds it, the tokens already spent (oldest first), the one current token with
  its issue and expiry times, and whether the family has ended; and for each token hash the
  family that owns it. \<open>registry_of\<close> reads a registry off the refresh-token table; the
  refinement lemmas say that the operations of Sessions implement the ones here.
\<close>

section \<open>The specification\<close>

record family_state =
  holder :: uuid
  spent_hashes :: "string list"
  current_hash :: string
  current_since :: micros
  current_until :: micros
  ended :: bool

record registry =
  fams :: "uuid \<Rightarrow> family_state option"
  owners :: "string \<Rightarrow> uuid option"

datatype outcome = Granted uuid uuid | Raced | Replayed | Refused

definition live_at :: "micros \<Rightarrow> family_state \<Rightarrow> bool" where
  "live_at now s \<longleftrightarrow> \<not> ended s \<and> now < current_until s"

text \<open>The token just replaced may be presented again for a moment without harm.\<close>

definition just_replaced :: "micros \<Rightarrow> string \<Rightarrow> family_state \<Rightarrow> bool" where
  "just_replaced now h s \<longleftrightarrow> spent_hashes s \<noteq> [] \<and> last (spent_hashes s) = h
    \<and> live_at now s \<and> now - trunc_seconds reuse_grace * 1000000 < current_since s"

definition advance :: "micros \<Rightarrow> string \<Rightarrow> micros \<Rightarrow> family_state \<Rightarrow> family_state" where
  "advance now h until s = s\<lparr>spent_hashes := spent_hashes s @ [current_hash s], current_hash := h,
     current_since := now, current_until := until\<rparr>"

definition end_family :: "uuid \<Rightarrow> registry \<Rightarrow> registry" where
  "end_family f reg = reg\<lparr>fams := (fams reg)(f := map_option (ended_update (\<lambda>_. True)) (fams reg f))\<rparr>"

definition spec_rotate :: "micros \<Rightarrow> micros \<Rightarrow> string \<Rightarrow> string \<Rightarrow> micros \<Rightarrow> registry \<Rightarrow> outcome \<times> registry" where
  "spec_rotate now later h new until reg =
    (case owners reg h of
       None \<Rightarrow> (Refused, reg)
     | Some f \<Rightarrow>
        (case fams reg f of
           None \<Rightarrow> (Refused, reg)
         | Some s \<Rightarrow>
             if current_hash s = h then
               (if live_at now s
                then (Granted f (holder s), reg\<lparr>fams := (fams reg)(f \<mapsto> advance now new until s),
                        owners := (owners reg)(new \<mapsto> f)\<rparr>)
                else (Refused, reg))
             else if just_replaced later h s then (Raced, reg)
             else (Replayed, end_family f reg)))"

definition spec_issue :: "micros \<Rightarrow> uuid \<Rightarrow> uuid \<Rightarrow> string \<Rightarrow> micros \<Rightarrow> registry \<Rightarrow> registry" where
  "spec_issue now user f new until reg =
    reg\<lparr>fams := (fams reg)(f \<mapsto> \<lparr>holder = user, spent_hashes = [], current_hash = new,
           current_since = now, current_until = until, ended = False\<rparr>),
        owners := (owners reg)(new \<mapsto> f)\<rparr>"

definition spec_logout :: "string \<Rightarrow> registry \<Rightarrow> registry" where
  "spec_logout h reg = (case owners reg h of None \<Rightarrow> reg | Some f \<Rightarrow> end_family f reg)"

definition spec_end_all :: "uuid \<Rightarrow> registry \<Rightarrow> registry" where
  "spec_end_all u reg = reg\<lparr>fams := (\<lambda>f. case fams reg f of None \<Rightarrow> None
     | Some s \<Rightarrow> Some (if holder s = u then s\<lparr>ended := True\<rparr> else s))\<rparr>"

section \<open>The abstraction\<close>

definition family_of :: "refresh_token list \<Rightarrow> uuid \<Rightarrow> family_state option" where
  "family_of rows f =
    (let fr = family_rows f rows; l = last fr in
     if fr = [] then None
     else Some \<lparr>holder = token_user l, spent_hashes = map token_hash (butlast fr),
       current_hash = token_hash l, current_since = issued_at l, current_until = expires_at l,
       ended = family_revoked rows f\<rparr>)"

definition owner_of :: "refresh_token list \<Rightarrow> string \<Rightarrow> uuid option" where
  "owner_of rows h = map_option token_family (find (\<lambda>r. token_hash r = h) rows)"

definition registry_of :: "db \<Rightarrow> registry" where
  "registry_of d = \<lparr>fams = family_of (refresh_tokens d), owners = owner_of (refresh_tokens d)\<rparr>"

fun outcome_of :: "session_error + session \<Rightarrow> outcome option" where
  "outcome_of (Inr s) = Some (Granted (session_family s) (session_user s))"
| "outcome_of (Inl ErrRefreshTokenRaced) = Some Raced"
| "outcome_of (Inl ErrRefreshTokenReused) = Some Replayed"
| "outcome_of (Inl ErrInvalidRefreshToken) = Some Refused"
| "outcome_of (Inl _) = None"

lemma family_of_split:
  "family_rows f rows = xs @ [l] \<Longrightarrow> family_of rows f =
    Some \<lparr>holder = token_user l, spent_hashes = map token_hash xs, current_hash = token_hash l,
      current_since = issued_at l, current_until = expires_at l, ended = family_revoked rows f\<rparr>"
  by (simp add: family_of_def)

lemma owner_of_row:
  "tokens_wf d \<Longrightarrow> r \<in> set (refresh_tokens d) \<Longrightarrow> owner_of (refresh_tokens d) (token_hash r) = Some (token_family r)"
  by (simp add: owner_of_def tokens_wf_def find_by_key)

lemma owner_of_None: "h \<notin> token_hash ` set rows \<Longrightarrow> owner_of rows h = None"
  by (force simp: owner_of_def find_None_iff)

lemma family_distinct:
  "tokens_wf d \<Longrightarrow> distinct (map token_hash (family_rows f (refresh_tokens d)))"
  by (auto simp: tokens_wf_def family_rows_def intro: distinct_map_filter)

section \<open>How the statements move the registry\<close>

lemma family_revoked_rows:
  "family_revoked rows f = list_ex (\<lambda>r. revoked_at r \<noteq> None) (family_rows f rows)"
  by (auto simp: family_revoked_def list_ex_iff set_family_rows)

lemma family_of_same_rows:
  "family_rows f rows = family_rows f rows' \<Longrightarrow> family_of rows f = family_of rows' f"
  by (simp add: family_of_def family_revoked_rows Let_def)

lemma owner_of_append:
  "h \<notin> token_hash ` set rows \<Longrightarrow> token_hash n = h \<Longrightarrow> owner_of (rows @ [n]) = (owner_of rows)(h \<mapsto> token_family n)"
  by (rule ext) (auto simp: owner_of_def find_None_append find_None_iff image_iff split: option.splits dest!: find_SomeD)

lemma owner_of_used [simp]: "owner_of (update_where P (mark_used now) rows) = owner_of rows"
  by (rule ext) (simp add: owner_of_def used_hash.find_key option.map_comp o_def if_distrib cong: if_cong)

lemma owner_of_revoked [simp]: "owner_of (update_where P (mark_revoked now) rows) = owner_of rows"
  by (rule ext) (simp add: owner_of_def revoked_hash.find_key option.map_comp o_def if_distrib cong: if_cong)

text \<open>Revoking ends exactly the families the WHERE clause selects whole.\<close>

lemma family_of_revoke:
  assumes "\<And>r. r \<in> set rows \<Longrightarrow> token_family r = f \<Longrightarrow> P r = b"
  shows "family_of (update_where (\<lambda>r. P r \<and> revoked_at r = None) (mark_revoked now) rows) f =
    map_option (\<lambda>s. if b then s\<lparr>ended := True\<rparr> else s) (family_of rows f)"
proof (cases "family_rows f rows" rule: rev_cases)
  case Nil
  then show ?thesis by (simp add: family_of_def)
next
  case (snoc xs l)
  have b: "P r = b" if "r \<in> set xs \<or> r = l" for r
    using assms that arg_cong [OF snoc, of set] by (auto simp: set_family_rows)
  let ?Q = "\<lambda>r. P r \<and> revoked_at r = None" and ?u = "\<lambda>r. if P r \<and> revoked_at r = None then mark_revoked now r else r"
  have fam: "family_rows f (update_where ?Q (mark_revoked now) rows) = map ?u xs @ [?u l]"
    using snoc by (simp only: family_rows_update_revoked) (simp add: update_where_def)
  show ?thesis
  proof (cases b)
    case True
    have "map token_hash (map ?u xs) = map token_hash xs" by simp
    then show ?thesis
      using b True by (auto simp: family_of_split [OF snoc] family_of_split [OF fam] family_revoked_rows fam snoc)
  next
    case False
    have "update_where ?Q (mark_revoked now) (family_rows f rows) = family_rows f rows"
      using b False snoc by (intro update_where_none) auto
    then show ?thesis
      using False family_of_same_rows [of f "update_where ?Q (mark_revoked now) rows" rows]
      by (simp add: option.map_ident)
  qed
qed

lemma registry_revoke_family:
  "registry_of (snd (revoke_refresh_token_family now f d)) = end_family f (registry_of d)"
proof -
  let ?T = "refresh_tokens d" and ?Q = "\<lambda>r. token_family r = f \<and> revoked_at r = None"
  have "family_of (update_where ?Q (mark_revoked now) ?T) g
      = ((family_of ?T)(f := map_option (ended_update (\<lambda>_. True)) (family_of ?T f))) g" for g
    by (subst family_of_revoke [where b = "g = f"])
      (auto simp: option.map_ident intro!: option.map_cong)
  then have "family_of (update_where ?Q (mark_revoked now) ?T)
      = (family_of ?T)(f := map_option (ended_update (\<lambda>_. True)) (family_of ?T f))" by (rule ext)
  then show ?thesis
    by (simp add: registry_of_def end_family_def revoke_refresh_token_family_def revoke_where_def Let_def)
qed

lemma family_holder:
  assumes "chains_ok d" and "family_of (refresh_tokens d) f = Some s" and "r \<in> set (refresh_tokens d)"
    and "token_family r = f"
  shows "token_user r = holder s"
proof -
  from assms(2) obtain xs l where fr: "family_rows f (refresh_tokens d) = xs @ [l]"
    by (cases "family_rows f (refresh_tokens d)" rule: rev_cases) (auto simp: family_of_def)
  have "chain (family_rows f (refresh_tokens d))" using assms(1) by (simp add: chains_ok_def)
  then have "token_user r = token_user l"
  proof (rule chain_user)
    show "r \<in> set (family_rows f (refresh_tokens d))" using assms(3,4) by (simp add: set_family_rows)
  qed (simp add: fr)
  then show ?thesis using assms(2) family_of_split [OF fr] by auto
qed

lemma registry_revoke_user:
  assumes "chains_ok d"
  shows "registry_of (snd (revoke_refresh_tokens_for_user now u d)) = spec_end_all u (registry_of d)"
proof -
  let ?T = "refresh_tokens d" and ?Q = "\<lambda>r. token_user r = u \<and> revoked_at r = None"
  have "family_of (update_where ?Q (mark_revoked now) ?T) f = (case family_of ?T f of None \<Rightarrow> None
     | Some s \<Rightarrow> Some (if holder s = u then s\<lparr>ended := True\<rparr> else s))" for f
  proof (cases "family_of ?T f")
    case None
    then have "family_rows f ?T = []" by (simp add: family_of_def Let_def split: if_splits)
    then show ?thesis using None by (simp add: family_of_def)
  next
    case (Some s)
    then show ?thesis
      using family_holder [OF assms Some] by (subst family_of_revoke [where b = "holder s = u"]) auto
  qed
  then show ?thesis
    by (simp add: registry_of_def spec_end_all_def revoke_refresh_tokens_for_user_def revoke_where_def Let_def ext)
qed

lemma registry_start:
  assumes "insert_refresh_token now i p d = (Inr row, d')" and "param_family p \<notin> token_family ` set (refresh_tokens d)"
  shows "registry_of d' = spec_issue now (param_user p) (param_family p) (param_hash p) (param_expires p) (registry_of d)"
proof -
  from assms(1) have d': "refresh_tokens d' = refresh_tokens d @ [new_row now i p]"
    and h: "param_hash p \<notin> token_hash ` set (refresh_tokens d)" by (auto simp: insert_Inr)
  have "family_of (refresh_tokens d') g = ((family_of (refresh_tokens d))(param_family p \<mapsto>
      \<lparr>holder = param_user p, spent_hashes = [], current_hash = param_hash p,
       current_since = now, current_until = param_expires p, ended = False\<rparr>)) g" for g
  proof (cases "g = param_family p")
    case True
    have "family_rows g (refresh_tokens d') = [] @ [new_row now i p]"
      using assms(2) True d' by (force simp: family_rows_def filter_empty_conv)
    from family_of_split [OF this] this show ?thesis using True by (simp add: family_revoked_rows)
  next
    case False
    then show ?thesis by (auto simp: d' intro!: family_of_same_rows)
  qed
  then show ?thesis
    using owner_of_append [OF h, of "new_row now i p"] by (simp add: registry_of_def spec_issue_def d' ext)
qed

lemma registry_advance:
  assumes c: "consume_refresh_token now h d = (Inr c, d1)" and i: "insert_refresh_token now i p d1 = (Inr row, d2)"
    and p: "param_family p = token_family c" "param_user p = token_user c"
    and wf: "tokens_wf d" and ok: "chains_ok d"
  shows "\<exists>s. owners (registry_of d) h = Some (token_family c) \<and> fams (registry_of d) (token_family c) = Some s
    \<and> current_hash s = h \<and> live_at now s \<and> holder s = token_user c
    \<and> registry_of d2 = (registry_of d)\<lparr>fams := (fams (registry_of d))(token_family c \<mapsto>
          advance now (param_hash p) (param_expires p) s),
        owners := (owners (registry_of d))(param_hash p \<mapsto> token_family c)\<rparr>"
proof -
  let ?T = "refresh_tokens d" and ?n = "new_row now i p"
  obtain r xs where r: "r \<in> set ?T" "consumable now h ?T r" "c = mark_used now r"
    and fam: "family_rows (token_family r) ?T = xs @ [r]"
    and fam1: "family_rows (token_family r) (refresh_tokens d1) = xs @ [mark_used now r]"
    and oth: "\<forall>f. f \<noteq> token_family r \<longrightarrow> family_rows f (refresh_tokens d1) = family_rows f ?T"
    and "users d1 = users d"
    by (rule consume_family_rows [OF c wf ok])
  let ?f = "token_family r" and ?s = "\<lparr>holder = token_user r, spent_hashes = map token_hash xs, current_hash = token_hash r,
      current_since = issued_at r, current_until = expires_at r, ended = family_revoked ?T (token_family r)\<rparr>"
  have T2: "refresh_tokens d2 = refresh_tokens d1 @ [?n]" and h2: "param_hash p \<notin> token_hash ` set (refresh_tokens d1)"
    using i by (auto simp: insert_Inr)
  have T1: "refresh_tokens d1 = update_where (consumable now h ?T) (mark_used now) ?T"
    using c by (rule consume_Inr) simp
  have hr: "token_hash r = h" "\<not> family_revoked ?T ?f" "now < expires_at r" using r(2) by (auto simp: consumable_def)
  have s: "family_of ?T ?f = Some ?s" by (rule family_of_split [OF fam])
  have fam2: "family_rows ?f (refresh_tokens d2) = (xs @ [mark_used now r]) @ [?n]"
    using fam1 T2 p r(3) by simp
  have live: "\<not> list_ex (\<lambda>r. revoked_at r \<noteq> None) (xs @ [r])"
    using hr(2) family_revoked_rows [of ?T ?f] fam by simp
  have "family_of (refresh_tokens d2) g
      = ((family_of ?T)(?f \<mapsto> advance now (param_hash p) (param_expires p) ?s)) g" for g
  proof (cases "g = ?f")
    case True
    have "\<not> family_revoked (refresh_tokens d2) ?f" using live by (simp add: family_revoked_rows fam2)
    then show ?thesis
      using True family_of_split [OF fam2] hr fam live by (simp add: advance_def p r(3) family_revoked_rows)
  next
    case False
    have "family_rows g (refresh_tokens d2) = family_rows g ?T" using oth False T2 p r(3) by simp
    from family_of_same_rows [OF this] show ?thesis using False by simp
  qed
  moreover have "owner_of (refresh_tokens d2) = (owner_of ?T)(param_hash p \<mapsto> ?f)"
    using owner_of_append [OF h2, of ?n] p r(3) by (simp add: T2 T1)
  moreover have "owner_of ?T h = Some ?f" using owner_of_row [OF wf r(1)] hr by simp
  ultimately show ?thesis
    using s hr r(3) by (intro exI [of _ ?s]) (simp add: registry_of_def live_at_def ext)
qed

section \<open>Refinement\<close>

text \<open>Which of the specification's cases the table is in.\<close>

lemma judge_unknown:
  assumes "h \<notin> token_hash ` set (refresh_tokens d)"
  shows "consume_refresh_token now h d = (Inl NoRows, d)" and "get_refresh_token_by_hash h d = Inl NoRows"
    and "owners (registry_of d) h = None"
  using assms by (auto simp: consume_Inl consumable_def get_refresh_token_by_hash_def find_None_iff
      registry_of_def owner_of_None split: option.splits dest!: find_SomeD)

lemma consume_blocked:
  assumes "tokens_wf d" and "r \<in> set (refresh_tokens d)" and "token_hash r = h"
    and "used_at r \<noteq> None \<or> expires_at r \<le> now \<or> family_revoked (refresh_tokens d) (token_family r)"
  shows "consume_refresh_token now h d = (Inl NoRows, d)"
  using assms same_hash_same_row [OF assms(1,2)] by (fastforce simp: consume_Inl consumable_def)

lemma diagnose_row:
  assumes "faultless e" and "tokens_wf d" and "r \<in> set (refresh_tokens d)"
  shows "diagnose_failed_consume e (token_hash r) d =
    (if used_at r = None then (ErrInvalidRefreshToken, d)
     else if is_benign_refresh_race (db_now e IsBenignRefreshRace) (used_at r) (trunc_seconds reuse_grace)
         (token_family r) d = Some True then (ErrRefreshTokenRaced, d)
     else (ErrRefreshTokenReused,
         snd (revoke_refresh_token_family (db_now e RevokeRefreshTokenFamily) (token_family r) d)))"
  using assms
  by (simp add: diagnose_failed_consume_def faultlessD query_def get_by_hash_row revoke_refresh_token_family_def
      revoke_where_def Let_def)

lemma judge_spent:
  assumes wf: "tokens_wf d" and ok: "chains_ok d" and r: "r \<in> set (refresh_tokens d)" and u: "used_at r \<noteq> None"
  shows "\<exists>s. fams (registry_of d) (token_family r) = Some s \<and> current_hash s \<noteq> token_hash r
    \<and> (is_benign_refresh_race now (used_at r) (trunc_seconds reuse_grace) (token_family r) d = Some True
        \<longleftrightarrow> just_replaced now (token_hash r) s)"
proof -
  let ?f = "token_family r" and ?T = "refresh_tokens d"
  have ch: "chain (family_rows ?f ?T)" using ok by (simp add: chains_ok_def)
  have "r \<in> set (family_rows ?f ?T)" using r by (simp add: set_family_rows)
  then obtain xs zs where split: "family_rows ?f ?T = xs @ r # zs" by (meson split_list)
  have "zs \<noteq> []" using split ch chain_last [of xs r] u by auto
  then obtain t ys where zs: "zs = t # ys" by (cases zs) auto
  then obtain bs l where l: "t # ys = bs @ [l]" by (metis list.distinct(1) rev_exhaust)
  have dist: "distinct (map token_hash (xs @ r # bs @ [l]))"
    using family_distinct [OF wf, of ?f] split zs l by simp
  have fr: "family_rows ?f ?T = (xs @ r # bs) @ [l]" using split zs l by simp
  have last: "last (map token_hash (xs @ r # bs)) = token_hash r \<longleftrightarrow> ys = []"
  proof (cases bs rule: rev_cases)
    case Nil
    then show ?thesis using l by simp
  next
    case (snoc as b)
    then show ?thesis using l dist by auto
  qed
  have "just_replaced now (token_hash r) \<lparr>holder = token_user l, spent_hashes = map token_hash (xs @ r # bs),
      current_hash = token_hash l, current_since = issued_at l, current_until = expires_at l,
      ended = family_revoked ?T ?f\<rparr> \<longleftrightarrow> issued_at t > now - trunc_seconds reuse_grace * 1000000 \<and> ys = []
        \<and> expires_at t > now \<and> \<not> family_revoked ?T ?f"
    using last l by (cases "ys = []") (auto simp: just_replaced_def live_at_def)
  then have "is_benign_refresh_race now (used_at r) (trunc_seconds reuse_grace) ?f d = Some True \<longleftrightarrow>
      just_replaced now (token_hash r) \<lparr>holder = token_user l, spent_hashes = map token_hash (xs @ r # bs),
      current_hash = token_hash l, current_since = issued_at l, current_until = expires_at l,
      ended = family_revoked ?T ?f\<rparr>"
    using benign_iff [OF ch, of xs r t ys] split zs by simp
  then show ?thesis using family_of_split [OF fr] dist by (auto simp: registry_of_def)
qed

lemma judge_current:
  assumes ok: "chains_ok d" and r: "r \<in> set (refresh_tokens d)" and u: "used_at r = None"
  shows "\<exists>s. fams (registry_of d) (token_family r) = Some s \<and> current_hash s = token_hash r \<and> holder s = token_user r
    \<and> (live_at now s \<longleftrightarrow> now < expires_at r \<and> \<not> family_revoked (refresh_tokens d) (token_family r))"
proof -
  have "chain (family_rows (token_family r) (refresh_tokens d))" using ok by (simp add: chains_ok_def)
  moreover have "r \<in> set (family_rows (token_family r) (refresh_tokens d))" using r by (simp add: set_family_rows)
  ultimately obtain xs where "family_rows (token_family r) (refresh_tokens d) = xs @ [r]"
    using u by (rule chain_unspent_is_last)
  from family_of_split [OF this] show ?thesis by (auto simp: registry_of_def live_at_def)
qed

text \<open>With working libraries and fresh draws, minting after a consume succeeds.\<close>

definition fresh_draws :: "env \<Rightarrow> (nat \<Rightarrow> u8) \<Rightarrow> db \<Rightarrow> bool" where
  "fresh_draws e b d \<longleftrightarrow> random_bytes e = Some b
    \<and> hash_refresh_token (refresh_secret_of b) \<notin> token_hash ` set (refresh_tokens d)
    \<and> row_id e RefreshTokensTable \<notin> token_id ` set (refresh_tokens d)"

definition libs_documented :: "libs \<Rightarrow> bool" where
  "libs_documented L \<longleftrightarrow> jwt_documented (jwt L) \<and> uuid_documented L"

lemma mint_faultless:
  assumes "faultless e" and L: "libs_documented L" and "fresh_draws e b d" and "user \<in> user_id ` set (users d)"
  obtains s where "mint L t e now user fam d = (Inr s, d\<lparr>refresh_tokens := refresh_tokens d @
      [new_row now (row_id e RefreshTokensTable)
        \<lparr>param_user = user, param_family = fam, param_hash = hash_refresh_token (refresh_secret_of b),
         param_expires = to_micros (go_now e RefreshClock + refresh_token_ttl)\<rparr>]\<rparr>)"
    and "session_family s = fam" and "session_user s = user"
    and "refresh_secret (session_refresh s) = refresh_secret_of b"
    and "new_access_token (jwt L) t (uuid_string L user) (go_now e AccessClock) = Inr (session_access s)"
proof -
  have "uuid_string L user \<noteq> []" using L by (simp add: libs_documented_def uuid_documented_def)
  moreover have "jwt_documented (jwt L)" using L by (simp add: libs_documented_def)
  ultimately obtain a where a: "new_access_token (jwt L) t (uuid_string L user) (go_now e AccessClock) = Inr a"
    by (meson new_access_token_ok)
  show thesis
    by (rule that [of "\<lparr>session_access = a, session_refresh = \<lparr>refresh_secret = refresh_secret_of b,
        refresh_hash = hash_refresh_token (refresh_secret_of b),
        refresh_expires_at = go_now e RefreshClock + refresh_token_ttl\<rparr>,
        session_family = fam, session_user = user\<rparr>"])
      (use assms a in \<open>auto simp: mint_def fresh_draws_def new_refresh_token_ok faultlessD insert_refresh_token_def\<close>)
qed

lemma rotate_faultless_fails:
  assumes "faultless e" and "consume_refresh_token (db_now e BeginTx) (hash_refresh_token tok) d = (Inl NoRows, d)"
  shows "rotate L t e tok d = map_prod Inl id (diagnose_failed_consume e (hash_refresh_token tok) d)"
  using assms by (simp add: rotate_def Let_def faultlessD begin_tx_def map_prod_def split: prod.splits)

lemma rotate_faultless_ok:
  assumes "faultless e" and "consume_refresh_token (db_now e BeginTx) (hash_refresh_token tok) d = (Inr c, d1)"
    and "mint L t e (db_now e BeginTx) (token_user c) (token_family c) d1 = (Inr s, d2)"
  shows "rotate L t e tok d = (Inr s, d2)"
  using assms by (simp add: rotate_def Let_def faultlessD begin_tx_def commit_tx_def)

lemma fresh_draws_consume:
  assumes "consume_refresh_token now h d = (Inr c, d1)" and "fresh_draws e b d"
  shows "fresh_draws e b d1"
proof -
  have "refresh_tokens d1 = update_where (consumable now h (refresh_tokens d)) (mark_used now) (refresh_tokens d)"
    using assms(1) by (rule consume_Inr) simp
  moreover have "token_hash ` set (update_where P (mark_used now) rows) = token_hash ` set rows"
    and "token_id ` set (update_where P (mark_used now) rows) = token_id ` set rows" for P rows
    using arg_cong [OF used_hash.keys_same [of P now rows], of set] arg_cong [OF used_id.keys_same [of P now rows], of set]
    by simp_all
  ultimately show ?thesis using assms(2) by (simp add: fresh_draws_def)
qed

text \<open>A consumable token rotates; the registry advances its family.\<close>

lemma rotate_granted:
  assumes e: "faultless e" and L: "libs_documented L" and ok: "sessions_ok d" and fresh: "fresh_draws e b d"
    and r: "r \<in> set (refresh_tokens d)" "consumable (db_now e BeginTx) (hash_refresh_token tok) (refresh_tokens d) r"
  obtains s d1 d2 p row where "rotate L t e tok d = (Inr s, d2)"
    and "session_family s = token_family r" and "session_user s = token_user r"
    and "refresh_secret (session_refresh s) = refresh_secret_of b"
    and "new_access_token (jwt L) t (uuid_string L (token_user r)) (go_now e AccessClock) = Inr (session_access s)"
    and "consume_refresh_token (db_now e BeginTx) (hash_refresh_token tok) d = (Inr (mark_used (db_now e BeginTx) r), d1)"
    and "insert_refresh_token (db_now e BeginTx) (row_id e RefreshTokensTable) p d1 = (Inr row, d2)"
    and "p = \<lparr>param_user = token_user r, param_family = token_family r,
             param_hash = hash_refresh_token (refresh_secret_of b),
             param_expires = to_micros (go_now e RefreshClock + refresh_token_ttl)\<rparr>"
proof -
  let ?h = "hash_refresh_token tok" and ?T = "refresh_tokens d" and ?now = "db_now e BeginTx"
  have wf: "tokens_wf d" and ch: "chains_ok d" using ok by (simp_all add: sessions_ok_def)
  obtain c d1 where c: "consume_refresh_token ?now ?h d = (Inr c, d1)"
    using r by (cases "consume_refresh_token ?now ?h d", cases "fst (consume_refresh_token ?now ?h d)")
      (auto simp: consume_Inl)
  obtain r' where r': "r' \<in> set ?T" "consumable ?now ?h ?T r'" "c = mark_used ?now r'" "users d1 = users d"
    using c wf ch by (metis consume_family_rows)
  then have "r' = r" using same_hash_same_row [OF wf r'(1) r(1)] r(2) by (simp add: consumable_def)
  with r' have cr: "c = mark_used ?now r" by simp
  have "token_user r \<in> user_id ` set (users d1)" using wf r(1) r'(4) by (simp add: tokens_wf_def)
  then show thesis
    using c cr
    by (elim mint_faultless [OF e L fresh_draws_consume [OF c fresh], where t = t and fam = "token_family r" and now = ?now])
      (rule that, rule rotate_faultless_ok [OF e c], use fresh in
        \<open>auto simp: insert_Inr fresh_draws_def dest: fresh_draws_consume elim: mint_Inr\<close>)
qed

lemma rotate_refines_spec:
  assumes e: "faultless e" and L: "libs_documented L" and ok: "sessions_ok d" and fresh: "fresh_draws e b d"
  shows "map_prod outcome_of registry_of (rotate L t e tok d)
    = map_prod Some id (spec_rotate (db_now e BeginTx) (db_now e IsBenignRefreshRace) (hash_refresh_token tok)
        (hash_refresh_token (refresh_secret_of b)) (to_micros (go_now e RefreshClock + refresh_token_ttl))
        (registry_of d))"
proof -
  let ?h = "hash_refresh_token tok" and ?T = "refresh_tokens d" and ?now = "db_now e BeginTx"
  have wf: "tokens_wf d" and ch: "chains_ok d" using ok by (simp_all add: sessions_ok_def)
  show ?thesis
  proof (cases "?h \<in> token_hash ` set ?T")
    case False
    note u = judge_unknown [OF False]
    show ?thesis
      using rotate_faultless_fails [OF e u(1), of L t] u(2,3)
      by (simp add: diagnose_failed_consume_def faultlessD [OF e] query_def spec_rotate_def)
  next
    case True
    then obtain r where r: "r \<in> set ?T" "token_hash r = ?h" by auto
    have owner: "owners (registry_of d) ?h = Some (token_family r)"
      using owner_of_row [OF wf r(1)] r(2) by (simp add: registry_of_def)
    note fails = rotate_faultless_fails [OF e consume_blocked [OF wf r]] and diag = diagnose_row [OF e wf r(1), unfolded r(2)]
    show ?thesis
    proof (cases "used_at r = None")
      case False
      then obtain s where s: "fams (registry_of d) (token_family r) = Some s" "current_hash s \<noteq> ?h"
        and b: "is_benign_refresh_race (db_now e IsBenignRefreshRace) (used_at r) (trunc_seconds reuse_grace)
          (token_family r) d = Some True \<longleftrightarrow> just_replaced (db_now e IsBenignRefreshRace) ?h s"
        using judge_spent [OF wf ch r(1), of "db_now e IsBenignRefreshRace"] r(2) by auto
      show ?thesis
        using fails [of L t] False diag s b owner by (simp add: spec_rotate_def registry_revoke_family)
    next
      case unused: True
      then obtain s where s: "fams (registry_of d) (token_family r) = Some s" "current_hash s = ?h"
        and live: "live_at ?now s \<longleftrightarrow> ?now < expires_at r \<and> \<not> family_revoked ?T (token_family r)"
        using judge_current [OF ch r(1)] r(2) by metis
      show ?thesis
      proof (cases "live_at ?now s")
        case False
        then show ?thesis using fails [of L t] live diag unused s owner by (simp add: spec_rotate_def not_less)
      next
        case True
        have "revoked_at r = None" using True live r(1) by (auto simp: family_revoked_def list_ex_iff)
        then have "consumable ?now ?h ?T r" using True live unused r(2) by (simp add: consumable_def)
        then obtain ss d1 d2 p row where run: "rotate L t e tok d = (Inr ss, d2)"
          "session_family ss = token_family r" "session_user ss = token_user r"
          and c: "consume_refresh_token ?now ?h d = (Inr (mark_used ?now r), d1)"
          and i: "insert_refresh_token ?now (row_id e RefreshTokensTable) p d1 = (Inr row, d2)"
          and p: "p = \<lparr>param_user = token_user r, param_family = token_family r,
             param_hash = hash_refresh_token (refresh_secret_of b),
             param_expires = to_micros (go_now e RefreshClock + refresh_token_ttl)\<rparr>"
          by (metis rotate_granted [OF e L ok fresh r(1)])
        have "\<exists>s'. fams (registry_of d) (token_family r) = Some s' \<and> holder s' = token_user r
            \<and> registry_of d2 = (registry_of d)\<lparr>fams := (fams (registry_of d))(token_family r \<mapsto>
              advance ?now (param_hash p) (param_expires p) s'),
              owners := (owners (registry_of d))(param_hash p \<mapsto> token_family r)\<rparr>"
          using registry_advance [OF c i _ _ wf ch] p by auto
        then show ?thesis using run s p owner True by (auto simp: spec_rotate_def)
      qed
    qed
  qed
qed

section \<open>Runs\<close>

fun op_env :: "session_op \<Rightarrow> env" where
  "op_env (OpIssue e u) = e"
| "op_env (OpRotate e tok) = e"
| "op_env (OpRevokeFamily e f) = e"
| "op_env (OpRevokeAll e u) = e"
| "op_env (OpRevokeByToken e tok) = e"

text \<open>The hash and the expiry of the token a request draws.\<close>

definition drawn_hash :: "env \<Rightarrow> string" where
  "drawn_hash e = (case random_bytes e of None \<Rightarrow> [] | Some b \<Rightarrow> hash_refresh_token (refresh_secret_of b))"

definition drawn_until :: "env \<Rightarrow> micros" where
  "drawn_until e = to_micros (go_now e RefreshClock + refresh_token_ttl)"

fun answered :: "session_error + 'a \<Rightarrow> outcome option" where
  "answered (Inr x) = None"
| "answered (Inl err) = Some Refused"

fun session_answer :: "libs \<Rightarrow> token_issuer \<Rightarrow> session_op \<Rightarrow> db \<Rightarrow> outcome option \<times> db" where
  "session_answer L t (OpIssue e u) d = map_prod outcome_of id (issue L t e u d)"
| "session_answer L t (OpRotate e tok) d = map_prod outcome_of id (rotate L t e tok d)"
| "session_answer L t (OpRevokeFamily e f) d = map_prod answered id (revoke_family e f d)"
| "session_answer L t (OpRevokeAll e u) d = map_prod answered id (revoke_all_for_user e u d)"
| "session_answer L t (OpRevokeByToken e tok) d = map_prod answered id (revoke_by_token e tok d)"

fun spec_step :: "session_op \<Rightarrow> registry \<Rightarrow> outcome option \<times> registry" where
  "spec_step (OpIssue e u) reg = (Some (Granted (fresh_uuid e) u),
     spec_issue (db_now e InsertRefreshToken) u (fresh_uuid e) (drawn_hash e) (drawn_until e) reg)"
| "spec_step (OpRotate e tok) reg = map_prod Some id
     (spec_rotate (db_now e BeginTx) (db_now e IsBenignRefreshRace) (hash_refresh_token tok)
       (drawn_hash e) (drawn_until e) reg)"
| "spec_step (OpRevokeFamily e f) reg = (None, end_family f reg)"
| "spec_step (OpRevokeAll e u) reg = (None, spec_end_all u reg)"
| "spec_step (OpRevokeByToken e tok) reg = (None, spec_logout (hash_refresh_token tok) reg)"

text \<open>
  A calm operation: no statement fails, what it draws is new, and a sign-in is of a user the
  database has.
\<close>

definition calm_op :: "session_op \<Rightarrow> db \<Rightarrow> bool" where
  "calm_op a d \<longleftrightarrow> faultless (op_env a) \<and> session_guard a d
    \<and> (case a of
         OpIssue e u \<Rightarrow> (\<exists>b. fresh_draws e b d) \<and> u \<in> user_id ` set (users d)
       | OpRotate e tok \<Rightarrow> (\<exists>b. fresh_draws e b d)
       | _ \<Rightarrow> True)"

lemma session_answer_step: "snd (session_answer L t a d) = session_step L t a d"
  by (cases a) (simp_all add: map_prod_def split_beta)

lemma revoke_by_token_refines:
  assumes "faultless e" and "tokens_wf d"
  shows "fst (revoke_by_token e tok d) = Inr ()"
    and "registry_of (snd (revoke_by_token e tok d)) = spec_logout (hash_refresh_token tok) (registry_of d)"
proof -
  let ?h = "hash_refresh_token tok" and ?now = "db_now e RevokeRefreshTokenFamily"
  have "revoke_by_token e tok d = (case get_refresh_token_by_hash ?h d of Inl err \<Rightarrow> (Inr (), d)
      | Inr r \<Rightarrow> (Inr (), snd (revoke_refresh_token_family ?now (token_family r) d)))"
    using assms(1) by (auto simp: revoke_by_token_def faultlessD query_def get_refresh_token_by_hash_def
        revoke_refresh_token_family_def revoke_where_def Let_def split: option.splits)
  moreover have "owners (registry_of d) ?h = (case get_refresh_token_by_hash ?h d of Inl err \<Rightarrow> None
      | Inr r \<Rightarrow> Some (token_family r))"
    by (auto simp: registry_of_def owner_of_def get_refresh_token_by_hash_def split: option.splits)
  ultimately show "fst (revoke_by_token e tok d) = Inr ()"
    and "registry_of (snd (revoke_by_token e tok d)) = spec_logout ?h (registry_of d)"
    by (auto simp: spec_logout_def registry_revoke_family split: sum.splits)
qed

lemma issue_refines:
  assumes e: "faultless e" and L: "libs_documented L" and fresh: "fresh_draws e b d" and u: "u \<in> user_id ` set (users d)"
    and f: "fresh_uuid e \<notin> token_family ` set (refresh_tokens d)"
  shows "map_prod outcome_of registry_of (issue L t e u d) = spec_step (OpIssue e u) (registry_of d)"
proof -
  let ?p = "\<lparr>param_user = u, param_family = fresh_uuid e, param_hash = hash_refresh_token (refresh_secret_of b),
     param_expires = to_micros (go_now e RefreshClock + refresh_token_ttl)\<rparr>"
    and ?now = "db_now e InsertRefreshToken" and ?i = "row_id e RefreshTokensTable"
  obtain s where m: "mint L t e ?now u (fresh_uuid e) d =
      (Inr s, d\<lparr>refresh_tokens := refresh_tokens d @ [new_row ?now ?i ?p]\<rparr>)"
    and s: "session_family s = fresh_uuid e" "session_user s = u"
    using mint_faultless [OF e L fresh u] by metis
  have "insert_refresh_token ?now ?i ?p d =
      (Inr (new_row ?now ?i ?p), d\<lparr>refresh_tokens := refresh_tokens d @ [new_row ?now ?i ?p]\<rparr>)"
    using fresh u by (simp add: insert_Inr fresh_draws_def)
  from registry_start [OF this] show ?thesis
    using m s f fresh by (simp add: issue_def drawn_hash_def drawn_until_def fresh_draws_def)
qed

lemma calm_step_refines:
  assumes L: "libs_documented L" and ok: "sessions_ok d" and calm: "calm_op a d"
  shows "map_prod id registry_of (session_answer L t a d) = spec_step a (registry_of d)"
proof (cases a)
  case (OpIssue e u)
  then obtain b where "fresh_draws e b d" "u \<in> user_id ` set (users d)" "faultless e"
    "fresh_uuid e \<notin> token_family ` set (refresh_tokens d)"
    using calm by (auto simp: calm_op_def session_guard_def)
  from issue_refines [OF this(3) L this(1,2,4)] show ?thesis by (simp add: OpIssue prod.map_comp o_def)
next
  case (OpRotate e tok)
  then obtain b where b: "fresh_draws e b d" "faultless e" using calm by (auto simp: calm_op_def)
  from rotate_refines_spec [OF b(2) L ok b(1)] b show ?thesis
    by (simp add: OpRotate prod.map_comp o_def drawn_hash_def drawn_until_def fresh_draws_def)
next
  case (OpRevokeFamily e f)
  then have "faultless e" using calm by (simp add: calm_op_def)
  then show ?thesis
    using registry_revoke_family [of "db_now e RevokeRefreshTokenFamily" f d]
    by (simp add: OpRevokeFamily revoke_family_def faultlessD revoke_refresh_token_family_def revoke_where_def Let_def)
next
  case (OpRevokeAll e u)
  then have "faultless e" using calm by (simp add: calm_op_def)
  then show ?thesis
    using registry_revoke_user [of d "db_now e RevokeRefreshTokensForUser" u] ok
    by (simp add: OpRevokeAll revoke_all_for_user_def faultlessD revoke_refresh_tokens_for_user_def revoke_where_def
        Let_def sessions_ok_def)
next
  case (OpRevokeByToken e tok)
  then have "faultless e" "tokens_wf d" using calm ok by (simp_all add: calm_op_def sessions_ok_def)
  from revoke_by_token_refines [OF this, of tok] show ?thesis
    by (cases "revoke_by_token e tok d") (simp add: OpRevokeByToken)
qed

text \<open>The service is an instance of the interface, with the table read as a registry.\<close>

interpretation refine: simulation "session_answer L t" spec_step registry_of calm_op "\<lambda>d. sessions_ok d \<and> libs_documented L"
  for L t
  by unfold_locales (auto simp: calm_step_refines session_answer_step calm_op_def sess.inv_step)

end
