(* ===== verification/Reference.thy ===== *)
theory Reference
  imports Session_Spec Sha256_Vectors
begin

text \<open>
  Concrete libraries, requests and databases for the witnesses: the JWT library of Jwt with
  uuids written in binary, requests without faults, one user with one sign-in. The digests
  are of ''abc'' and of the secrets two constant random sources yield, evaluated in the kernel.
\<close>

section \<open>Libraries\<close>

definition binary_uuid :: "uuid \<Rightarrow> string" where
  "binary_uuid u = map (\<lambda>i. if bit u i then CHR ''1'' else CHR ''0'') [0..<128]"

definition parse_binary_uuid :: "string \<Rightarrow> uuid option" where
  "parse_binary_uuid s = (if length s = 128 then Some (horner_sum of_bool 2 (map (\<lambda>c. c = CHR ''1'') s)) else None)"

lemma parse_binary_round: "parse_binary_uuid (binary_uuid u) = Some u"
proof -
  have "map (\<lambda>c. c = CHR ''1'') (binary_uuid u) = map (bit u) [0..<128]"
    by (simp add: binary_uuid_def o_def)
  then have "horner_sum of_bool 2 (map (\<lambda>c. c = CHR ''1'') (binary_uuid u)) = take_bit 128 u"
    by (simp only: horner_sum_bit_eq_take_bit)
  also have "take_bit 128 u = u" by (intro bit_word_eqI) (simp add: bit_take_bit_iff)
  finally show ?thesis by (simp add: parse_binary_uuid_def binary_uuid_def)
qed

definition reference_libs :: libs where
  "reference_libs = \<lparr>jwt = reference_jwt, uuid_string = binary_uuid, uuid_parse = parse_binary_uuid\<rparr>"

lemma reference_libs_documented: "libs_documented reference_libs"
proof -
  have "binary_uuid u \<noteq> []" for u by (simp add: binary_uuid_def)
  then show ?thesis
    by (simp add: libs_documented_def uuid_documented_def reference_libs_def reference_jwt_documented parse_binary_round)
qed

definition reference_issuer :: token_issuer where
  "reference_issuer = \<lparr>signing_key = replicate 32 0\<rparr>"

section \<open>Requests\<close>

text \<open>A request at one moment, in microseconds, with a constant random source.\<close>

definition calm_env :: "micros \<Rightarrow> u8 \<Rightarrow> uuid \<Rightarrow> env" where
  "calm_env t b i = \<lparr>fault_at = (\<lambda>_. NoFault), db_now = (\<lambda>_. t), go_now = (\<lambda>_. 1000 * t),
     random_bytes = Some (\<lambda>_. b), fresh_uuid = i, row_id = (\<lambda>_. i)\<rparr>"

lemma calm_env_simps [simp]:
  "faultless (calm_env t b i)" "db_now (calm_env t b i) op = t" "go_now (calm_env t b i) c = 1000 * t"
  "random_bytes (calm_env t b i) = Some (\<lambda>_. b)" "fresh_uuid (calm_env t b i) = i" "row_id (calm_env t b i) tn = i"
  "fault_at (calm_env t b i) op = NoFault"
  by (simp_all add: calm_env_def faultless_def)

section \<open>A database\<close>

definition sample_user :: user_row where
  "sample_user = \<lparr>user_id = 1, display_name = ''Ada'', email = ''ada@example.org'', email_verified = True,
     avatar_url = None, user_created_at = 0, user_updated_at = 0, user_deleted_at = None\<rparr>"

text \<open>One family, number 5: its first token expires after a second.\<close>

definition sample_token :: "string \<Rightarrow> refresh_token" where
  "sample_token h = \<lparr>token_id = 2, token_user = 1, token_family = 5, token_hash = h, issued_at = 0,
     expires_at = 1000000, used_at = None, revoked_at = None\<rparr>"

definition sample_db :: "string \<Rightarrow> db" where
  "sample_db h = \<lparr>users = [sample_user], identities = [], refresh_tokens = [sample_token h]\<rparr>"

lemma sample_ok: "sessions_ok (sample_db h)"
  by (simp add: sessions_ok_def tokens_wf_def chains_ok_def sample_db_def sample_token_def sample_user_def
      family_rows_def)

section \<open>Three digests\<close>

lemma secret_zero: "refresh_secret_of (\<lambda>_. 0) = ''AAAAAAAAAAAAAAAAAAAAAAAAAAAAAAAAAAAAAAAAAAA''"
  by code_simp

lemma secret_one: "refresh_secret_of (\<lambda>_. 1) = ''AQEBAQEBAQEBAQEBAQEBAQEBAQEBAQEBAQEBAQEBAQE''"
  by code_simp

lemma hash_secret_zero: "hash_refresh_token ''AAAAAAAAAAAAAAAAAAAAAAAAAAAAAAAAAAAAAAAAAAA'' =
  ''0f007385b6f9d4b7eeb2748605afe1a984a0a3bfa3f014d09e2a784ce9e5cd1a''"
  by code_simp

lemma hash_secret_one: "hash_refresh_token ''AQEBAQEBAQEBAQEBAQEBAQEBAQEBAQEBAQEBAQEBAQE'' =
  ''56d5fa7333f6d747db42c239407e5da4c32f4c79f35d092b134fd35a402d9c5c''"
  by code_simp

lemma hash_abc: "hash_refresh_token ''abc'' = ''ba7816bf8f01cfea414140de5dae2223b00361a396177a9cb410ff61f20015ad''"
proof -
  have "bytes_of ''abc'' = [0x61, 0x62, 0x63]" by code_simp
  then have "hash_refresh_token ''abc'' = hex_encode [0xba, 0x78, 0x16, 0xbf, 0x8f, 0x01, 0xcf, 0xea, 0x41, 0x41,
      0x40, 0xde, 0x5d, 0xae, 0x22, 0x23, 0xb0, 0x03, 0x61, 0xa3, 0x96, 0x17, 0x7a, 0x9c, 0xb4, 0x10, 0xff, 0x61,
      0xf2, 0x00, 0x15, 0xad]"
    by (simp only: hash_refresh_token_def sha256_abc)
  also have "\<dots> = ''ba7816bf8f01cfea414140de5dae2223b00361a396177a9cb410ff61f20015ad''" by code_simp
  finally show ?thesis .
qed

text \<open>Presenting ''abc'' against the sample and drawing the zero secret.\<close>

lemma sample_fresh: "i \<noteq> 2 \<Longrightarrow> fresh_draws (calm_env t 0 i) (\<lambda>_. 0) (sample_db (hash_refresh_token ''abc''))"
  by (simp add: fresh_draws_def sample_db_def sample_token_def hash_abc secret_zero hash_secret_zero)

end
