(* ===== verification/Account_Theorems.thy ===== *)
theory Account_Theorems
  imports Reference Accounts "HOL-Library.Multiset"
begin

text \<open>
  The properties of account provisioning: who a sign-in ends up as, what linking requires,
  that users are never merged, lost or rewritten, and what a failed provisioning leaves.
\<close>

section \<open>Provisioning as a transition system\<close>

datatype account_op = OpProvision env identity

fun account_step :: "pg \<Rightarrow> libs \<Rightarrow> account_op \<Rightarrow> db \<Rightarrow> db" where
  "account_step g L (OpProvision e i) d = snd (snd (provision g L e i d))"

interpretation acct: transition_system "account_step g L" "\<lambda>_ _. True" "accounts_wf g" for g L
  by unfold_locales (metis account_step.elims provision_wf)

text \<open>No relay address is ever marked verified: a predicate no provisioning undoes.\<close>

definition relay_unverified :: "db \<Rightarrow> bool" where
  "relay_unverified d \<longleftrightarrow> (\<forall>u \<in> set (users d). email_verified u \<longrightarrow> \<not> is_private_relay (email u))"

lemma relay_same_core: "map user_core (users d') = map user_core (users d) \<Longrightarrow> relay_unverified d' = relay_unverified d"
proof -
  have "relay_unverified d \<longleftrightarrow> (\<forall>(i, e, v, c, x) \<in> set (map user_core (users d)). v \<longrightarrow> \<not> is_private_relay e)" for d
    by (auto simp: relay_unverified_def user_core_def)
  then show "map user_core (users d') = map user_core (users d) \<Longrightarrow> ?thesis" by (simp only:)
qed

lemma provision_tx_relay:
  assumes "provision_tx g L e i w = (Inr u, w')" and "relay_unverified (world_db w)"
  shows "relay_unverified (world_db w')"
  using assms(1)
proof (cases rule: provision_tx_Inr)
  case (returning v)
  then show ?thesis using assms(2) relay_same_core update_profile_core by metis
next
  case (linked v r d1)
  then have "users d1 = users (world_db w)" by (auto simp: create_identity_Inr)
  then show ?thesis using linked(5) assms(2) relay_same_core update_profile_core by metis
next
  case (created r d1)
  then show ?thesis using assms(2) by (auto simp: relay_unverified_def create_user_Inr create_identity_Inr)
qed

interpretation relay: stable_predicate "account_step g L" "\<lambda>_ _. True" "accounts_wf g" relay_unverified for g L
proof
  fix s a assume r: "relay_unverified s"
  obtain e i where a: "a = OpProvision e i" by (cases a)
  obtain x logs d' where p: "provision g L e i s = (x, logs, d')" by (cases "provision g L e i s")
  show "relay_unverified (account_step g L a s)"
    using provision_outcome [OF p] r provision_tx_relay [of g L e i "\<lparr>world_db = s, world_log = []\<rparr>"] by (auto simp: a p)
qed

section \<open>A sample\<close>

text \<open>Case-insensitive addresses, binary collation.\<close>

definition sample_pg :: pg where
  "sample_pg = \<lparr>citext_fold = to_lower, collation_key = (\<lambda>s. s)\<rparr>"

definition sample_identity :: "string \<Rightarrow> identity" where
  "sample_identity p = \<lparr>id_provider = p, id_subject = ''s1'', id_email = ''a@b'', id_email_verified = True,
     id_name = ''Ada'', id_picture = []\<rparr>"

definition ada :: user_row where
  "ada = \<lparr>user_id = 1, display_name = ''Ada'', email = ''a@b'', email_verified = True, avatar_url = None,
     user_created_at = 5, user_updated_at = 5, user_deleted_at = None\<rparr>"

definition ada_link :: "string \<Rightarrow> uuid \<Rightarrow> micros \<Rightarrow> identity_row" where
  "ada_link p i t = \<lparr>identity_id = i, identity_user = 1, identity_provider = p, identity_subject = ''s1'',
     identity_created_at = t, identity_updated_at = t\<rparr>"

definition ada_db :: db where
  "ada_db = \<lparr>users = [ada], identities = [ada_link ''google'' 1 5], refresh_tokens = []\<rparr>"

lemma not_relay: "\<not> is_private_relay ''a@b''"
  by code_simp

lemma sample_created:
  "provision sample_pg reference_libs (calm_env 5 0 1) (sample_identity ''google'') empty_db =
     (Inr ada, [info ''created an account'' [(''user_id'', AString (binary_uuid 1)), (''provider'', AString ''google''),
        (''email_verified'', ABool True)]], ada_db)"
  by (simp add: provision_def begin_tx_def commit_tx_def provision_tx_def run_sql_def query_def get_user_by_identity_def
      one_row_def empty_db_def link_target_def sample_identity_def not_relay get_verified_user_by_email_def create_def
      create_user_def create_identity_def new_user_def new_identity_def display_name_of_def optional_def add_log_def
      reference_libs_def ada_def ada_link_def ada_db_def)

lemma sample_linked:
  "provision sample_pg reference_libs (calm_env 6 0 2) (sample_identity ''apple'') ada_db =
     (Inr ada, [warn ''linked a new provider to an existing account'' [(''user_id'', AString (binary_uuid 1)),
        (''added'', AString ''apple:s1''), (''identities'', AStrings [''apple:s1'', ''google:s1''])]],
      ada_db\<lparr>identities := [ada_link ''google'' 1 5, ada_link ''apple'' 2 6]\<rparr>)"
proof -
  have less: "''apple'' \<le> (''google'' :: string)" "\<not> ''google'' \<le> (''apple'' :: string)" by code_simp+
  show ?thesis
    using less
    by (simp add: provision_def begin_tx_def commit_tx_def provision_tx_def run_sql_def query_def get_user_by_identity_def
      one_row_def link_target_def sample_identity_def not_relay get_verified_user_by_email_def link_def is_identity_def
      create_identity_def new_identity_def display_name_of_def optional_def add_log_def refresh_profile_def
      list_identity_subjects_for_user_def sample_pg_def same_email_def identity_label_def
      reference_libs_def ada_def ada_link_def ada_db_def)
qed


text \<open>
  An address is never asked to be one. Two people whose providers send no email but the mark
  email_verified end up as one account: the second is linked to the first by the empty address.
\<close>

lemma empty_address_links:
  assumes "provision g reference_libs (calm_env 5 0 1) (sample_identity ''google''\<lparr>id_email := []\<rparr>) empty_db = (Inr u, logs, d)"
  shows "\<exists>v logs' d'. provision g reference_libs (calm_env 6 0 2) (sample_identity ''apple''\<lparr>id_subject := ''someone else'', id_email := []\<rparr>) d = (Inr v, logs', d') \<and> user_id v = user_id u"
proof -
  have relay: "\<not> is_private_relay []" by code_simp
  show ?thesis using assms
    by (auto simp: provision_def begin_tx_def commit_tx_def provision_tx_def run_sql_def query_def get_user_by_identity_def
      one_row_def empty_db_def link_target_def sample_identity_def relay get_verified_user_by_email_def create_def same_email_def link_def refresh_profile_def list_identity_subjects_for_user_def
      create_user_def create_identity_def new_user_def new_identity_def display_name_of_def optional_def add_log_def is_identity_def update_user_profile_def Let_def)
qed

section \<open>Who a sign-in is\<close>

lemma owner_is_user: "owns_identity d p s v \<Longrightarrow> v \<in> set (users d) \<and> user_deleted_at v = None"
  by (simp add: owns_identity_def)

text \<open>In a consistent database an identity has at most one owner.\<close>

lemma owner_unique:
  assumes "accounts_wf g d" and "owns_identity d p s u" and "owns_identity d p s v"
  shows "u = v"
proof -
  obtain r q where "r \<in> set (identities d)" "identity_user r = user_id u" "is_identity p s r"
    "q \<in> set (identities d)" "identity_user q = user_id v" "is_identity p s q"
    using assms(2,3) by (auto simp: owns_identity_def list_ex_iff)
  moreover from this have "r = q"
    using assms(1) by (intro distinct_key_unique [of identity_key]) (auto simp: accounts_wf_def is_identity_def identity_key_def)
  ultimately have "user_id u = user_id v" by simp
  then show ?thesis
    using assms by (intro distinct_key_unique [of user_id "users d"]) (auto simp: accounts_wf_def owns_identity_def)
qed

text \<open>
  C4. No account takeover. A sign-in whose identity no account has yet ends up as an existing
  account only where the incoming provider verified the email, the address is no private
  relay, and the account's own email was verified and is the same address; otherwise the
  account is one that did not exist before.
\<close>

theorem linking_requires_both_verified:
  assumes "provision g L e i d = (Inr u, logs, d')"
    and "\<forall>v. \<not> owns_identity d (id_provider i) (id_subject i) v"
    and "user_id u \<in> user_id ` set (users d)"
  shows "\<exists>v \<in> set (users d). user_id v = user_id u \<and> id_email_verified i \<and> \<not> is_private_relay (id_email i)
    \<and> email_verified v \<and> same_email g (email v) (id_email i) \<and> user_deleted_at v = None"
proof -
  obtain w where run: "provision_tx g L e i \<lparr>world_db = d, world_log = []\<rparr> = (Inr u, w)"
    using assms(1) by (rule provision_Inr)
  from run show ?thesis
  proof (cases rule: provision_tx_Inr)
    case (returning v)
    then show ?thesis using assms(2) by simp
  next
    case (linked v r d1)
    have "user_id v = user_id u" using linked(5) by (auto dest: update_profile_core)
    then show ?thesis using linked(2,3) by (auto simp: may_link_def)
  next
    case (created r d1)
    then show ?thesis using assms(3) by (simp add: create_user_Inr)
  qed
qed

theorem linking_requires_both_verified_witness:
  "\<exists>v \<in> set (users ada_db). user_id v = 1 \<and> id_email_verified (sample_identity ''apple'')
    \<and> \<not> is_private_relay (id_email (sample_identity ''apple'')) \<and> email_verified v
    \<and> same_email sample_pg (email v) (id_email (sample_identity ''apple'')) \<and> user_deleted_at v = None"
proof -
  have "\<forall>v. \<not> owns_identity ada_db ''apple'' ''s1'' v"
    by (simp add: owns_identity_def ada_db_def ada_link_def is_identity_def)
  then show ?thesis
    using linking_requires_both_verified [OF sample_linked] by (simp add: sample_identity_def ada_db_def ada_def)
qed

text \<open>What a sign-in with a known identity does.\<close>

lemma known_account:
  assumes "accounts_wf g d" and "owns_identity d (id_provider i) (id_subject i) v"
    and "provision g L e i d = (Inr u, logs, d')"
  shows "user_core u = user_core v \<and> map user_core (users d') = map user_core (users d)
    \<and> identities d' = identities d \<and> logs = []
    \<and> display_name u = display_name_of i \<and> avatar_url u = optional (id_picture i)"
proof -
  obtain w where run: "provision_tx g L e i \<lparr>world_db = d, world_log = []\<rparr> = (Inr u, w)" and w: "d' = world_db w" "logs = world_log w"
    using assms(3) by (rule provision_Inr)
  let ?w = "\<lparr>world_db = d, world_log = []\<rparr>"
  let ?q = "query (get_user_by_identity (id_provider i) (id_subject i))"
  obtain x w1 where x: "run_sql (fault_at e GetUserByIdentity) ?q ?w = (x, w1)"
    by (cases "run_sql (fault_at e GetUserByIdentity) ?q ?w")
  note q = run_query [OF x]
  have "x \<noteq> Inl NoRows" using q assms(2) by (auto simp: get_user_by_identity_None)
  then obtain y where y: "x = Inr y" using run x by (cases x) (auto simp: provision_tx_def split: sql_error.splits)
  then have "owns_identity d (id_provider i) (id_subject i) y" using q by (auto intro: get_user_by_identity_Inr)
  then have yv: "y = v" using owner_unique [OF assms(1)] assms(2) by blast
  then have ref: "refresh_profile e v i ?w = (Inr u, w)" using run x y q by (simp add: provision_tx_def)
  show ?thesis
  proof (cases "display_name_of i = display_name v \<and> optional (id_picture i) = avatar_url v")
    case True
    then show ?thesis using ref w by (auto simp: refresh_profile_def)
  next
    case False
    then have upd: "update_user_profile (db_now e BeginTx) (user_id v) (display_name_of i) (optional (id_picture i)) d
        = (Inr u, d')" and logs: "world_log w = []"
      using ref w by (auto simp: refresh_profile_def Let_def map_prod_def split: if_splits prod.splits dest!: run_sql_Inr)
    from upd have "\<exists>z \<in> set (users d). user_id z = user_id v \<and> user_core u = user_core z" by (auto dest: update_profile_core)
    moreover have "z = v" if "z \<in> set (users d)" "user_id z = user_id v" for z
      using that assms(1,2) by (intro distinct_key_unique [of user_id "users d"]) (auto simp: accounts_wf_def owns_identity_def)
    ultimately show ?thesis using update_profile_core [OF upd] logs w by auto
  qed
qed

text \<open>
  C21. The identity key. A sign-in with a provider and subject an account already has is that
  account, whatever email it carries: no account and no identity is added, and the account's
  email and its verified mark stay as they were.
\<close>

theorem known_identity_keeps_its_account:
  assumes "accounts_wf g d" and "owns_identity d (id_provider i) (id_subject i) v"
    and "provision g L e i d = (Inr u, logs, d')"
  shows "user_core u = user_core v \<and> map user_core (users d') = map user_core (users d)
    \<and> identities d' = identities d \<and> logs = []
    \<and> display_name u = display_name_of i \<and> avatar_url u = optional (id_picture i)"
  by (rule known_account [OF assms])

lemma ada_wf: "accounts_wf sample_pg ada_db"
  by (simp add: accounts_wf_def verified_emails_def ada_db_def ada_def ada_link_def)

lemma sample_returns:
  "provision sample_pg reference_libs (calm_env 7 0 3) (sample_identity ''google''\<lparr>id_email := ''other'', id_name := ''Eve''\<rparr>) ada_db
    = (Inr (ada\<lparr>display_name := ''Eve'', user_updated_at := 7\<rparr>), [],
       ada_db\<lparr>users := [ada\<lparr>display_name := ''Eve'', user_updated_at := 7\<rparr>]\<rparr>)"
  by (simp add: provision_def begin_tx_def commit_tx_def provision_tx_def run_sql_def query_def get_user_by_identity_def
      one_row_def sample_identity_def is_identity_def display_name_of_def optional_def refresh_profile_def
      update_user_profile_def set_profile_def ada_def ada_link_def ada_db_def Let_def)

theorem known_identity_keeps_its_account_witness:
  "user_core (ada\<lparr>display_name := ''Eve'', user_updated_at := 7\<rparr>) = user_core ada
    \<and> display_name (ada\<lparr>display_name := ''Eve'', user_updated_at := 7\<rparr>)
        = display_name_of (sample_identity ''google''\<lparr>id_email := ''other'', id_name := ''Eve''\<rparr>)"
proof -
  have "owns_identity ada_db (id_provider (sample_identity ''google''\<lparr>id_email := ''other'', id_name := ''Eve''\<rparr>))
      (id_subject (sample_identity ''google''\<lparr>id_email := ''other'', id_name := ''Eve''\<rparr>)) ada"
    by (simp add: owns_identity_def ada_db_def ada_def ada_link_def is_identity_def sample_identity_def)
  from known_identity_keeps_its_account [OF ada_wf this sample_returns] show ?thesis by simp
qed

text \<open>
  C30. Users are never merged, lost or rewritten. Whatever a provisioning does and whatever
  fails in it, no refresh token is touched, and the account tables change in one of four ways:
  not at all; the account of this very identity has its profile (name, picture, time of update)
  set to the provider's; the identity is added to one account that it may be linked to, whose
  profile alone may be set; or one new account with the identity's address is added with this
  identity. Every other row of users and identities is as it was.
\<close>

theorem provisioning_only_adds:
  "let d' = snd (snd (provision g L e i d));
       refreshed = (\<lambda>v. update_where (\<lambda>w. user_id w = user_id v)
         (set_profile (db_now e BeginTx) (display_name_of i) (optional (id_picture i))) (users d));
       known = (\<lambda>v. owns_identity d (id_provider i) (id_subject i) v);
       gives = (\<lambda>v. \<exists>r. identities d' = identities d @ [r] \<and> is_identity (id_provider i) (id_subject i) r \<and> identity_user r = user_id v)
   in refresh_tokens d' = refresh_tokens d
     \<and> (users d' = users d \<and> identities d' = identities d
      \<or> (\<exists>v. known v \<and> users d' = refreshed v \<and> identities d' = identities d)
      \<or> (\<forall>v. \<not> known v) \<and> (\<exists>v \<in> set (users d). may_link g i v \<and> gives v \<and> (users d' = users d \<or> users d' = refreshed v))
      \<or> (\<forall>v. \<not> known v) \<and> (\<exists>v. user_id v \<notin> user_id ` set (users d) \<and> email v = id_email i
          \<and> (email_verified v \<longleftrightarrow> id_email_verified i \<and> \<not> is_private_relay (id_email i)) \<and> display_name v = display_name_of i
          \<and> avatar_url v = optional (id_picture i) \<and> user_deleted_at v = None \<and> gives v \<and> users d' = users d @ [v]))"
proof -
  obtain r logs d' where run: "provision g L e i d = (r, logs, d')" by (rule prod_cases3)
  from provision_outcome [OF run] consider "d' = d"
    | u w where "provision_tx g L e i \<lparr>world_db = d, world_log = []\<rparr> = (Inr u, w)" "d' = world_db w" by blast
  then show ?thesis
  proof cases
    case 2
    from 2(1) show ?thesis
    proof (cases rule: provision_tx_Inr)
      case (returning v)
      then show ?thesis by (auto simp: run 2(2) Let_def update_user_profile_Inr)
    next
      case (linked v r d1)
      then show ?thesis
        by (auto simp: run 2(2) Let_def update_user_profile_Inr create_identity_Inr is_identity_def intro!: bexI [of _ v])
    next
      case (created r d1)
      then show ?thesis
        by (auto simp: run 2(2) Let_def create_user_Inr create_identity_Inr is_identity_def)
    qed
  qed (simp add: run Let_def)
qed

text \<open>
  The invariant of the account tables. Over any sequence of sign-ins, whatever fails: ids
  are unique, a verified address belongs to one account, an identity to one account that
  exists, and no private relay address is marked verified.
\<close>

theorem provisioning_keeps_tables:
  assumes "accounts_wf g d" and "relay_unverified d"
  shows "accounts_wf g (run_steps (account_step g L) as d) \<and> relay_unverified (run_steps (account_step g L) as d)"
  using acct.inv_run [OF assms(1)] relay.stable_run [OF assms] by simp

theorem provisioning_keeps_tables_witness:
  "accounts_wf sample_pg (run_steps (account_step sample_pg reference_libs)
      [OpProvision (calm_env 6 0 2\<lparr>fault_at := (\<lambda>_. FailsAfter)\<rparr>) (sample_identity ''apple'')] ada_db)
    \<and> relay_unverified (run_steps (account_step sample_pg reference_libs)
      [OpProvision (calm_env 6 0 2\<lparr>fault_at := (\<lambda>_. FailsAfter)\<rparr>) (sample_identity ''apple'')] ada_db)"
  by (rule provisioning_keeps_tables [OF ada_wf]) (simp add: relay_unverified_def ada_db_def ada_def not_relay)

section \<open>What is logged and what failure leaves\<close>

text \<open>
  The audit line. When a provisioning links an identity to an existing account, one
  warning is logged; it names the account, the identity added, and the identities of the
  account, among them the one added and every one it had.
\<close>

theorem link_is_audited:
  assumes "provision g L e i d = (Inr u, logs, d')"
    and "\<forall>v. \<not> owns_identity d (id_provider i) (id_subject i) v"
    and "user_id u \<in> user_id ` set (users d)"
  shows "\<exists>linked. logs = [warn ''linked a new provider to an existing account''
         [(''user_id'', AString (uuid_string L (user_id u))),
          (''added'', AString (identity_label (id_provider i, id_subject i))),
          (''identities'', AStrings linked)]]
    \<and> mset linked = add_mset (identity_label (id_provider i, id_subject i))
        (mset (map (\<lambda>r. identity_label (identity_provider r, identity_subject r))
          (filter (\<lambda>r. identity_user r = user_id u) (identities d))))"
proof -
  obtain w where run: "provision_tx g L e i \<lparr>world_db = d, world_log = []\<rparr> = (Inr u, w)" and w: "logs = world_log w"
    using assms(1) by (rule provision_Inr)
  from run show ?thesis
  proof (cases rule: provision_tx_Inr)
    case (returning v)
    then show ?thesis using assms(2) by simp
  next
    case (linked v r d1)
    have uv: "user_id v = user_id u" using linked(5) by (auto dest: update_profile_core)
    have d1: "identities d1 = identities d @ [r]" "identity_user r = user_id v" "identity_provider r = id_provider i"
      "identity_subject r = id_subject i" using linked(4) by (auto simp: create_identity_Inr)
    have logs: "logs = [warn ''linked a new provider to an existing account''
               [(''user_id'', AString (uuid_string L (user_id v))),
                (''added'', AString (identity_label (id_provider i, id_subject i))),
                (''identities'', AStrings (map identity_label (projr (list_identity_subjects_for_user g (user_id v) d1))))]]"
      using linked(6) w by simp
    have "mset (map identity_label (projr (list_identity_subjects_for_user g (user_id v) d1)))
        = add_mset (identity_label (id_provider i, id_subject i))
        (mset (map (\<lambda>r. identity_label (identity_provider r, identity_subject r))
          (filter (\<lambda>r. identity_user r = user_id v) (identities d))))"
      by (simp add: list_identity_subjects_for_user_def d1 o_def)
    then show ?thesis using logs uv by auto
  next
    case (created r d1)
    then show ?thesis using assms(3) by (simp add: create_user_Inr)
  qed
qed

text \<open>
  C29. Atomicity. A provisioning that answers an error has left the database as it was, or its
  commit took effect and only the acknowledgement was lost.
\<close>

theorem failed_provisioning_is_atomic:
  assumes "provision g L e i d = (Inl err, logs, d')"
  shows "d' = d \<or> (\<exists>cause u. err = AccountDbFailure ''committing provisioning'' cause
    \<and> provision g L (e\<lparr>fault_at := (fault_at e)(CommitTx := NoFault)\<rparr>) i d = (Inr u, logs, d'))"
proof -
  let ?e = "e\<lparr>fault_at := (fault_at e)(CommitTx := NoFault)\<rparr>"
  have same: "provision_tx g L ?e i w = provision_tx g L e i w" for w
  proof -
    have r: "refresh_profile ?e u i w = refresh_profile e u i w" for u w by (simp add: refresh_profile_def Let_def)
    have "link_target g ?e i w = link_target g e i w" for w by (simp add: link_target_def)
    moreover have "link g L ?e u i w = link g L e u i w" for u w
      by (simp add: link_def r split: sum.split prod.split)
    moreover have "create g L ?e i w = create g L e i w" for w
      by (simp add: create_def Let_def split: sum.split prod.split)
    ultimately show ?thesis by (simp add: provision_tx_def r split: sum.split prod.split sql_error.split option.split)
  qed
  show ?thesis
  proof (cases "d' = d")
    case False
    obtain x tx where b: "exec (fault_at e BeginTx) begin_tx d = (x, tx)" by (cases "exec (fault_at e BeginTx) begin_tx d")
    then have tx: "tx = d" and x: "x = Inr ()"
      using exec_begin_state [OF b] assms False by (auto simp: provision_def split: sum.splits)
    obtain u w where run: "provision_tx g L e i \<lparr>world_db = d, world_log = []\<rparr> = (Inr u, w)"
      using assms b tx x False by (auto simp: provision_def split: sum.splits prod.splits)
    show ?thesis
      using assms False b tx x run exec_commit_state [of "fault_at e CommitTx" "world_db w" d]
      by (auto simp: provision_def same commit_tx_def split: sum.splits prod.splits)
  qed simp
qed

theorem failed_provisioning_is_atomic_witness:
  "ada_db = empty_db \<or> (\<exists>cause u. AccountDbFailure ''committing provisioning'' ConnectionLost = AccountDbFailure ''committing provisioning'' cause
    \<and> provision sample_pg reference_libs (calm_env 5 0 1\<lparr>fault_at := ((\<lambda>_. NoFault)(CommitTx := FailsAfter))(CommitTx := NoFault)\<rparr>)
        (sample_identity ''google'') empty_db =
      (Inr u, [info ''created an account'' [(''user_id'', AString (binary_uuid 1)), (''provider'', AString ''google''),
        (''email_verified'', ABool True)]], ada_db))"
proof -
  have "provision sample_pg reference_libs (calm_env 5 0 1\<lparr>fault_at := (\<lambda>_. NoFault)(CommitTx := FailsAfter)\<rparr>)
      (sample_identity ''google'') empty_db = (Inl (AccountDbFailure ''committing provisioning'' ConnectionLost),
      [info ''created an account'' [(''user_id'', AString (binary_uuid 1)), (''provider'', AString ''google''),
        (''email_verified'', ABool True)]], ada_db)"
    by (simp add: provision_def begin_tx_def commit_tx_def exec_def provision_tx_def run_sql_def query_def get_user_by_identity_def
      one_row_def empty_db_def link_target_def sample_identity_def not_relay get_verified_user_by_email_def create_def
      create_user_def create_identity_def new_user_def new_identity_def display_name_of_def optional_def add_log_def
      reference_libs_def ada_def ada_link_def ada_db_def calm_env_def)
  from failed_provisioning_is_atomic [OF this] show ?thesis by simp
qed


section \<open>Signing in works, except after a deletion\<close>

lemma provision_owner:
  assumes "provision g L e i d = (Inr u, logs, d')" and "accounts_wf g d"
  shows "owns_identity d' (id_provider i) (id_subject i) u"
proof -
  obtain w where run: "provision_tx g L e i \<lparr>world_db = d, world_log = []\<rparr> = (Inr u, w)" and w: "d' = world_db w"
    using assms(1) by (rule provision_Inr)
  have upd: "owns_identity d2 p s x"
    if own: "owns_identity d1 p s v" and dist: "distinct (map user_id (users d1))"
      and up: "update_user_profile now (user_id v) n a d1 = (Inr x, d2)"
    for d1 d2 p s v x now n a
  proof -
    obtain z where z: "find (\<lambda>u. user_id u = user_id v) (users d1) = Some z" "x = set_profile now n a z"
      "d2 = d1\<lparr>users := update_where (\<lambda>u. user_id u = user_id v) (set_profile now n a) (users d1)\<rparr>"
      using up by (auto simp: update_user_profile_Inr)
    have "v \<in> set (users d1)" using own by (simp add: owns_identity_def)
    then have "z = v" using find_by_key [OF dist] z(1) by simp
    have "x \<in> set (users d2)"
      using z(2,3) \<open>z = v\<close> \<open>v \<in> set (users d1)\<close> by (auto simp: set_update_where image_iff intro!: bexI [of _ v])
    then show ?thesis using own z(2,3) \<open>z = v\<close> by (simp add: owns_identity_def)
  qed
  from run show ?thesis
  proof (cases rule: provision_tx_Inr)
    case (returning v)
    then show ?thesis using assms(2) w upd by (auto simp: accounts_wf_def)
  next
    case (linked v r d1)
    have d1: "users d1 = users d" "identities d1 = identities d @ [r]" "identity_user r = user_id v"
      "is_identity (id_provider i) (id_subject i) r"
      using linked(4) by (auto simp: create_identity_Inr is_identity_def)
    have own: "owns_identity d1 (id_provider i) (id_subject i) v"
      using linked(2,3) d1 by (simp add: owns_identity_def may_link_def)
    then show ?thesis using linked(5) w upd [OF own] d1(1) assms(2) by (auto simp: accounts_wf_def)
  next
    case (created r d1)
    then show ?thesis using w by (auto simp: create_user_Inr create_identity_Inr owns_identity_def is_identity_def)
  qed
qed

text \<open>
  Signing in again. After any successful sign-in, a later one with the same provider and
  subject, when no statement fails, succeeds and is the same account, with the profile the
  provider now gives.
\<close>

theorem sign_in_again:
  assumes "accounts_wf g d" and "provision g L e i d = (Inr u, logs, d1)" and "faultless e'"
    and "id_provider i' = id_provider i" and "id_subject i' = id_subject i"
  shows "\<exists>v d2. provision g L e' i' d1 = (Inr v, [], d2) \<and> user_core v = user_core u
    \<and> display_name v = display_name_of i' \<and> avatar_url v = optional (id_picture i')
    \<and> map user_core (users d2) = map user_core (users d1)"
proof -
  have own: "owns_identity d1 (id_provider i') (id_subject i') u"
    using provision_owner [OF assms(2,1)] assms(4,5) by simp
  have wf: "accounts_wf g d1" using provision_wf [OF assms(1), of L e i] assms(2) by simp
  have "get_user_by_identity (id_provider i') (id_subject i') d1 = Inr u"
  proof (cases "get_user_by_identity (id_provider i') (id_subject i') d1")
    case (Inl err)
    then show ?thesis using own by (auto simp: get_user_by_identity_def owns_identity_def find_None_iff)
  next
    case (Inr v)
    then show ?thesis using owner_unique [OF wf get_user_by_identity_Inr own] by simp
  qed
  moreover have "\<exists>v. find (\<lambda>x. user_id x = user_id u) (users d1) = Some v"
    using own by (auto simp: owns_identity_def not_None_eq [symmetric] find_None_iff simp del: not_None_eq)
  ultimately have "\<exists>v d2. provision g L e' i' d1 = (Inr v, [], d2)"
    by (auto simp: provision_def begin_tx_def commit_tx_def provision_tx_def run_sql_def query_def refresh_profile_def Let_def
        faultlessD [OF assms(3)] update_user_profile_def)
  then obtain v logs' d2 where run: "provision g L e' i' d1 = (Inr v, [], d2)" by blast
  from known_account [OF wf own run] run show ?thesis by blast
qed

text \<open>
  A first sign-in. An identity nobody has, which may be linked to nobody, gets an account
  of its own when no statement fails, the drawn ids are new and no account, deleted ones
  included, holds the address as verified: with the provider's email as it is, verified
  exactly when the provider says so and it is no private relay, and the identity as its first.
\<close>

theorem first_sign_in_creates:
  assumes "faultless e" and "\<not> list_ex (is_identity (id_provider i) (id_subject i)) (identities d)"
    and "\<forall>v \<in> set (users d). \<not> (id_email_verified i \<and> email_verified v \<and> same_email g (email v) (id_email i))"
    and "row_id e UsersTable \<notin> user_id ` set (users d)" and "row_id e IdentitiesTable \<notin> identity_id ` set (identities d)"
  shows "\<exists>u logs d'. provision g L e i d = (Inr u, logs, d') \<and> users d' = users d @ [u] \<and> email u = id_email i
    \<and> email_verified u = (id_email_verified i \<and> \<not> is_private_relay (id_email i)) \<and> display_name u = display_name_of i
    \<and> owns_identity d' (id_provider i) (id_subject i) u"
proof -
  have nobody: "get_user_by_identity (id_provider i) (id_subject i) d = Inl NoRows"
    using assms(2) by (auto simp: get_user_by_identity_None owns_identity_def list_ex_iff)
  have nolink: "\<exists>w. link_target g e i \<lparr>world_db = d, world_log = []\<rparr> = (Inr None, w) \<and> world_db w = d"
    using assms(3) by (auto simp: link_target_def add_log_def run_sql_def query_def faultlessD [OF assms(1)]
        get_verified_user_by_email_def one_row_def find_None_iff split: option.splits dest!: find_SomeD)
  then obtain w where w: "link_target g e i \<lparr>world_db = d, world_log = []\<rparr> = (Inr None, w)" "world_db w = d" by blast
  let ?u = "new_user (db_now e BeginTx) (row_id e UsersTable) \<lparr>new_display_name = display_name_of i, new_email = id_email i,
      new_email_verified = (id_email_verified i \<and> \<not> is_private_relay (id_email i)), new_avatar_url = optional (id_picture i)\<rparr>"
  let ?r = "new_identity (db_now e BeginTx) (row_id e IdentitiesTable) \<lparr>link_user = user_id ?u, link_provider = id_provider i, link_subject = id_subject i\<rparr>"
  have cu: "create_user g (db_now e BeginTx) (row_id e UsersTable) \<lparr>new_display_name = display_name_of i, new_email = id_email i,
      new_email_verified = (id_email_verified i \<and> \<not> is_private_relay (id_email i)), new_avatar_url = optional (id_picture i)\<rparr> d
      = (Inr ?u, d\<lparr>users := users d @ [?u]\<rparr>)"
    using assms(3,4) by (auto simp: create_user_Inr list_ex_iff)
  have ci: "create_identity (db_now e BeginTx) (row_id e IdentitiesTable) \<lparr>link_user = user_id ?u, link_provider = id_provider i,
      link_subject = id_subject i\<rparr> (d\<lparr>users := users d @ [?u]\<rparr>)
      = (Inr ?r, d\<lparr>users := users d @ [?u], identities := identities d @ [?r]\<rparr>)"
    using assms(2,5) by (simp add: create_identity_Inr)
  have "\<exists>logs. provision g L e i d = (Inr ?u, logs, d\<lparr>users := users d @ [?u], identities := identities d @ [?r]\<rparr>)"
    using w cu ci nobody
    by (simp add: provision_def begin_tx_def commit_tx_def provision_tx_def run_sql_def query_def create_def add_log_def
        faultlessD [OF assms(1)] Let_def del: new_user_simps)
  then show ?thesis by (auto simp: owns_identity_def is_identity_def)
qed

text \<open>
  C40. A deleted account's sign-in is stuck. The query for a known identity leaves out deleted
  accounts, but the identity row is still there and its key unique: with no live account
  behind an identity, every sign-in with it fails and changes nothing.
\<close>

theorem deleted_account_sign_in_fails:
  assumes "list_ex (is_identity (id_provider i) (id_subject i)) (identities d)"
    and "\<forall>v. \<not> owns_identity d (id_provider i) (id_subject i) v"
  shows "\<exists>err logs. provision g L e i d = (Inl err, logs, d)"
proof -
  have "provision_tx g L e i \<lparr>world_db = d, world_log = []\<rparr> \<noteq> (Inr u, w)" for u w
  proof
    assume "provision_tx g L e i \<lparr>world_db = d, world_log = []\<rparr> = (Inr u, w)"
    then show False
      by (cases rule: provision_tx_Inr) (use assms in \<open>auto simp: create_identity_Inr create_user_Inr\<close>)
  qed
  then show ?thesis
    using provision_outcome [of g L e i d "fst (provision g L e i d)" "fst (snd (provision g L e i d))" "snd (snd (provision g L e i d))"]
    by (metis prod.collapse)
qed

theorem deleted_account_sign_in_fails_witness:
  "\<exists>err logs. provision sample_pg reference_libs (calm_env 9 0 7) (sample_identity ''google'') (ada_db\<lparr>users := [ada\<lparr>user_deleted_at := Some 8\<rparr>]\<rparr>)
    = (Inl err, logs, ada_db\<lparr>users := [ada\<lparr>user_deleted_at := Some 8\<rparr>]\<rparr>)"
  by (rule deleted_account_sign_in_fails)
    (simp_all add: ada_db_def ada_def ada_link_def sample_identity_def is_identity_def owns_identity_def)

end
