(* ===== verification/Session_Theorems.thy ===== *)
theory Session_Theorems
  imports Reference
begin

text \<open>
  The properties of the session service. They say, over whole runs in which any statement may
  fail: a refresh token buys at most one rotation, a replay or a logout ends its family for
  good, a lost race does no harm, and a sequence of honest rotations never stops.
\<close>

section \<open>Facts shared by the properties\<close>

text \<open>The family of the session a rotation grants, None when it answers an error.\<close>

fun granted_family :: "session_error + session \<Rightarrow> uuid option" where
  "granted_family (Inr s) = Some (session_family s)"
| "granted_family (Inl err) = None"

lemma granted_family_Some: "granted_family (fst (rotate L t e tok d)) = Some f \<longleftrightarrow>
    (\<exists>s d'. rotate L t e tok d = (Inr s, d') \<and> session_family s = f)"
  by (cases "rotate L t e tok d", cases "fst (rotate L t e tok d)") auto

lemma granted_family_None: "(\<And>s d'. rotate L t e tok d \<noteq> (Inr s, d')) \<Longrightarrow> granted_family (fst (rotate L t e tok d)) = None"
  by (cases "rotate L t e tok d", cases "fst (rotate L t e tok d)") auto

lemma rotate_success:
  assumes "rotate L t e tok d = (Inr s, d')"
  obtains r d1 where "r \<in> set (refresh_tokens d)" and "consumable (db_now e BeginTx) (hash_refresh_token tok) (refresh_tokens d) r"
    and "session_family s = token_family r" and "session_user s = token_user r"
    and "consume_refresh_token (db_now e BeginTx) (hash_refresh_token tok) d = (Inr (mark_used (db_now e BeginTx) r), d1)"
    and "mint L t e (db_now e BeginTx) (token_user r) (token_family r) d1 = (Inr s, d')"
proof (cases rule: rotate_cases [of e d tok L t])
  case diagnosed
  then show ?thesis using assms by (auto simp: map_prod_def split: prod.splits)
next
  case (dropped err)
  then show ?thesis using assms by simp
next
  case (committed c tx1 s' tx2)
  from committed(3) assms have eq: "s' = s" "tx2 = d'" by auto
  obtain r where r: "r \<in> set (refresh_tokens d)" "consumable (db_now e BeginTx) (hash_refresh_token tok) (refresh_tokens d) r"
    "c = mark_used (db_now e BeginTx) r"
    using committed(1) by (rule consume_Inr)
  have "session_family s = token_family c" "session_user s = token_user c"
    using committed(2) eq by (auto elim: mint_Inr)
  then show ?thesis using r committed(1,2) eq by (intro that) auto
qed

lemma revoked_family_never_rotates:
  "family_revoked (refresh_tokens d) f \<Longrightarrow> granted_family (fst (rotate L t e tok d)) \<noteq> Some f"
  by (auto simp: granted_family_Some consumable_def elim!: rotate_success)

lemma spent_token_never_rotates:
  assumes "tokens_wf d" and "hash_spent (hash_refresh_token tok) (refresh_tokens d)"
  shows "rotate L t e tok d \<noteq> (Inr s, d')"
proof
  assume "rotate L t e tok d = (Inr s, d')"
  then obtain r where r: "r \<in> set (refresh_tokens d)" "consumable (db_now e BeginTx) (hash_refresh_token tok) (refresh_tokens d) r"
    by (rule rotate_success)
  from assms(2) obtain r' where "r' \<in> set (refresh_tokens d)" "token_hash r' = hash_refresh_token tok" "used_at r' \<noteq> None"
    by (auto simp: hash_spent_def list_ex_iff)
  then show False using same_hash_same_row [OF assms(1) r(1)] r(2) by (fastforce simp: consumable_def)
qed

lemma run_wf: "tokens_wf d \<Longrightarrow> tokens_wf (run_steps (session_step L t) as d)"
  by (rule keys.inv_run) simp_all

lemma run_spent:
  "hash_spent h (refresh_tokens d) \<Longrightarrow> hash_spent h (refresh_tokens (run_steps (session_step L t) as d))"
  by (rule tok.spent.stable_run) simp_all

lemma run_revoked:
  "family_revoked (refresh_tokens d) f \<Longrightarrow> family_revoked (refresh_tokens (run_steps (session_step L t) as d)) f"
  by (rule tok.revoked.stable_run) simp_all

lemma rotate_spends:
  assumes "rotate L t e tok d = (Inr s, d')"
  shows "hash_spent (hash_refresh_token tok) (refresh_tokens d')"
proof -
  let ?P = "consumable (db_now e BeginTx) (hash_refresh_token tok) (refresh_tokens d)"
  obtain r d1 where r: "r \<in> set (refresh_tokens d)" "?P r"
    and c: "consume_refresh_token (db_now e BeginTx) (hash_refresh_token tok) d = (Inr (mark_used (db_now e BeginTx) r), d1)"
    and m: "mint L t e (db_now e BeginTx) (token_user r) (token_family r) d1 = (Inr s, d')"
    using assms by (rule rotate_success)
  have "refresh_tokens d1 = update_where ?P (mark_used (db_now e BeginTx)) (refresh_tokens d)"
    using c by (rule consume_Inr) simp
  then have "mark_used (db_now e BeginTx) r \<in> set (refresh_tokens d1)"
    using r by (auto simp: set_update_where image_iff)
  then have "hash_spent (hash_refresh_token tok) (refresh_tokens d1)"
    using r(2) unfolding hash_spent_def list_ex_iff
    by (intro bexI [of _ "mark_used (db_now e BeginTx) r"]) (simp_all add: consumable_def)
  moreover have "table_le (refresh_tokens d1) (refresh_tokens d')"
    using mint_state [OF m] by (auto intro: insert_le)
  ultimately show ?thesis by (metis hash_spent_mono)
qed

lemma revoke_where_revokes:
  assumes "r \<in> set (refresh_tokens d)" and "P r"
  shows "family_revoked (refresh_tokens (snd (revoke_where P now d))) (token_family r)"
proof -
  let ?u = "\<lambda>s. if P s \<and> revoked_at s = None then mark_revoked now s else s"
  have "?u r \<in> set (refresh_tokens (snd (revoke_where P now d)))"
    using assms(1) by (auto simp: revoke_where_def Let_def set_update_where)
  then show ?thesis using assms(2) by (auto simp: family_revoked_def list_ex_iff intro!: bexI [of _ "?u r"])
qed

lemma exec_Inr_NoRows_free: "exec f (revoke_where P now) d = (Inr n, d') \<Longrightarrow> d' = snd (revoke_where P now d)"
  by (drule exec_Inr) simp

lemma get_by_hash_Inr:
  "get_refresh_token_by_hash h d = Inr r \<Longrightarrow> r \<in> set (refresh_tokens d) \<and> token_hash r = h"
  by (auto simp: get_refresh_token_by_hash_def split: option.splits dest!: find_SomeD)

lemma rotate_reused:
  assumes "rotate L t e tok d = (Inl ErrRefreshTokenReused, d')"
  obtains r where "r \<in> set (refresh_tokens d)" and "token_hash r = hash_refresh_token tok" and "used_at r \<noteq> None"
    and "is_benign_refresh_race (db_now e IsBenignRefreshRace) (used_at r) (trunc_seconds reuse_grace) (token_family r) d
          \<noteq> Some True"
    and "d' = snd (revoke_refresh_token_family (db_now e RevokeRefreshTokenFamily) (token_family r) d)"
proof (cases rule: rotate_cases [of e d tok L t])
  case diagnosed
  then have "diagnose_failed_consume e (hash_refresh_token tok) d = (ErrRefreshTokenReused, d')"
    using assms by (auto simp: map_prod_def split: prod.splits)
  then show ?thesis
    by (auto simp: diagnose_failed_consume_def revoke_refresh_token_family_def
        split: sum.splits sql_error.splits prod.splits if_splits
        dest!: exec_query_Inr get_by_hash_Inr exec_Inr_NoRows_free intro!: that)
next
  case (dropped err)
  then show ?thesis using assms by auto
next
  case (committed c tx1 s tx2)
  then show ?thesis using assms by auto
qed

section \<open>The sample sign-in\<close>

text \<open>At 10 microseconds, ''abc'' rotates to the secret of the zero stream.\<close>

definition sample_rotated :: db where
  "sample_rotated = \<lparr>users = [sample_user], identities = [],
     refresh_tokens = [mark_used 10 (sample_token (hash_refresh_token ''abc'')),
       new_row 10 3 \<lparr>param_user = 1, param_family = 5, param_hash = hash_refresh_token (refresh_secret_of (\<lambda>_. 0)),
         param_expires = to_micros (10000 + refresh_token_ttl)\<rparr>]\<rparr>"

lemma sample_rotates:
  obtains s where "rotate reference_libs reference_issuer (calm_env 10 0 3) ''abc'' (sample_db (hash_refresh_token ''abc''))
      = (Inr s, sample_rotated)"
    and "session_family s = 5" and "session_user s = 1" and "refresh_secret (session_refresh s) = refresh_secret_of (\<lambda>_. 0)"
proof -
  let ?h = "hash_refresh_token ''abc''" and ?e = "calm_env 10 0 3"
  have c: "consumable (db_now ?e BeginTx) ?h (refresh_tokens (sample_db ?h)) (sample_token ?h)"
    by (simp add: consumable_def sample_db_def sample_token_def family_revoked_def)
  have r: "sample_token ?h \<in> set (refresh_tokens (sample_db ?h))" by (simp add: sample_db_def)
  show thesis
    by (rule rotate_granted [OF calm_env_simps(1) reference_libs_documented sample_ok sample_fresh r c, of reference_issuer])
      (use c in \<open>auto simp: insert_Inr sample_rotated_def sample_db_def sample_token_def
          intro!: that elim!: consume_Inr\<close>)
qed

definition replayed_db :: db where
  "replayed_db = \<lparr>users = [sample_user], identities = [],
     refresh_tokens = [mark_used 10 (sample_token (hash_refresh_token ''abc''))]\<rparr>"

lemma sample_replay:
  "rotate reference_libs reference_issuer (calm_env 20 0 3) ''abc'' replayed_db
    = (Inl ErrRefreshTokenReused, replayed_db\<lparr>refresh_tokens :=
        [mark_revoked 20 (mark_used 10 (sample_token (hash_refresh_token ''abc'')))]\<rparr>)"
  by (simp add: rotate_def begin_tx_def consume_refresh_token_def consumable_def diagnose_failed_consume_def query_def
      get_refresh_token_by_hash_def is_benign_refresh_race_def revoke_refresh_token_family_def revoke_where_def
      replayed_db_def sample_token_def mark_used_def)

section \<open>At most one rotation per token\<close>

text \<open>
  C2. A refresh token that rotated once never rotates again: whatever operations follow, in
  whatever order, with whatever statements failing, a later presentation of it is not granted.
\<close>

theorem token_rotates_at_most_once:
  assumes "tokens_wf d" and "rotate L t e tok d = (Inr s, d')"
  shows "granted_family (fst (rotate L t e' tok (run_steps (session_step L t) as d'))) = None"
proof -
  have "tokens_wf d'" using token_effect_wf [OF rotate_effect assms(1)] assms(2) by (metis snd_conv)
  then show ?thesis
    using spent_token_never_rotates [OF run_wf run_spent [OF rotate_spends [OF assms(2)]]]
    by (intro granted_family_None)
qed

theorem token_rotates_at_most_once_witness:
  "granted_family (fst (rotate reference_libs reference_issuer (calm_env 30 2 7) ''abc''
    (run_steps (session_step reference_libs reference_issuer) [OpIssue (calm_env 20 1 6) 1] sample_rotated))) = None"
proof -
  obtain s where s: "rotate reference_libs reference_issuer (calm_env 10 0 3) ''abc'' (sample_db (hash_refresh_token ''abc''))
      = (Inr s, sample_rotated)" by (rule sample_rotates)
  have "tokens_wf (sample_db (hash_refresh_token ''abc''))" using sample_ok by (simp add: sessions_ok_def)
  from token_rotates_at_most_once [OF this s] show ?thesis .
qed

text \<open>
  C3. Reuse detection. A presentation answered with ErrRefreshTokenReused is of a spent token
  that is not within the grace window, and it ends the token's family: no rotation, by
  anyone, at any later time, grants a session of that family.
\<close>

theorem reuse_ends_family:
  assumes "rotate L t e tok d = (Inl ErrRefreshTokenReused, d')"
  shows "\<exists>r \<in> set (refresh_tokens d). token_hash r = hash_refresh_token tok \<and> used_at r \<noteq> None
    \<and> is_benign_refresh_race (db_now e IsBenignRefreshRace) (used_at r) (trunc_seconds reuse_grace) (token_family r) d \<noteq> Some True
    \<and> (\<forall>as e' tok'. granted_family (fst (rotate L t e' tok' (run_steps (session_step L t) as d'))) \<noteq> Some (token_family r))"
proof -
  obtain r where r: "r \<in> set (refresh_tokens d)" "token_hash r = hash_refresh_token tok" "used_at r \<noteq> None"
    "is_benign_refresh_race (db_now e IsBenignRefreshRace) (used_at r) (trunc_seconds reuse_grace) (token_family r) d \<noteq> Some True"
    "d' = snd (revoke_refresh_token_family (db_now e RevokeRefreshTokenFamily) (token_family r) d)"
    using assms by (rule rotate_reused)
  have "family_revoked (refresh_tokens d') (token_family r)"
    unfolding r(5) revoke_refresh_token_family_def by (rule revoke_where_revokes) (simp_all add: r(1))
  then show ?thesis using r run_revoked revoked_family_never_rotates by (intro bexI [of _ r]) blast+
qed

theorem reuse_ends_family_witness:
  "\<exists>r \<in> set (refresh_tokens replayed_db). token_hash r = hash_refresh_token ''abc'' \<and> used_at r \<noteq> None
    \<and> is_benign_refresh_race 20 (used_at r) (trunc_seconds reuse_grace) (token_family r) replayed_db \<noteq> Some True
    \<and> (\<forall>as e' tok'. granted_family (fst (rotate reference_libs reference_issuer e' tok'
          (run_steps (session_step reference_libs reference_issuer) as (replayed_db\<lparr>refresh_tokens :=
            [mark_revoked 20 (mark_used 10 (sample_token (hash_refresh_token ''abc'')))]\<rparr>)))) \<noteq> Some (token_family r))"
  using reuse_ends_family [OF sample_replay] by simp

lemma revoke_by_token_ends:
  assumes "tokens_wf d" and "r \<in> set (refresh_tokens d)" and "token_hash r = hash_refresh_token tok"
    and "revoke_by_token e tok d = (Inr (), d')"
  shows "family_revoked (refresh_tokens d') (token_family r)"
proof -
  have g: "get_refresh_token_by_hash (hash_refresh_token tok) d = Inr r"
    using get_by_hash_row [OF assms(1,2)] assms(3) by simp
  have "d' = snd (revoke_refresh_token_family (db_now e RevokeRefreshTokenFamily) (token_family r) d)"
    using assms(4) g
    by (auto simp: revoke_by_token_def revoke_refresh_token_family_def split: sum.splits sql_error.splits prod.splits
        dest!: exec_query_Inr exec_query_Inl exec_Inr_NoRows_free)
  then show ?thesis
    by (simp add: revoke_refresh_token_family_def revoke_where_revokes assms(2))
qed

text \<open>
  C22. Logout. Once RevokeByToken has answered without an error for a known token, spent or
  not, no later rotation grants a session of the token's family.
\<close>

theorem logout_ends_family:
  assumes "tokens_wf d" and "r \<in> set (refresh_tokens d)" and "token_hash r = hash_refresh_token tok"
    and "revoke_by_token e tok d = (Inr (), d')"
  shows "granted_family (fst (rotate L t e' tok' (run_steps (session_step L t) as d'))) \<noteq> Some (token_family r)"
  by (rule revoked_family_never_rotates [OF run_revoked [OF revoke_by_token_ends [OF assms]]])

theorem logout_ends_family_witness:
  "granted_family (fst (rotate reference_libs reference_issuer (calm_env 30 2 7) ''abc''
    (run_steps (session_step reference_libs reference_issuer) [OpIssue (calm_env 25 1 6) 1]
      (snd (revoke_by_token (calm_env 20 1 6) ''abc'' (sample_db (hash_refresh_token ''abc'')))))))
    \<noteq> Some (token_family (sample_token (hash_refresh_token ''abc'')))"
proof (rule logout_ends_family)
  show "tokens_wf (sample_db (hash_refresh_token ''abc''))" using sample_ok by (simp add: sessions_ok_def)
  show "sample_token (hash_refresh_token ''abc'') \<in> set (refresh_tokens (sample_db (hash_refresh_token ''abc'')))"
    by (simp add: sample_db_def)
  show "token_hash (sample_token (hash_refresh_token ''abc'')) = hash_refresh_token ''abc''" by (simp add: sample_token_def)
  show "revoke_by_token (calm_env 20 1 6) ''abc'' (sample_db (hash_refresh_token ''abc''))
      = (Inr (), snd (revoke_by_token (calm_env 20 1 6) ''abc'' (sample_db (hash_refresh_token ''abc''))))"
    by (simp add: revoke_by_token_def query_def get_refresh_token_by_hash_def sample_db_def sample_token_def
        revoke_refresh_token_family_def revoke_where_def)
qed

text \<open>
  C23. Signing a user out everywhere. Once RevokeAllForUser has answered without an error, no
  later rotation grants a session of a family the user had at that moment.
\<close>

theorem sign_out_everywhere:
  assumes "r \<in> set (refresh_tokens d)" and "token_user r = u"
    and "revoke_all_for_user e u d = (Inr (), d')"
  shows "granted_family (fst (rotate L t e' tok' (run_steps (session_step L t) as d'))) \<noteq> Some (token_family r)"
proof -
  have "d' = snd (revoke_where (\<lambda>r. token_user r = u) (db_now e RevokeRefreshTokensForUser) d)"
    using assms(3) by (auto simp: revoke_all_for_user_def revoke_refresh_tokens_for_user_def split: sum.splits prod.splits
        dest: exec_Inr_NoRows_free)
  then have "family_revoked (refresh_tokens d') (token_family r)"
    by (simp add: revoke_where_revokes assms(1,2))
  from revoked_family_never_rotates [OF run_revoked [OF this]] show ?thesis .
qed

theorem sign_out_everywhere_witness:
  "granted_family (fst (rotate reference_libs reference_issuer (calm_env 30 2 7) ''abc''
    (run_steps (session_step reference_libs reference_issuer) []
      (snd (revoke_all_for_user (calm_env 20 1 6) 1 (sample_db (hash_refresh_token ''abc'')))))))
    \<noteq> Some (token_family (sample_token (hash_refresh_token ''abc'')))"
proof (rule sign_out_everywhere)
  show "sample_token (hash_refresh_token ''abc'') \<in> set (refresh_tokens (sample_db (hash_refresh_token ''abc'')))"
    by (simp add: sample_db_def)
  show "token_user (sample_token (hash_refresh_token ''abc'')) = 1" by (simp add: sample_token_def)
  show "revoke_all_for_user (calm_env 20 1 6) 1 (sample_db (hash_refresh_token ''abc''))
      = (Inr (), snd (revoke_all_for_user (calm_env 20 1 6) 1 (sample_db (hash_refresh_token ''abc''))))"
    by (simp add: revoke_all_for_user_def revoke_refresh_tokens_for_user_def revoke_where_def Let_def)
qed

section \<open>The service implements its specification\<close>

text \<open>
  C1. Functional correctness of the whole service. Over any run of sign-ins, rotations and
  revocations in which no statement fails and draws do not collide, the service gives exactly
  the answers of the registry of families (granted, raced, replayed, refused), and its table
  always reads as that registry.
\<close>

theorem session_runs_refine:
  assumes "sessions_ok d" and "libs_documented L"
    and "guarded_run calm_op (session_step L t) as d"
  shows "map_prod id registry_of (run_trace (session_answer L t) as d) = run_trace spec_step as (registry_of d)"
  using assms refine.sim_run [of d L t as] by (simp add: session_answer_step)

lemma sample_guard: "guarded_run calm_op (session_step reference_libs reference_issuer)
    [OpRotate (calm_env 10 0 3) ''abc'', OpRevokeByToken (calm_env 20 1 4) ''abc'']
    (sample_db (hash_refresh_token ''abc''))"
  using sample_fresh [of 3] sample_rotates
  by (auto simp: calm_op_def session_guard_def sample_db_def sample_token_def)

theorem session_runs_refine_witness:
  "map_prod id registry_of (run_trace (session_answer reference_libs reference_issuer)
      [OpRotate (calm_env 10 0 3) ''abc'', OpRevokeByToken (calm_env 20 1 4) ''abc''] (sample_db (hash_refresh_token ''abc'')))
    = run_trace spec_step [OpRotate (calm_env 10 0 3) ''abc'', OpRevokeByToken (calm_env 20 1 4) ''abc'']
        (registry_of (sample_db (hash_refresh_token ''abc'')))"
  by (rule session_runs_refine [OF sample_ok reference_libs_documented sample_guard])

text \<open>
  C26. The invariant of the table. From any consistent database, over any run in which the
  clock advances and uuids do not repeat, and whatever statements fail: hashes and ids stay
  unique, every token belongs to a stored user, and each family is a chain in which every
  token but the last was spent exactly when its successor was issued.
\<close>

theorem session_runs_keep_chains:
  assumes "sessions_ok d" and "guarded_run session_guard (session_step L t) as d"
  shows "sessions_ok (run_steps (session_step L t) as d)"
  using assms by (rule sess.inv_run)

theorem session_runs_keep_chains_witness:
  "sessions_ok (run_steps (session_step reference_libs reference_issuer)
    [OpIssue (calm_env 5 1 9 \<lparr>fault_at := (\<lambda>_. FailsAfter)\<rparr>) 1, OpRevokeAll (calm_env 20 1 4) 1] (sample_db ''h''))
   \<and> sample_db ''h'' \<noteq> empty_db"
proof -
  have "guarded_run session_guard (session_step reference_libs reference_issuer)
    [OpIssue (calm_env 5 1 9 \<lparr>fault_at := (\<lambda>_. FailsAfter)\<rparr>) 1, OpRevokeAll (calm_env 20 1 4) 1] (sample_db ''h'')"
    by (simp add: session_guard_def sample_db_def sample_token_def calm_env_def)
  from session_runs_keep_chains [OF sample_ok this] show ?thesis by (simp add: sample_db_def empty_db_def)
qed

text \<open>
  One live token per family. In a consistent table every token of a family other than the
  unspent one is spent and older than it.
\<close>

theorem one_unspent_token_per_family:
  assumes "sessions_ok d" and "r \<in> set (refresh_tokens d)" and "s \<in> set (refresh_tokens d)"
    and "token_family s = token_family r" and "used_at r = None" and "s \<noteq> r"
  shows "used_at s \<noteq> None \<and> issued_at s < issued_at r"
proof -
  let ?F = "family_rows (token_family r) (refresh_tokens d)"
  have ch: "chain ?F" using assms(1) by (simp add: sessions_ok_def chains_ok_def)
  moreover have "r \<in> set ?F" "s \<in> set ?F" using assms by (simp_all add: set_family_rows)
  ultimately obtain xs where xs: "?F = xs @ [r]" "\<forall>x \<in> set xs. used_at x \<noteq> None"
    using assms(5) by (metis chain_unspent_is_last)
  have "sorted_wrt (\<lambda>a b. issued_at a < issued_at b) (xs @ [r])" using chain_sorted [OF ch] xs(1) by simp
  then show ?thesis using xs \<open>s \<in> set ?F\<close> assms(6) by (auto simp: sorted_wrt_append)
qed

lemma sample_rotated_ok: "sessions_ok sample_rotated"
proof -
  obtain s where "rotate reference_libs reference_issuer (calm_env 10 0 3) ''abc'' (sample_db (hash_refresh_token ''abc''))
      = (Inr s, sample_rotated)" by (rule sample_rotates)
  moreover have "session_guard (OpRotate (calm_env 10 0 3) ''abc'') (sample_db (hash_refresh_token ''abc''))"
    by (simp add: session_guard_def sample_db_def sample_token_def)
  ultimately show ?thesis using sess.inv_step [OF sample_ok, of "OpRotate (calm_env 10 0 3) ''abc''"] by (metis session_step.simps(2) snd_conv)
qed

theorem one_unspent_token_per_family_witness:
  "used_at (refresh_tokens sample_rotated ! 0) \<noteq> None
    \<and> issued_at (refresh_tokens sample_rotated ! 0) < issued_at (refresh_tokens sample_rotated ! 1)"
  by (rule one_unspent_token_per_family [OF sample_rotated_ok]) (simp_all add: sample_rotated_def sample_token_def mark_used_def new_row_def)

section \<open>Lost races and late replays\<close>

lemma rotate_presents_spent:
  assumes e: "faultless e" and wf: "tokens_wf d" and r: "r \<in> set (refresh_tokens d)" "token_hash r = hash_refresh_token tok"
    and u: "used_at r \<noteq> None"
  shows "rotate L t e tok d =
    (if is_benign_refresh_race (db_now e IsBenignRefreshRace) (used_at r) (trunc_seconds reuse_grace) (token_family r) d = Some True
     then (Inl ErrRefreshTokenRaced, d)
     else (Inl ErrRefreshTokenReused,
        snd (revoke_refresh_token_family (db_now e RevokeRefreshTokenFamily) (token_family r) d)))"
  using rotate_faultless_fails [OF e consume_blocked [OF wf r], of L t] u diagnose_row [OF e wf r(1)] r(2)
  by (simp add: map_prod_def)

lemma mint_insert:
  assumes "mint L t e now user fam d = (Inr s, d')"
  shows "session_family s = fam" and "session_user s = user"
    and "refresh_tokens d' = refresh_tokens d @ [new_row now (row_id e RefreshTokensTable)
      \<lparr>param_user = user, param_family = fam, param_hash = hash_refresh_token (refresh_secret (session_refresh s)),
       param_expires = to_micros (go_now e RefreshClock + refresh_token_ttl)\<rparr>]"
    and "users d' = users d" and "identities d' = identities d"
  using assms by (rule mint_Inr, simp add: insert_Inr)+

text \<open>What a rotation leaves: the presented token spent, its successor the live end.\<close>

lemma rotated_family:
  assumes ok: "sessions_ok d" and run: "rotate L t e tok d = (Inr s, d')"
    and clock: "\<forall>r \<in> set (refresh_tokens d). issued_at r < db_now e BeginTx"
  obtains xs r n where "family_rows (session_family s) (refresh_tokens d') = xs @ [r, n]"
    and "token_hash r = hash_refresh_token tok" and "used_at r = Some (db_now e BeginTx)"
    and "issued_at n = db_now e BeginTx" and "used_at n = None" and "revoked_at n = None"
    and "token_hash n = hash_refresh_token (refresh_secret (session_refresh s))"
    and "expires_at n = to_micros (go_now e RefreshClock + refresh_token_ttl)"
    and "token_user n = session_user s"
    and "\<not> family_revoked (refresh_tokens d') (session_family s)" and "sessions_ok d'"
proof -
  let ?now = "db_now e BeginTx"
  have wf: "tokens_wf d" and ch: "chains_ok d" using ok by (simp_all add: sessions_ok_def)
  obtain r d1 where r: "r \<in> set (refresh_tokens d)" "consumable ?now (hash_refresh_token tok) (refresh_tokens d) r"
    and fam: "session_family s = token_family r"
    and c: "consume_refresh_token ?now (hash_refresh_token tok) d = (Inr (mark_used ?now r), d1)"
    and m: "mint L t e ?now (token_user r) (token_family r) d1 = (Inr s, d')"
    using run by (rule rotate_success)
  obtain q xs where q: "q \<in> set (refresh_tokens d)" "consumable ?now (hash_refresh_token tok) (refresh_tokens d) q"
    "mark_used ?now r = mark_used ?now q" "family_rows (token_family q) (refresh_tokens d) = xs @ [q]"
    "family_rows (token_family q) (refresh_tokens d1) = xs @ [mark_used ?now q]"
    and "\<forall>f. f \<noteq> token_family q \<longrightarrow> family_rows f (refresh_tokens d1) = family_rows f (refresh_tokens d)"
    and "users d1 = users d"
    by (rule consume_family_rows [OF c wf ch])
  have "q = r" using same_hash_same_row [OF wf q(1) r(1)] q(2) r(2) by (simp add: consumable_def)
  let ?p = "\<lparr>param_user = token_user r, param_family = token_family r,
      param_hash = hash_refresh_token (refresh_secret (session_refresh s)),
      param_expires = to_micros (go_now e RefreshClock + refresh_token_ttl)\<rparr>"
  let ?row = "new_row ?now (row_id e RefreshTokensTable) ?p"
  note T = mint_insert(3) [OF m]
  have fr: "family_rows (session_family s) (refresh_tokens d') = xs @ [mark_used ?now r, ?row]"
    using T q(5) \<open>q = r\<close> fam by simp
  have "\<not> family_revoked (refresh_tokens d) (token_family r)" using r(2) by (simp add: consumable_def)
  then have "\<not> family_revoked (refresh_tokens d') (session_family s)"
    using fr q(4) fam \<open>q = r\<close> by (simp add: family_revoked_rows)
  moreover have "token_effect (Some ?now) None d d'" using rotate_effect [of e None d L t tok] run by simp
  then have "sessions_ok d'"
    using token_effect_wf token_effect_chains clock wf ch by (fastforce simp: sessions_ok_def)
  ultimately show thesis
    using fr r(2) fam mint_insert(2) [OF m] by (intro that [of xs "mark_used ?now r" ?row]) (simp_all add: consumable_def)
qed

text \<open>Presenting the same token again, next, is judged by the two times of its replacement.\<close>

lemma second_presentation:
  assumes ok: "sessions_ok d" and run: "rotate L t e tok d = (Inr s, d')"
    and clock: "\<forall>r \<in> set (refresh_tokens d). issued_at r < db_now e BeginTx" and e2: "faultless e2"
  shows "rotate L t e2 tok d' =
    (if db_now e2 IsBenignRefreshRace - trunc_seconds reuse_grace * 1000000 < db_now e BeginTx
        \<and> db_now e2 IsBenignRefreshRace < to_micros (go_now e RefreshClock + refresh_token_ttl)
     then (Inl ErrRefreshTokenRaced, d')
     else (Inl ErrRefreshTokenReused,
        snd (revoke_refresh_token_family (db_now e2 RevokeRefreshTokenFamily) (session_family s) d')))"
proof -
  obtain xs r n where fr: "family_rows (session_family s) (refresh_tokens d') = xs @ [r, n]"
    and r: "token_hash r = hash_refresh_token tok" "used_at r = Some (db_now e BeginTx)"
    and n: "issued_at n = db_now e BeginTx" "expires_at n = to_micros (go_now e RefreshClock + refresh_token_ttl)"
    and live: "\<not> family_revoked (refresh_tokens d') (session_family s)" and ok': "sessions_ok d'"
    by (rule rotated_family [OF ok run clock]) blast
  have mem: "r \<in> set (refresh_tokens d')" "token_family r = session_family s"
    using arg_cong [OF fr, of set] by (auto simp: set_family_rows)
  have wf: "tokens_wf d'" and ch: "chain (family_rows (session_family s) (refresh_tokens d'))"
    using ok' by (simp_all add: sessions_ok_def chains_ok_def)
  have "is_benign_refresh_race (db_now e2 IsBenignRefreshRace) (used_at r) (trunc_seconds reuse_grace) (session_family s) d'
      = Some True \<longleftrightarrow> db_now e2 IsBenignRefreshRace - trunc_seconds reuse_grace * 1000000 < db_now e BeginTx
        \<and> db_now e2 IsBenignRefreshRace < to_micros (go_now e RefreshClock + refresh_token_ttl)"
    using benign_iff [OF ch, of xs r n "[]"] fr n live by auto
  then show ?thesis
    using rotate_presents_spent [OF e2 wf mem(1) r(1), of L t] r(2) mem(2) by simp
qed

lemma reuse_grace_micros: "trunc_seconds reuse_grace * 1000000 = 10000000"
  by code_simp

text \<open>A later table has the same two rows at the same place of the family, with marks set at most.\<close>

lemma family_pair_later:
  assumes "table_le rs ss" and "family_rows f rs = xs @ [r, n]"
  obtains xs' r' n' ys where "family_rows f ss = xs' @ r' # n' # ys" and "row_le r r'" and "row_le n n'"
proof -
  obtain ts new where ss: "ss = ts @ new" and le: "list_all2 row_le rs ts" using assms(1) by (auto simp: table_le_def)
  have "list_all2 row_le (family_rows f rs) (family_rows f ts)"
    unfolding family_rows_def using le by (induction rule: list_all2_induct) (auto simp: row_le_def)
  then obtain xs' r' n' where "family_rows f ts = xs' @ [r', n']" "row_le r r'" "row_le n n'"
    unfolding assms(2) by (auto simp: list_all2_append1 list_all2_Cons1)
  then show thesis by (intro that [of xs' r' n' "family_rows f new"]) (simp_all add: ss)
qed

text \<open>Whether a rotation still counts as just lost: recent, the family alive, the winner's token unspent and unexpired.\<close>

definition race_open :: "micros \<Rightarrow> micros \<Rightarrow> session \<Rightarrow> db \<Rightarrow> bool" where
  "race_open rotated now s d \<longleftrightarrow> now < rotated + 10000000 \<and> \<not> family_revoked (refresh_tokens d) (session_family s)
    \<and> list_ex (\<lambda>n. token_hash n = hash_refresh_token (refresh_secret (session_refresh s)) \<and> used_at n = None \<and> now < expires_at n)
        (refresh_tokens d)"

lemma later_presentation:
  assumes ok: "sessions_ok d" and run: "rotate L t e tok d = (Inr s, d')"
    and clock: "\<forall>r \<in> set (refresh_tokens d). issued_at r < db_now e BeginTx"
    and later: "table_le (refresh_tokens d') (refresh_tokens d2)" "sessions_ok d2"
  shows "faultless e2 \<Longrightarrow> rotate L t e2 tok d2 =
    (if race_open (db_now e BeginTx) (db_now e2 IsBenignRefreshRace) s d2 then (Inl ErrRefreshTokenRaced, d2)
     else (Inl ErrRefreshTokenReused,
        snd (revoke_refresh_token_family (db_now e2 RevokeRefreshTokenFamily) (session_family s) d2)))"
    and "race_open (db_now e BeginTx) now s d2 \<Longrightarrow> \<exists>n \<in> set (refresh_tokens d2). token_family n = session_family s
      \<and> token_hash n = hash_refresh_token (refresh_secret (session_refresh s)) \<and> used_at n = None \<and> revoked_at n = None
      \<and> expires_at n = to_micros (go_now e RefreshClock + refresh_token_ttl)"
proof -
  let ?now = "db_now e2 IsBenignRefreshRace" and ?h = "hash_refresh_token (refresh_secret (session_refresh s))"
  obtain xs r n where fr: "family_rows (session_family s) (refresh_tokens d') = xs @ [r, n]"
    and r: "token_hash r = hash_refresh_token tok" "used_at r = Some (db_now e BeginTx)"
    and n: "issued_at n = db_now e BeginTx" "token_hash n = ?h" "expires_at n = to_micros (go_now e RefreshClock + refresh_token_ttl)"
    by (rule rotated_family [OF ok run clock]) blast
  obtain xs' r' n' ys where fr': "family_rows (session_family s) (refresh_tokens d2) = xs' @ r' # n' # ys"
    and le: "row_le r r'" "row_le n n'"
    by (rule family_pair_later [OF later(1) fr])
  have mem: "r' \<in> set (refresh_tokens d2)" "token_family r' = session_family s"
    "n' \<in> set (refresh_tokens d2)" "token_family n' = session_family s"
    using arg_cong [OF fr', of set] by (auto simp: set_family_rows)
  have r': "token_hash r' = hash_refresh_token tok" "used_at r' \<noteq> None"
    and n': "issued_at n' = db_now e BeginTx" "token_hash n' = ?h" "expires_at n' = expires_at n"
    using r n le by (simp_all add: row_le_def)
  have wf: "tokens_wf d2" and ch: "chain (family_rows (session_family s) (refresh_tokens d2))"
    using later(2) by (simp_all add: sessions_ok_def chains_ok_def)
  have "chain (n' # ys)" using ch fr' chain_suffix [of "xs' @ [r']" "n' # ys"] by simp
  then have last: "ys = [] \<longleftrightarrow> used_at n' = None" by (cases ys) auto
  have only: "m = n'" if "m \<in> set (refresh_tokens d2)" "token_hash m = ?h" for m
    using same_hash_same_row [OF wf that(1) mem(3)] that(2) n'(2) by simp
  have open_iff: "race_open (db_now e BeginTx) k s d2 \<longleftrightarrow> k < db_now e BeginTx + 10000000
      \<and> \<not> family_revoked (refresh_tokens d2) (session_family s) \<and> used_at n' = None \<and> k < expires_at n'" for k
  proof -
    have "list_ex (\<lambda>n. token_hash n = ?h \<and> used_at n = None \<and> k < expires_at n) (refresh_tokens d2) \<longleftrightarrow> used_at n' = None \<and> k < expires_at n'"
      unfolding list_ex_iff using only mem(3) n'(2) by metis
    then show ?thesis by (simp only: race_open_def)
  qed
  have "is_benign_refresh_race ?now (used_at r') (trunc_seconds reuse_grace) (session_family s) d2 = Some True
      \<longleftrightarrow> race_open (db_now e BeginTx) ?now s d2"
    unfolding benign_iff [OF ch fr'] open_iff last n'(1) reuse_grace_micros less_diff_eq [symmetric] diff_less_eq by blast
  then show "rotate L t e2 tok d2 =
    (if race_open (db_now e BeginTx) ?now s d2 then (Inl ErrRefreshTokenRaced, d2)
     else (Inl ErrRefreshTokenReused,
        snd (revoke_refresh_token_family (db_now e2 RevokeRefreshTokenFamily) (session_family s) d2)))" if "faultless e2"
    using rotate_presents_spent [OF that wf mem(1) r'(1,2), of L t] mem(2) by simp
  show "\<exists>n \<in> set (refresh_tokens d2). token_family n = session_family s \<and> token_hash n = ?h \<and> used_at n = None
      \<and> revoked_at n = None \<and> expires_at n = to_micros (go_now e RefreshClock + refresh_token_ttl)"
    if "race_open (db_now e BeginTx) now s d2"
    using that [unfolded open_iff] mem(3,4) n' n(3) by (auto simp: family_revoked_def list_ex_iff intro!: bexI [of _ n'])
qed

text \<open>
  C12. A lost race does no harm, and nothing else passes for one. Take a rotation and whatever the
  service did after it, and let the replaced token be presented again. If that is within ten
  seconds, the family is not revoked and the token that replaced it is still unspent and
  unexpired, the answer is ErrRefreshTokenRaced, the database stays as it was and the winner's
  token still rotates. In every other case, however early, the answer is ErrRefreshTokenReused
  and the family is revoked.
\<close>

theorem lost_race_is_harmless:
  assumes "sessions_ok d" and "rotate L t e tok d = (Inr s, d')"
    and "\<forall>r \<in> set (refresh_tokens d). issued_at r < db_now e BeginTx"
    and "guarded_run session_guard (session_step L t) as d'" and "d2 = run_steps (session_step L t) as d'"
    and "faultless e2" and "faultless e3" and "libs_documented L" and "fresh_draws e3 b d2"
    and "db_now e3 BeginTx < to_micros (go_now e RefreshClock + refresh_token_ttl)"
  shows "if race_open (db_now e BeginTx) (db_now e2 IsBenignRefreshRace) s d2
    then rotate L t e2 tok d2 = (Inl ErrRefreshTokenRaced, d2)
      \<and> granted_family (fst (rotate L t e3 (refresh_secret (session_refresh s)) d2)) = Some (session_family s)
    else rotate L t e2 tok d2 = (Inl ErrRefreshTokenReused,
      snd (revoke_refresh_token_family (db_now e2 RevokeRefreshTokenFamily) (session_family s) d2))"
proof -
  have "sessions_ok d'" by (rule rotated_family [OF assms(1-3)])
  then have ok2: "sessions_ok d2" using sess.inv_run [OF _ assms(4)] assms(5) by simp
  have le: "table_le (refresh_tokens d') (refresh_tokens d2)" using tok.run_grows assms(5) by simp
  note later = later_presentation [OF assms(1-3) le ok2]
  have "granted_family (fst (rotate L t e3 (refresh_secret (session_refresh s)) d2)) = Some (session_family s)"
    if opened: "race_open (db_now e BeginTx) (db_now e2 IsBenignRefreshRace) s d2"
  proof -
    obtain n where n: "n \<in> set (refresh_tokens d2)" "token_family n = session_family s" "used_at n = None" "revoked_at n = None"
      "token_hash n = hash_refresh_token (refresh_secret (session_refresh s))"
      "expires_at n = to_micros (go_now e RefreshClock + refresh_token_ttl)"
      using later(2) [OF opened] by blast
    have "consumable (db_now e3 BeginTx) (hash_refresh_token (refresh_secret (session_refresh s))) (refresh_tokens d2) n"
      using n assms(10) opened by (simp add: consumable_def race_open_def)
    with n(1,2) show ?thesis by (metis granted_family_Some rotate_granted [OF assms(7,8) ok2 assms(9)])
  qed
  then show ?thesis using later(1) [OF assms(6)] by simp
qed


section \<open>Failures\<close>

lemma looked_up: "exec f (query (get_refresh_token_by_hash h)) d = (Inr r, d1) \<Longrightarrow> r \<in> set (refresh_tokens d) \<and> token_hash r = h \<and> d1 = d"
  by (auto simp: get_refresh_token_by_hash_def split: option.splits dest!: exec_query_Inr find_SomeD)

text \<open>What the diagnosis of a failed consume leaves: the rows, or the family of the spent token presented, revoked.\<close>

lemma diagnosed_state:
  assumes "diagnose_failed_consume e h d = (err, d')"
  shows "d' = d \<and> err \<noteq> ErrRefreshTokenReused
    \<or> (err = ErrRefreshTokenReused \<or> (\<exists>cause. err = DbFailure ''revoking reused token family'' cause))
       \<and> (\<exists>r \<in> set (refresh_tokens d). token_hash r = h \<and> used_at r \<noteq> None
            \<and> d' = snd (revoke_refresh_token_family (db_now e RevokeRefreshTokenFamily) (token_family r) d))"
proof -
  obtain x d1 where x: "exec (fault_at e GetRefreshTokenByHash) (query (get_refresh_token_by_hash h)) d = (x, d1)"
    by (cases "exec (fault_at e GetRefreshTokenByHash) (query (get_refresh_token_by_hash h)) d")
  have d1: "d1 = d" using exec_query_state [OF x] .
  show ?thesis
  proof (cases x)
    case (Inl f)
    then show ?thesis using assms x d1 by (cases f) (auto simp: diagnose_failed_consume_def)
  next
    case (Inr r)
    note r = looked_up [OF x [unfolded Inr]]
    let ?q = "revoke_refresh_token_family (db_now e RevokeRefreshTokenFamily) (token_family r)"
    obtain y d2 where y: "exec (fault_at e IsBenignRefreshRace)
        (query (\<lambda>d. Inr (is_benign_refresh_race (db_now e IsBenignRefreshRace) (used_at r) (trunc_seconds reuse_grace) (token_family r) d))) d = (y, d2)"
      by (cases "exec (fault_at e IsBenignRefreshRace)
        (query (\<lambda>d. Inr (is_benign_refresh_race (db_now e IsBenignRefreshRace) (used_at r) (trunc_seconds reuse_grace) (token_family r) d))) d")
    have d2: "d2 = d" using exec_query_state [OF y] .
    obtain z d3 where z: "exec (fault_at e RevokeRefreshTokenFamily) ?q d = (z, d3)"
      by (cases "exec (fault_at e RevokeRefreshTokenFamily) ?q d")
    have d3: "d3 = d \<or> d3 = snd (?q d)" "\<exists>n. z = Inr n \<Longrightarrow> d3 = snd (?q d)"
      using exec_state [OF z] z by (auto dest: exec_Inr)
    consider "used_at r = None" | err' where "used_at r \<noteq> None" "y = Inl err'" | "used_at r \<noteq> None" "y = Inr (Some True)"
      | b where "used_at r \<noteq> None" "y = Inr b" "b \<noteq> Some True" by (cases y) auto
    then show ?thesis
    proof cases
      case (4 b)
      then have "(err, d') = (case z of Inl err \<Rightarrow> DbFailure ''revoking reused token family'' err | Inr _ \<Rightarrow> ErrRefreshTokenReused, d3)"
        using assms x d1 Inr y d2 z by (cases z) (simp_all add: diagnose_failed_consume_def)
      then show ?thesis using r 4(1) d3 by (cases z) auto
    qed (use assms x d1 Inr y d2 in \<open>auto simp: diagnose_failed_consume_def\<close>)
  qed
qed

text \<open>
  C28. Atomicity. When any statement of a rotation may fail, an error answer means one of three
  things about the stored rows: they are as before, and the answer is not that a replay ended
  the family; or the presented token is a spent one of the table, and exactly its own family
  was revoked, at the time of that statement; or the commit took effect but its
  acknowledgement was lost, and the whole rotation happened.
\<close>

theorem failed_rotation_is_atomic:
  assumes "rotate L t e tok d = (Inl err, d')"
  shows "d' = d \<and> err \<noteq> ErrRefreshTokenReused
    \<or> (err = ErrRefreshTokenReused \<or> (\<exists>cause. err = DbFailure ''revoking reused token family'' cause))
       \<and> (\<exists>r \<in> set (refresh_tokens d). token_hash r = hash_refresh_token tok \<and> used_at r \<noteq> None
            \<and> d' = snd (revoke_refresh_token_family (db_now e RevokeRefreshTokenFamily) (token_family r) d))
    \<or> (\<exists>cause s. err = DbFailure ''committing rotation'' cause
         \<and> rotate L t (e\<lparr>fault_at := (fault_at e)(CommitTx := NoFault)\<rparr>) tok d = (Inr s, d'))"
proof (cases rule: rotate_cases [of e d tok L t])
  case diagnosed
  then have "diagnose_failed_consume e (hash_refresh_token tok) d = (err, d')"
    using assms by (auto simp: map_prod_def split: prod.splits)
  from diagnosed_state [OF this] show ?thesis by blast
next
  case (dropped e')
  then show ?thesis using assms by auto
next
  case (committed c tx1 s tx2)
  let ?e = "e\<lparr>fault_at := (fault_at e)(CommitTx := NoFault)\<rparr>"
  show ?thesis
  proof (cases "d' = d")
    case False
    then obtain cause where err: "err = DbFailure ''committing rotation'' cause" "d' = tx2"
      using committed(3) assms by auto
    then show ?thesis using committed(4) by blast
  qed (use committed(3) assms in auto)
qed

lemma rotate_commit_lost:
  "rotate reference_libs reference_issuer (calm_env 10 0 3\<lparr>fault_at := (\<lambda>_. NoFault)(CommitTx := FailsAfter)\<rparr>) ''abc''
      (sample_db (hash_refresh_token ''abc'')) = (Inl (DbFailure ''committing rotation'' ConnectionLost), sample_rotated)"
proof -
  let ?e = "calm_env 10 0 3" and ?d = "sample_db (hash_refresh_token ''abc'')"
  obtain s where s: "rotate reference_libs reference_issuer ?e ''abc'' ?d = (Inr s, sample_rotated)"
    by (rule sample_rotates)
  obtain r d1 where c: "consume_refresh_token 10 (hash_refresh_token ''abc'') ?d = (Inr (mark_used 10 r), d1)"
    and m: "mint reference_libs reference_issuer ?e 10 (token_user r) (token_family r) d1 = (Inr s, sample_rotated)"
    by (rule rotate_success [OF s]) simp
  have "mint reference_libs reference_issuer (?e\<lparr>fault_at := (\<lambda>_. NoFault)(CommitTx := FailsAfter)\<rparr>) = mint reference_libs reference_issuer ?e"
    using mint_commit_fault [of reference_libs reference_issuer ?e FailsAfter] by (simp add: calm_env_def)
  then show ?thesis using c m by (simp add: rotate_def begin_tx_def commit_tx_def calm_env_def exec_def)
qed

theorem failed_rotation_is_atomic_witness:
  "sample_rotated = sample_db (hash_refresh_token ''abc'') \<and> DbFailure ''committing rotation'' ConnectionLost \<noteq> ErrRefreshTokenReused
    \<or> (DbFailure ''committing rotation'' ConnectionLost = ErrRefreshTokenReused
        \<or> (\<exists>cause. DbFailure ''committing rotation'' ConnectionLost = DbFailure ''revoking reused token family'' cause))
       \<and> (\<exists>r \<in> set (refresh_tokens (sample_db (hash_refresh_token ''abc''))). token_hash r = hash_refresh_token ''abc'' \<and> used_at r \<noteq> None
            \<and> sample_rotated = snd (revoke_refresh_token_family 10 (token_family r) (sample_db (hash_refresh_token ''abc''))))
    \<or> (\<exists>cause s. DbFailure ''committing rotation'' ConnectionLost = DbFailure ''committing rotation'' cause
         \<and> rotate reference_libs reference_issuer (calm_env 10 0 3\<lparr>fault_at := (\<lambda>_. NoFault)(CommitTx := FailsAfter, CommitTx := NoFault)\<rparr>)
             ''abc'' (sample_db (hash_refresh_token ''abc'')) = (Inr s, sample_rotated))"
  using failed_rotation_is_atomic [OF rotate_commit_lost] by simp

theorem lost_race_is_harmless_witness:
  "\<exists>s :: session. rotate reference_libs reference_issuer (calm_env 20 1 4) ''abc'' sample_rotated = (Inl ErrRefreshTokenRaced, sample_rotated)
    \<and> granted_family (fst (rotate reference_libs reference_issuer (calm_env 30 1 4) (refresh_secret (session_refresh s)) sample_rotated))
        = Some (session_family s)"
proof -
  obtain s where s: "rotate reference_libs reference_issuer (calm_env 10 0 3) ''abc'' (sample_db (hash_refresh_token ''abc''))
      = (Inr s, sample_rotated)" by (rule sample_rotates)
  have fresh: "fresh_draws (calm_env 30 1 4) (\<lambda>_. 1) sample_rotated"
    by (simp add: fresh_draws_def sample_rotated_def sample_token_def hash_abc secret_zero secret_one hash_secret_zero hash_secret_one)
  have clock: "\<forall>r \<in> set (refresh_tokens (sample_db (hash_refresh_token ''abc''))). issued_at r < db_now (calm_env 10 0 3) BeginTx"
    by (simp add: sample_db_def sample_token_def)
  have raced: "rotate reference_libs reference_issuer (calm_env 20 1 4) ''abc'' sample_rotated = (Inl ErrRefreshTokenRaced, sample_rotated)"
    unfolding second_presentation [OF sample_ok s clock calm_env_simps(1)]
    by (simp add: to_micros_def refresh_token_ttl_def reuse_grace_micros hour_def minute_def second_def)
  have "guarded_run session_guard (session_step reference_libs reference_issuer) [] sample_rotated" by simp
  from lost_race_is_harmless [OF sample_ok s clock this _ calm_env_simps(1) calm_env_simps(1) reference_libs_documented, of sample_rotated 30 1 4 "\<lambda>_. 1" 20 1 4]
    fresh raced show ?thesis
    by (intro exI [of _ s]) (simp add: to_micros_def refresh_token_ttl_def hour_def minute_def second_def split: if_splits)
qed


lemma diagnose_state:
  "snd (diagnose_failed_consume e h d) = d
    \<or> (\<exists>r now. get_refresh_token_by_hash h d = Inr r
        \<and> snd (diagnose_failed_consume e h d) = snd (revoke_refresh_token_family now (token_family r) d))"
  by (auto simp: diagnose_failed_consume_def split: sum.splits sql_error.splits prod.splits if_splits
      dest!: exec_query_both dest: exec_state)

text \<open>
  Isolation. Whatever happens in a rotation, it writes no users and no identities, and
  leaves the rows of every family but the presented token's as they were.
\<close>

theorem rotation_stays_in_family:
  assumes "sessions_ok d" and "f \<noteq> token_family r" and "r \<in> set (refresh_tokens d)"
    and "token_hash r = hash_refresh_token tok"
  shows "users (snd (rotate L t e tok d)) = users d \<and> identities (snd (rotate L t e tok d)) = identities d
    \<and> family_rows f (refresh_tokens (snd (rotate L t e tok d))) = family_rows f (refresh_tokens d)"
proof -
  have wf: "tokens_wf d" and ch: "chains_ok d" using assms(1) by (simp_all add: sessions_ok_def)
  have frame: "users d2 = users d \<and> identities d2 = identities d \<and> family_rows f (refresh_tokens d2) = family_rows f (refresh_tokens d)"
    if "d2 = snd (revoke_refresh_token_family now (token_family r) d)" for d2 now
    unfolding that revoke_refresh_token_family_def revoke_where_def Let_def
    using assms(2) by (simp, intro update_where_none) (auto simp: set_family_rows)
  show ?thesis
  proof (cases rule: rotate_cases [of e d tok L t])
    case diagnosed
    have "get_refresh_token_by_hash (hash_refresh_token tok) d = Inr r"
      using get_by_hash_row [OF wf assms(3)] assms(4) by simp
    with diagnose_state [of e "hash_refresh_token tok" d] have "snd (diagnose_failed_consume e (hash_refresh_token tok) d) = d
        \<or> (\<exists>now. snd (diagnose_failed_consume e (hash_refresh_token tok) d) = snd (revoke_refresh_token_family now (token_family r) d))"
      by auto
    then consider "snd (rotate L t e tok d) = d"
      | now where "snd (rotate L t e tok d) = snd (revoke_refresh_token_family now (token_family r) d)"
      by (auto simp: diagnosed(3))
    then show ?thesis by cases (simp, rule frame)
  next
    case (dropped err)
    then show ?thesis by simp
  next
    case (committed c tx1 s tx2)
    obtain q xs where q: "q \<in> set (refresh_tokens d)" "consumable (db_now e BeginTx) (hash_refresh_token tok) (refresh_tokens d) q"
      "c = mark_used (db_now e BeginTx) q"
      and "family_rows (token_family q) (refresh_tokens d) = xs @ [q]"
      and "family_rows (token_family q) (refresh_tokens tx1) = xs @ [mark_used (db_now e BeginTx) q]"
      and other: "\<forall>f. f \<noteq> token_family q \<longrightarrow> family_rows f (refresh_tokens tx1) = family_rows f (refresh_tokens d)"
      and us: "users tx1 = users d"
      by (rule consume_family_rows [OF committed(1) wf ch])
    have "q = r" using same_hash_same_row [OF wf q(1) assms(3)] q(2) assms(4) by (simp add: consumable_def)
    then have "family_rows f (refresh_tokens tx2) = family_rows f (refresh_tokens d)"
      using other assms(2) q(3) by (simp add: mint_insert(3) [OF committed(2)])
    moreover have "identities tx1 = identities d"
      using committed(1) by (rule consume_Inr) simp
    ultimately show ?thesis
      using committed(3) us mint_insert(4,5) [OF committed(2)] by auto
  qed
qed

section \<open>Refreshing for as long as one likes\<close>

text \<open>A client that presents each new secret in turn.\<close>

fun keep_refreshing :: "libs \<Rightarrow> token_issuer \<Rightarrow> env list \<Rightarrow> session \<Rightarrow> db \<Rightarrow> (session_error + session) \<times> db" where
  "keep_refreshing L t [] s d = (Inr s, d)"
| "keep_refreshing L t (e # es) s d =
    (case rotate L t e (refresh_secret (session_refresh s)) d of
       (Inl err, d') \<Rightarrow> (Inl err, d')
     | (Inr s', d') \<Rightarrow> keep_refreshing L t es s' d')"

text \<open>
  Each request is calm, draws what the table does not have yet, and comes after every issue so
  far and before the expiry of the token it presents.
\<close>

fun in_time :: "libs \<Rightarrow> token_issuer \<Rightarrow> env list \<Rightarrow> session \<Rightarrow> db \<Rightarrow> bool" where
  "in_time L t [] s d \<longleftrightarrow> True"
| "in_time L t (e # es) s d \<longleftrightarrow> faultless e \<and> (\<exists>b. fresh_draws e b d)
     \<and> (\<forall>r \<in> set (refresh_tokens d). issued_at r < db_now e BeginTx)
     \<and> db_now e BeginTx < to_micros (refresh_expires_at (session_refresh s))
     \<and> (case rotate L t e (refresh_secret (session_refresh s)) d of
          (Inl err, d') \<Rightarrow> True
        | (Inr s', d') \<Rightarrow> in_time L t es s' d')"

definition session_live :: "session \<Rightarrow> db \<Rightarrow> bool" where
  "session_live s d \<longleftrightarrow> \<not> family_revoked (refresh_tokens d) (session_family s)
    \<and> (\<exists>n \<in> set (refresh_tokens d). token_hash n = hash_refresh_token (refresh_secret (session_refresh s))
        \<and> token_family n = session_family s \<and> token_user n = session_user s \<and> used_at n = None \<and> revoked_at n = None
        \<and> expires_at n = to_micros (refresh_expires_at (session_refresh s)))"

lemma mint_expiry: "mint L t e now u f d = (Inr s, d') \<Longrightarrow> refresh_expires_at (session_refresh s) = go_now e RefreshClock + refresh_token_ttl"
  by (erule mint_Inr)

lemma live_rotation:
  assumes "session_live s d" and "sessions_ok d" and "libs_documented L" and "faultless e" and "fresh_draws e b d"
    and "\<forall>r \<in> set (refresh_tokens d). issued_at r < db_now e BeginTx"
    and "db_now e BeginTx < to_micros (refresh_expires_at (session_refresh s))"
  obtains s' d' where "rotate L t e (refresh_secret (session_refresh s)) d = (Inr s', d')"
    and "session_family s' = session_family s" and "session_user s' = session_user s"
    and "session_live s' d'" and "sessions_ok d'"
proof -
  from assms(1) obtain n where n: "n \<in> set (refresh_tokens d)"
    "token_hash n = hash_refresh_token (refresh_secret (session_refresh s))" "token_family n = session_family s"
    "token_user n = session_user s" "used_at n = None" "revoked_at n = None"
    "expires_at n = to_micros (refresh_expires_at (session_refresh s))"
    and live: "\<not> family_revoked (refresh_tokens d) (session_family s)"
    unfolding session_live_def by blast
  have c: "consumable (db_now e BeginTx) (hash_refresh_token (refresh_secret (session_refresh s))) (refresh_tokens d) n"
    using n live assms(7) by (simp add: consumable_def)
  obtain s' d' where run: "rotate L t e (refresh_secret (session_refresh s)) d = (Inr s', d')"
    and s': "session_family s' = token_family n" "session_user s' = token_user n"
    by (rule rotate_granted [OF assms(4,3,2,5) n(1) c]) blast
  obtain r' :: refresh_token and d1 where m: "mint L t e (db_now e BeginTx) (token_user r') (token_family r') d1 = (Inr s', d')"
    using run by (rule rotate_success)
  obtain xs r m' where fr: "family_rows (session_family s') (refresh_tokens d') = xs @ [r, m']"
    and m': "used_at m' = None" "revoked_at m' = None"
      "token_hash m' = hash_refresh_token (refresh_secret (session_refresh s'))"
      "expires_at m' = to_micros (go_now e RefreshClock + refresh_token_ttl)" "token_user m' = session_user s'"
      "\<not> family_revoked (refresh_tokens d') (session_family s')" and ok: "sessions_ok d'"
    by (rule rotated_family [OF assms(2) run assms(6)]) blast
  have "m' \<in> set (refresh_tokens d')" "token_family m' = session_family s'"
    using arg_cong [OF fr, of set] by (auto simp: set_family_rows)
  then have "session_live s' d'" using m' mint_expiry [OF m] unfolding session_live_def by metis
  then show thesis using run s' n ok by (intro that) simp_all
qed

lemma refreshing_never_stops:
  "session_live s d \<Longrightarrow> sessions_ok d \<Longrightarrow> libs_documented L \<Longrightarrow> in_time L t es s d \<Longrightarrow>
    \<exists>s' d'. keep_refreshing L t es s d = (Inr s', d') \<and> session_family s' = session_family s \<and> session_user s' = session_user s"
proof (induction es arbitrary: s d)
  case (Cons e es)
  then obtain b where b: "faultless e" "fresh_draws e b d" "\<forall>r \<in> set (refresh_tokens d). issued_at r < db_now e BeginTx"
    "db_now e BeginTx < to_micros (refresh_expires_at (session_refresh s))" by auto
  obtain s' d' where run: "rotate L t e (refresh_secret (session_refresh s)) d = (Inr s', d')"
    and s': "session_family s' = session_family s" "session_user s' = session_user s"
    and live: "session_live s' d'" "sessions_ok d'"
    by (rule live_rotation [OF Cons.prems(1-3) b])
  show ?case using Cons.IH [OF live Cons.prems(3)] Cons.prems(4) run s' by auto
qed simp

lemma issue_live:
  assumes "sessions_ok d" and "fresh_uuid e \<notin> token_family ` set (refresh_tokens d)" and "issue L t e u d = (Inr s, d')"
  shows "session_live s d' \<and> sessions_ok d' \<and> session_family s = fresh_uuid e \<and> session_user s = u"
proof -
  have m: "mint L t e (db_now e InsertRefreshToken) u (fresh_uuid e) d = (Inr s, d')"
    using assms(3) by (simp add: issue_def)
  note i = mint_insert [OF m] mint_expiry [OF m]
  have "\<not> family_revoked (refresh_tokens d') (fresh_uuid e)"
    using assms(2) by (simp add: i(3) family_revoked_def list_ex_iff) (metis image_eqI)
  then have "session_live s d'" by (simp add: session_live_def i)
  moreover have "sessions_ok (session_step L t (OpIssue e u) d)"
    by (rule sess.inv_step) (use assms in \<open>simp_all add: session_guard_def\<close>)
  ultimately show ?thesis using i assms(3) by simp
qed

text \<open>
  C25. Liveness. After a sign-in, a client that presents each token it is given before it
  expires is granted a new session every time, for any number of refreshes, always of the
  family and the user it signed in as.
\<close>

theorem honest_client_never_stops:
  assumes "sessions_ok d" and "libs_documented L" and "fresh_uuid e \<notin> token_family ` set (refresh_tokens d)"
    and "issue L t e u d = (Inr s, d')" and "in_time L t es s d'"
  shows "\<exists>s' d''. keep_refreshing L t es s d' = (Inr s', d'') \<and> session_family s' = fresh_uuid e \<and> session_user s' = u"
  using refreshing_never_stops [of s d' L t es] issue_live [OF assms(1,3,4)] assms(2,5) by auto

theorem honest_client_never_stops_witness:
  "\<exists>(s :: session) d' s' d''. issue reference_libs reference_issuer (calm_env 10 0 3) 1
        \<lparr>users = [sample_user], identities = [], refresh_tokens = []\<rparr> = (Inr s, d')
    \<and> keep_refreshing reference_libs reference_issuer [calm_env 20 1 4] s d' = (Inr s', d'')
    \<and> session_family s' = 3 \<and> session_user s' = 1"
proof -
  let ?d = "\<lparr>users = [sample_user], identities = [], refresh_tokens = []\<rparr>" and ?e = "calm_env 10 0 3"
  have ok: "sessions_ok ?d" by (simp add: sessions_ok_def tokens_wf_def chains_ok_def family_rows_def)
  have fresh: "fresh_draws ?e (\<lambda>_. 0) ?d" by (simp add: fresh_draws_def)
  obtain s d' where m: "mint reference_libs reference_issuer ?e 10 1 3 ?d = (Inr s, d')"
    by (rule mint_faultless [OF calm_env_simps(1) reference_libs_documented fresh, of 1]) (simp_all add: sample_user_def)
  then have run: "issue reference_libs reference_issuer ?e 1 ?d = (Inr s, d')" by (simp add: issue_def)
  obtain f where "random_bytes ?e = Some f" "refresh_secret (session_refresh s) = refresh_secret_of f"
    by (rule mint_Inr [OF m])
  then have sec: "refresh_secret (session_refresh s) = refresh_secret_of (\<lambda>_. 0)" by simp
  have "in_time reference_libs reference_issuer [calm_env 20 1 4] s d'"
    using sec mint_insert [OF m] mint_expiry [OF m]
    by (auto simp: fresh_draws_def secret_zero secret_one hash_secret_zero hash_secret_one to_micros_def
        refresh_token_ttl_def hour_def minute_def second_def split: sum.splits prod.splits)
  moreover have "fresh_uuid ?e \<notin> token_family ` set (refresh_tokens ?d)" by simp
  ultimately have "\<exists>s' d''. keep_refreshing reference_libs reference_issuer [calm_env 20 1 4] s d' = (Inr s', d'')
      \<and> session_family s' = fresh_uuid ?e \<and> session_user s' = 1"
    using honest_client_never_stops [OF ok reference_libs_documented _ run] by blast
  then show ?thesis using run by (auto simp del: keep_refreshing.simps)
qed

section \<open>What a session's tokens are worth\<close>

lemma granted_access:
  assumes "rotate L t e tok d = (Inr s, d')"
  shows "new_access_token (jwt L) t (uuid_string L (session_user s)) (go_now e AccessClock) = Inr (session_access s)"
proof -
  obtain r :: refresh_token and d1 where "mint L t e (db_now e BeginTx) (token_user r) (token_family r) d1 = (Inr s, d')"
    using assms by (rule rotate_success)
  then show ?thesis by (rule mint_Inr) simp
qed

text \<open>
  C31. The access token of a rotation. Until the whole second in which its fifteen minutes end,
  and not after it, the server accepts it as the uuid of the session's user; then it answers
  ErrExpiredAccessToken, which tells the client to refresh.
\<close>

theorem granted_access_token_lifetime:
  assumes "libs_documented L" and "rotate L t e tok d = (Inr s, d')"
    and "0 < (go_now e AccessClock + access_token_ttl) div second"
  shows "map_sum id (uuid_parse L) (parse_access_token (jwt L) t now (access_jwt (session_access s)))
    = (if now div second < (go_now e AccessClock + access_token_ttl) div second then Inr (Some (session_user s))
       else Inl ErrExpiredAccessToken)"
  using parse_own_access_token [OF _ granted_access [OF assms(2)] assms(3)] assms(1)
  by (simp add: libs_documented_def uuid_documented_def)

theorem granted_access_token_lifetime_witness:
  "\<exists>s :: session. map_sum id (uuid_parse reference_libs)
      (parse_access_token (jwt reference_libs) reference_issuer 899999999999 (access_jwt (session_access s))) = Inr (Some (session_user s))
    \<and> session_user s = 1"
proof -
  obtain s where s: "rotate reference_libs reference_issuer (calm_env 10 0 3) ''abc'' (sample_db (hash_refresh_token ''abc''))
      = (Inr s, sample_rotated)" "session_user s = 1" by (rule sample_rotates)
  have "map_sum id (uuid_parse reference_libs)
      (parse_access_token (jwt reference_libs) reference_issuer 899999999999 (access_jwt (session_access s))) = Inr (Some (session_user s))"
    using granted_access_token_lifetime [OF reference_libs_documented s(1), of 899999999999]
    by (simp add: access_token_ttl_def minute_def second_def)
  then show ?thesis using s(2) by blast
qed

text \<open>
  C24. What the server accepts as an access token. A token ParseAccessToken accepts is signed
  with HS256 under the server's own key, so neither alg=none nor another key's signature is
  enough; it has the server as its issuer, the access type, a subject and an expiry in the
  future.
\<close>

theorem accepted_access_token_is_ours:
  assumes "jwt_documented L" and "parse_access_token L t now raw = Inr user"
  shows "jwt_alg L raw = Some ''HS256'' \<and> jwt_verifies L (signing_key t) raw \<and> user \<noteq> []
    \<and> (\<exists>claims. jwt_parse L (access_options now) (signing_key t) raw = Inr (MapClaims claims)
         \<and> map_of claims ''typ'' = Some (CString ''access'')
         \<and> map_of claims ''sub'' = Some (CString user)
         \<and> map_of claims ''iss'' = Some (CString ''einkaufsliste'')
         \<and> (\<exists>e. map_of claims ''exp'' = Some (CNumber e) \<and> now < e * second))"
  using parse_access_token_sound [OF assms] by (simp add: access_token_type_def issuer_name_def)

theorem accepted_access_token_is_ours_witness:
  "\<exists>a :: access_token. jwt_alg reference_jwt (access_jwt a) = Some ''HS256''
    \<and> jwt_verifies reference_jwt (replicate 32 0) (access_jwt a)"
proof -
  obtain a where a: "new_access_token reference_jwt reference_issuer ''u'' 0 = Inr a"
    using new_access_token_ok [OF reference_jwt_documented, of "''u''"] by blast
  have "parse_access_token reference_jwt reference_issuer 0 (access_jwt a) = Inr ''u''"
    using parse_own_access_token [OF reference_jwt_documented a]
    by (simp add: access_token_ttl_def minute_def second_def)
  from accepted_access_token_is_ours [OF reference_jwt_documented this] show ?thesis
    by (auto simp: reference_issuer_def)
qed

text \<open>
  Refresh secrets keep their entropy. The secret handed to the client decodes to the 32
  random bytes it was drawn from, so two draws give the same secret exactly when their bytes
  agree; it is 43 characters of the URL-safe alphabet, and what is stored is the 64-digit
  hash of it.
\<close>

theorem refresh_secret_keeps_entropy:
  "\<exists>r. new_refresh_token (Some f) now = Inr r \<and> b64_decode (refresh_secret r) = Some (map f [0..<32])
    \<and> length (refresh_secret r) = 43 \<and> set (refresh_secret r) \<subseteq> set b64_alphabet
    \<and> refresh_hash r = hash_refresh_token (refresh_secret r) \<and> length (refresh_hash r) = 64
    \<and> (new_refresh_token (Some g) now = Inr r) = (\<forall>i. f (i mod 32) = g (i mod 32))"
proof -
  have "(\<forall>i < (32 :: nat). f i = g i) = (\<forall>i. f (i mod 32) = g (i mod 32))"
    by (metis mod_less mod_less_divisor zero_less_numeral)
  moreover have "refresh_secret_of g = refresh_secret_of f \<longleftrightarrow> (\<forall>i < (32 :: nat). f i = g i)"
    by (auto simp: refresh_secret_of_eq_iff refresh_token_bytes_def)
  ultimately show ?thesis
    using length_refresh_secret_of [of f] set_b64_encode [of "map f [0..<32]"] b64.decode_encode [of "map f [0..<32]"]
    by (auto simp: new_refresh_token_ok refresh_secret_of_def refresh_token_bytes_def)
qed
end
