(* ===== verification/Service.thy ===== *)
theory Service
  imports Router Account_Theorems Session_Theorems
begin

text \<open>
  The server as one state machine: its state is the committed database, a step is one HTTP
  call. The refresh-token table only grows, so the interface \<open>token_history\<close> holds of the whole
  server, and the invariants of the account and token tables are kept by every call.
\<close>

section \<open>What the handlers do to the database\<close>

lemma respond_simps [simp]:
  "out_db (respond logs d rl) = d" "out_response (respond logs d rl) = fst rl" "out_log (respond logs d rl) = logs @ snd rl"
  by (simp_all add: respond_def)

lemma by_id_state: "by_id e u d = (r, d') \<Longrightarrow> d' = d"
  by (auto simp: by_id_def map_prod_def split: prod.splits dest: exec_query_state)

lemma write_session_db [simp]: "out_db (write_session p s e ses u logs d) = d"
  by (auto simp: write_session_def Let_def split: option.splits sum.splits prod.splits dest: by_id_state)

lemma get_me_db [simp]: "out_db (get_me p s e r d) = d"
  by (auto simp: get_me_def split: sum.splits prod.splits dest: by_id_state)

lemma get_health_db [simp]: "out_db (get_health p d) = d"
  by (simp add: get_health_def)

lemma auth_refresh_db:
  "out_db (auth_refresh p s e r d) = (if refresh_cookie r = [] then d
     else snd (rotate (pf_libs p) (srv_tokens s) e (refresh_cookie r) d))"
  by (auto simp: auth_refresh_def Let_def split: sum.splits session_error.splits prod.splits)

lemma auth_logout_db:
  "out_db (auth_logout p s e r d) = (if refresh_cookie r = [] then d else snd (revoke_by_token e (refresh_cookie r) d))"
  by (simp add: auth_logout_def Let_def split_beta)

text \<open>A completed sign-in: the database after provisioning, after the revocation and after the issue.\<close>

lemma complete_sign_in_db:
  obtains d1 d2 where "d1 = snd (snd (provision (pf_pg p) (pf_libs p) e i d))"
    and "d2 = d1 \<or> d2 = snd (revoke_by_token e (refresh_cookie r) d1)"
    and "out_db (complete_sign_in p s e provider r i d) = d1
      \<or> out_db (complete_sign_in p s e provider r i d) = d2
      \<or> (\<exists>u. out_db (complete_sign_in p s e provider r i d) = snd (issue (pf_libs p) (srv_tokens s) e u d2))"
proof -
  obtain x logs d1 where pr: "provision (pf_pg p) (pf_libs p) e i d = (x, logs, d1)"
    by (cases "provision (pf_pg p) (pf_libs p) e i d")
  obtain y d2 where rv: "(if refresh_cookie r \<noteq> [] then revoke_by_token e (refresh_cookie r) d1 else (Inr (), d1)) = (y, d2)"
    by (cases "if refresh_cookie r \<noteq> [] then revoke_by_token e (refresh_cookie r) d1 else (Inr (), d1)")
  have d2: "d2 = d1 \<or> d2 = snd (revoke_by_token e (refresh_cookie r) d1)" using rv by (auto split: if_splits)
  show thesis
  proof (cases x)
    case (Inl err)
    then show thesis using pr by (intro that [of d1 d1]) (simp_all add: complete_sign_in_def sign_in_failed_def)
  next
    case (Inr u)
    then show thesis
      using pr rv d2 by (intro that [of d1 d2])
        (auto simp: complete_sign_in_def sign_in_failed_def Let_def split: sum.splits prod.splits, (metis snd_conv)+)
  qed
qed

lemma auth_callback_db:
  "out_db (auth_callback p s e provider r d) = d
    \<or> (\<exists>i. out_db (auth_callback p s e provider r d) = out_db (complete_sign_in p s e provider r i d))"
  by (auto simp: auth_callback_def split: option.splits sum.splits)

text \<open>Every call, by what it did.\<close>

lemma serve_db:
  "out_db (serve p x s e c d) = d
    \<or> (\<exists>tok. out_db (serve p x s e c d) = snd (rotate (pf_libs p) (srv_tokens s) e tok d))
    \<or> (\<exists>tok. out_db (serve p x s e c d) = snd (revoke_by_token e tok d))
    \<or> (\<exists>provider i. out_db (serve p x s e c d) = out_db (complete_sign_in p s e provider (call_request c) i d))"
proof -
  have "out_db (run_operation p x s e op params c d) = d
    \<or> (\<exists>tok. out_db (run_operation p x s e op params c d) = snd (rotate (pf_libs p) (srv_tokens s) e tok d))
    \<or> (\<exists>tok. out_db (run_operation p x s e op params c d) = snd (revoke_by_token e tok d))
    \<or> (\<exists>provider i. out_db (run_operation p x s e op params c d) = out_db (complete_sign_in p s e provider (call_request c) i d))"
    for op params
  proof (cases op)
    case OpAuthCallback
    show ?thesis
      using auth_callback_db [of p s e _ "call_request c" d]
      by (simp add: OpAuthCallback wrap_auth_callback_def Let_def split: sum.splits) metis
  qed (auto simp: auth_refresh_db auth_logout_db)
  then show ?thesis by (simp add: serve_routes Let_def split: option.splits)
qed

section \<open>The table only grows\<close>

lemma revoke_by_token_le: "table_le (refresh_tokens d) (refresh_tokens (snd (revoke_by_token e tok d)))"
  by (rule token_effect_le [OF revoke_by_token_effect])

lemma rotate_le: "table_le (refresh_tokens d) (refresh_tokens (snd (rotate L t e tok d)))"
  by (rule token_effect_le [OF rotate_effect])

lemma issue_le: "table_le (refresh_tokens d) (refresh_tokens (snd (issue L t e u d)))"
  by (rule token_effect_le [OF issue_effect])

lemma provision_tokens: "refresh_tokens (snd (snd (provision g L e i d))) = refresh_tokens d"
  using provision_grows [of g L e i d] by auto

lemma complete_sign_in_le:
  "table_le (refresh_tokens d) (refresh_tokens (out_db (complete_sign_in p s e provider r i d)))"
proof -
  obtain d1 d2 where d1: "d1 = snd (snd (provision (pf_pg p) (pf_libs p) e i d))"
    and d2: "d2 = d1 \<or> d2 = snd (revoke_by_token e (refresh_cookie r) d1)"
    and out: "out_db (complete_sign_in p s e provider r i d) = d1
      \<or> out_db (complete_sign_in p s e provider r i d) = d2
      \<or> (\<exists>u. out_db (complete_sign_in p s e provider r i d) = snd (issue (pf_libs p) (srv_tokens s) e u d2))"
    by (rule complete_sign_in_db)
  have "table_le (refresh_tokens d) (refresh_tokens d1)" using d1 by (simp add: provision_tokens)
  moreover have "table_le (refresh_tokens d1) (refresh_tokens d2)" using d2 revoke_by_token_le by auto
  ultimately show ?thesis using out table_le_trans issue_le by metis
qed

datatype server_op = Call env http_call

fun server_step :: "platform \<Rightarrow> chi_lib \<Rightarrow> server \<Rightarrow> server_op \<Rightarrow> db \<Rightarrow> db" where
  "server_step p x s (Call e c) d = out_db (serve p x s e c d)"

lemma server_step_le: "table_le (refresh_tokens d) (refresh_tokens (server_step p x s a d))"
proof (cases a)
  case (Call e c)
  then show ?thesis
    using serve_db [of p x s e c d] rotate_le revoke_by_token_le complete_sign_in_le by (metis server_step.simps table_le_refl)
qed

interpretation srv: token_history refresh_tokens "server_step p x s" for p x s
  by unfold_locales (rule server_step_le)

section \<open>The invariant\<close>

definition service_ok :: "pg \<Rightarrow> db \<Rightarrow> bool" where
  "service_ok g d \<longleftrightarrow> accounts_wf g d \<and> relay_unverified d \<and> sessions_ok d"

text \<open>
  A call's draws: its uuid is no family of the table, and its transaction is later than every
  token issued so far.
\<close>

definition call_guard :: "server_op \<Rightarrow> db \<Rightarrow> bool" where
  "call_guard a d \<longleftrightarrow> (case a of Call e c \<Rightarrow>
     (\<forall>r \<in> set (refresh_tokens d). issued_at r < db_now e BeginTx) \<and> fresh_uuid e \<notin> token_family ` set (refresh_tokens d))"

lemma revoke_where_frame: "users (snd (revoke_where P n d)) = users d \<and> identities (snd (revoke_where P n d)) = identities d"
  by (simp add: revoke_where_def Let_def)

lemma token_effect_frame: "token_effect n f d d' \<Longrightarrow> users d' = users d \<and> identities d' = identities d"
proof (induction rule: token_effect.induct)
  case (rotated now h d c d1 i p r d2 g)
  have "users d1 = users d" "identities d1 = identities d" using rotated(1) by (auto elim!: consume_Inr)
  then show ?case using rotated(2) by (auto simp: insert_Inr)
qed (auto simp: revoke_where_frame insert_Inr)

lemma accounts_frame:
  "users d' = users d \<Longrightarrow> identities d' = identities d \<Longrightarrow> accounts_wf g d' = accounts_wf g d \<and> relay_unverified d' = relay_unverified d"
  by (simp add: accounts_wf_def verified_emails_def relay_unverified_def)

lemma effect_ok:
  assumes "token_effect n f d d'" and "service_ok g d"
    and "\<forall>now. n = Some now \<longrightarrow> (\<forall>r \<in> set (refresh_tokens d). issued_at r < now)"
    and "\<forall>u. f = Some u \<longrightarrow> u \<notin> token_family ` set (refresh_tokens d)"
  shows "service_ok g d'"
  using assms(2-4) token_effect_wf [OF assms(1)] token_effect_chains [OF assms(1)] token_effect_frame [OF assms(1)]
    accounts_frame [of d' d g]
  by (simp add: service_ok_def sessions_ok_def)

lemma more_users_ok:
  assumes "sessions_ok d" and "refresh_tokens d' = refresh_tokens d" and "user_id ` set (users d) \<subseteq> user_id ` set (users d')"
  shows "sessions_ok d'"
  using assms by (auto simp: sessions_ok_def tokens_wf_def chains_ok_def)

lemma more_users_wf:
  assumes "tokens_wf d" and "refresh_tokens d' = refresh_tokens d" and "user_id ` set (users d) \<subseteq> user_id ` set (users d')"
  shows "tokens_wf d'"
  using assms by (auto simp: tokens_wf_def)

lemma provision_user_ids: "user_id ` set (users d) \<subseteq> user_id ` set (users (snd (snd (provision g L e i d))))"
proof -
  obtain us where us: "map user_core (users (snd (snd (provision g L e i d)))) = map user_core (users d) @ us"
    using provision_grows [of g L e i d] by blast
  have ids: "user_id ` set vs = fst ` set (map user_core vs)" for vs :: "user_row list"
    by (simp add: user_core_def image_image)
  show ?thesis unfolding ids us by auto
qed

lemma provision_keeps_tokens_wf: "tokens_wf d \<Longrightarrow> tokens_wf (snd (snd (provision g L e i d)))"
  by (rule more_users_wf [OF _ provision_tokens provision_user_ids])

lemma provision_ok:
  assumes "service_ok g d"
  shows "service_ok g (snd (snd (provision g L e i d)))"
proof -
  have "relay_unverified (account_step g L (OpProvision e i) d)"
    by (rule relay.stable_step) (use assms in \<open>simp_all add: service_ok_def\<close>)
  then show ?thesis
    using assms provision_wf [of g d L e i] more_users_ok [OF _ provision_tokens provision_user_ids]
    by (simp add: service_ok_def)
qed

lemma revoke_by_token_families: "token_family ` set (refresh_tokens (snd (revoke_by_token e tok d))) = token_family ` set (refresh_tokens d)"
proof -
  have "token_family ` set (update_where P (mark_revoked n) rows) = token_family ` set rows" for P n rows
    using arg_cong [OF revoked_family.keys_same [of P n rows], of set] by simp
  then show ?thesis
    by (auto simp: revoke_by_token_def revoke_refresh_token_family_def revoke_where_def Let_def exec_def query_def
        split: sum.splits sql_error.splits prod.splits fault.splits)
qed

lemma complete_sign_in_ok:
  assumes "service_ok (pf_pg p) d" and "fresh_uuid e \<notin> token_family ` set (refresh_tokens d)"
  shows "service_ok (pf_pg p) (out_db (complete_sign_in p s e provider r i d))"
proof -
  obtain d1 d2 where d1: "d1 = snd (snd (provision (pf_pg p) (pf_libs p) e i d))"
    and d2: "d2 = d1 \<or> d2 = snd (revoke_by_token e (refresh_cookie r) d1)"
    and out: "out_db (complete_sign_in p s e provider r i d) = d1
      \<or> out_db (complete_sign_in p s e provider r i d) = d2
      \<or> (\<exists>u. out_db (complete_sign_in p s e provider r i d) = snd (issue (pf_libs p) (srv_tokens s) e u d2))"
    by (rule complete_sign_in_db)
  have ok1: "service_ok (pf_pg p) d1" using d1 provision_ok [OF assms(1)] by simp
  have ok2: "service_ok (pf_pg p) d2"
    using d2 effect_ok [OF revoke_by_token_effect ok1, of None None] ok1 by auto
  have fam: "fresh_uuid e \<notin> token_family ` set (refresh_tokens d2)"
    using assms(2) d1 d2 provision_tokens revoke_by_token_families by metis
  have "service_ok (pf_pg p) (snd (issue (pf_libs p) (srv_tokens s) e u d2))" for u
    by (rule effect_ok [OF issue_effect [of None] ok2]) (use fam in simp_all)
  then show ?thesis using out ok1 ok2 by metis
qed

lemma server_step_ok:
  assumes "service_ok (pf_pg p) d" and "call_guard a d"
  shows "service_ok (pf_pg p) (server_step p x s a d)"
proof (cases a)
  case (Call e c)
  have clock: "\<forall>r \<in> set (refresh_tokens d). issued_at r < db_now e BeginTx"
    and fam: "fresh_uuid e \<notin> token_family ` set (refresh_tokens d)" using assms(2) by (simp_all add: call_guard_def Call)
  have "service_ok (pf_pg p) (snd (rotate (pf_libs p) (srv_tokens s) e tok d))" for tok
    by (rule effect_ok [OF rotate_effect [of e None] assms(1)]) (use clock in simp_all)
  moreover have "service_ok (pf_pg p) (snd (revoke_by_token e tok d))" for tok
    by (rule effect_ok [OF revoke_by_token_effect [of None None] assms(1)]) simp_all
  ultimately show ?thesis
    using serve_db [of p x s e c d] complete_sign_in_ok [OF assms(1) fam] assms(1) unfolding Call server_step.simps by metis
qed

interpretation service: transition_system "server_step p x s" call_guard "service_ok (pf_pg p)" for p x s
  by unfold_locales (rule server_step_ok)

end
