(* ===== verification/Service_Theorems.thy ===== *)
theory Service_Theorems
  imports Service
begin

text \<open>
  The properties of the HTTP handlers and of the whole server: what the refresh cookie and the
  responses give away, what a sign-in ends and starts, and that a signed-in client can use
  what it was given.
\<close>

section \<open>Responses\<close>

lemma response_ops [simp]:
  "resp_status (set_header k v r) = resp_status r" "resp_cookies (set_header k v r) = resp_cookies r"
  "resp_body (set_header k v r) = resp_body r" "resp_cookies (write_header st r) = resp_cookies r"
  "resp_body (write_header st r) = resp_body r" "resp_headers (write_header st r) = resp_headers r"
  "resp_status (set_cookie c r) = resp_status r" "resp_body (set_cookie c r) = resp_body r"
  "resp_headers (set_cookie c r) = resp_headers r"
  by (simp_all add: set_header_def set_cookie_def write_header_def)

lemma no_response_simps [simp]:
  "resp_status no_response = None" "resp_headers no_response = []" "resp_cookies no_response = []" "resp_body no_response = None"
  by (simp_all add: no_response_def)

lemma write_header_status [simp]: "resp_status r = None \<Longrightarrow> resp_status (write_header st r) = Some st"
  by (simp add: write_header_def)

lemma set_cookie_cookies [simp]: "resp_status r = None \<Longrightarrow> resp_cookies (set_cookie c r) = resp_cookies r @ [c]"
  by (simp add: set_cookie_def)

lemma set_header_headers [simp]: "resp_status r = None \<Longrightarrow> resp_headers (set_header k v r) = AList.update k v (resp_headers r)"
  by (simp add: set_header_def)

lemma encode_body_simps [simp]:
  "resp_status (fst (encode_body p m b r)) = resp_status r" "resp_cookies (fst (encode_body p m b r)) = resp_cookies r"
  "resp_headers (fst (encode_body p m b r)) = resp_headers r"
  "resp_body r = None \<Longrightarrow> resp_body (fst (encode_body p m b r)) = (if body_encodes p b then Some b else None)"
  by (simp_all add: encode_body_def)

lemma write_problem_simps [simp]:
  "resp_status r = None \<Longrightarrow> resp_status (fst (write_problem p st msg r)) = Some st"
  "resp_cookies (fst (write_problem p st msg r)) = resp_cookies r"
  "resp_status r = None \<Longrightarrow> resp_headers (fst (write_problem p st msg r)) = AList.update ''Content-Type'' problem_content_type (resp_headers r)"
  "resp_body (fst (write_problem p st msg r)) = Some (ProblemBody \<lparr>problem_detail = (if msg \<noteq> [] then Some msg else None),
     problem_instance = None, problem_status = st, problem_title = status_text st, problem_type = None\<rparr>)"
  by (simp_all add: write_problem_def encode_body_def)

section \<open>The refresh cookie\<close>

definition scoped_cookie :: "server \<Rightarrow> cookie \<Rightarrow> bool" where
  "scoped_cookie s c \<longleftrightarrow> cookie_name c = ''refresh_token'' \<and> cookie_path c = ''/api/v1/auth'' \<and> cookie_http_only c
    \<and> cookie_secure c = srv_secure_cookies s \<and> cookie_same_site c = SameSiteLax"

lemma refresh_cookies_scoped [simp]:
  "resp_status r = None \<Longrightarrow> resp_cookies (set_refresh_cookie s e t r) = resp_cookies r @ [\<lparr>
     cookie_name = refresh_cookie_name, cookie_value = refresh_secret t, cookie_path = refresh_cookie_path,
     cookie_expires = refresh_expires_at t, cookie_max_age = trunc_seconds (refresh_expires_at t - go_now e CookieClock),
     cookie_http_only = True, cookie_secure = srv_secure_cookies s, cookie_same_site = SameSiteLax\<rparr>]"
  "resp_status r = None \<Longrightarrow> resp_cookies (clear_refresh_cookie s r) = resp_cookies r @ [\<lparr>
     cookie_name = refresh_cookie_name, cookie_value = [], cookie_path = refresh_cookie_path,
     cookie_expires = 0, cookie_max_age = -1,
     cookie_http_only = True, cookie_secure = srv_secure_cookies s, cookie_same_site = SameSiteLax\<rparr>]"
  "resp_status (set_refresh_cookie s e t r) = resp_status r" "resp_status (clear_refresh_cookie s r) = resp_status r"
  "resp_body (set_refresh_cookie s e t r) = resp_body r" "resp_body (clear_refresh_cookie s r) = resp_body r"
  "resp_headers (set_refresh_cookie s e t r) = resp_headers r" "resp_headers (clear_refresh_cookie s r) = resp_headers r"
  by (simp_all add: set_refresh_cookie_def clear_refresh_cookie_def)

definition session_cookie :: "server \<Rightarrow> env \<Rightarrow> session \<Rightarrow> cookie" where
  "session_cookie s e ses = \<lparr>cookie_name = refresh_cookie_name, cookie_value = refresh_secret (session_refresh ses),
     cookie_path = refresh_cookie_path, cookie_expires = refresh_expires_at (session_refresh ses),
     cookie_max_age = trunc_seconds (refresh_expires_at (session_refresh ses) - go_now e CookieClock),
     cookie_http_only = True, cookie_secure = srv_secure_cookies s, cookie_same_site = SameSiteLax\<rparr>"

lemma write_session_cookies: "resp_cookies (out_response (write_session p s e ses u logs d)) = [session_cookie s e ses]"
  by (auto simp: write_session_def Let_def session_cookie_def split: option.splits sum.splits prod.splits)

lemma write_session_user:
  "resp_status (out_response (write_session p s e ses (Some u) logs d)) = Some 200"
  "resp_body (out_response (write_session p s e ses (Some u) logs d)) =
     (if pf_email_marshals p (email u) then Some (SessionBody \<lparr>api_access_token = access_jwt (session_access ses),
         api_expires_in = round_seconds (access_expires_at (session_access ses) - go_now e BodyClock),
         api_session_user = api_user_of u\<rparr>) else None)"
  by (simp_all add: write_session_def Let_def api_user_of_def)

text \<open>
  C33. Where the refresh token travels. Every cookie any operation of the API sets is the
  refresh cookie: HttpOnly, SameSite=Lax, Secure as configured, and scoped to the path
  /api/v1/auth, under which lie exactly the three operations that read it.
\<close>

theorem cookies_are_scoped:
  "list_all (scoped_cookie s) (resp_cookies (out_response (run_operation p x s e op params c d)))
    \<and> (op \<in> {OpAuthCallback, OpAuthRefresh, OpAuthLogout} \<longleftrightarrow>
        list_ex (\<lambda>((meth, path), op'). op' = op \<and> has_prefix path (refresh_cookie_path @ ''/'')) (api_routes []))"
proof
  have s: "scoped_cookie s (session_cookie s e ses)" for ses
    by (simp add: scoped_cookie_def session_cookie_def refresh_cookie_name_def refresh_cookie_path_def)
  have ws: "list_all (scoped_cookie s) (resp_cookies (out_response (write_session p s e ses u logs d)))" for ses u logs d
    by (simp add: write_session_cookies s)
  have cs: "list_all (scoped_cookie s) (resp_cookies (out_response (complete_sign_in p s e provider r i d)))" for provider r i d
    by (auto simp: complete_sign_in_def sign_in_failed_def Let_def ws split: sum.splits prod.splits)
  have cb: "list_all (scoped_cookie s) (resp_cookies (out_response (auth_callback p s e provider r d)))" for provider r d
    by (auto simp: auth_callback_def cs split: option.splits sum.splits)
  show "list_all (scoped_cookie s) (resp_cookies (out_response (run_operation p x s e op params c d)))"
  proof (cases op)
    case OpAuthCallback
    then show ?thesis
      by (auto simp: wrap_auth_callback_def Let_def cb bad_parameter_def split: sum.splits)
  next
    case OpAuthRefresh
    then show ?thesis
      by (auto simp: auth_refresh_def Let_def ws scoped_cookie_def refresh_cookie_name_def refresh_cookie_path_def
          split: sum.splits session_error.splits prod.splits)
  next
    case OpAuthLogout
    then show ?thesis
      by (simp add: auth_logout_def Let_def split_beta scoped_cookie_def refresh_cookie_name_def refresh_cookie_path_def)
  next
    case OpGetMe
    then show ?thesis by (auto simp: get_me_def split: sum.splits prod.splits)
  qed (simp add: get_health_def)
  show "op \<in> {OpAuthCallback, OpAuthRefresh, OpAuthLogout} \<longleftrightarrow>
        list_ex (\<lambda>((meth, path), op'). op' = op \<and> has_prefix path (refresh_cookie_path @ ''/'')) (api_routes [])"
    by (cases op) (simp_all add: api_routes_def refresh_cookie_path_def has_prefix_def)
qed

section \<open>Refreshing\<close>

text \<open>
  When the browser loses its cookie. AuthRefresh clears the refresh cookie exactly when
  one was presented and its rotation failed in any other way than by losing a race; the
  loser of a race keeps the cookie, which by then is the winner's.
\<close>

theorem refresh_clears_cookie_iff:
  "(map cookie_value (resp_cookies (out_response (auth_refresh p s e r d))) = [[]]) \<longleftrightarrow>
    refresh_cookie r \<noteq> [] \<and> (\<exists>err d1. rotate (pf_libs p) (srv_tokens s) e (refresh_cookie r) d = (Inl err, d1) \<and> err \<noteq> ErrRefreshTokenRaced)"
proof (cases "refresh_cookie r = []")
  case False
  obtain x d1 where run: "rotate (pf_libs p) (srv_tokens s) e (refresh_cookie r) d = (x, d1)"
    by (cases "rotate (pf_libs p) (srv_tokens s) e (refresh_cookie r) d")
  show ?thesis
  proof (cases x)
    case (Inl err)
    then show ?thesis using run False by (cases err) (simp_all add: auth_refresh_def)
  next
    case (Inr ses)
    obtain r' :: refresh_token and d2 where
      m: "mint (pf_libs p) (srv_tokens s) e (db_now e BeginTx) (token_user r') (token_family r') d2 = (Inr ses, d1)"
      using run [unfolded Inr] by (rule rotate_success)
    then obtain f where "refresh_secret (session_refresh ses) = refresh_secret_of f" by (rule mint_Inr)
    then show ?thesis using run False Inr by (simp add: auth_refresh_def write_session_cookies session_cookie_def)
  qed
qed (simp add: auth_refresh_def)

text \<open>
  C32. What a refused refresh answers. Whatever keeps a refresh from being granted (no cookie, an
  unknown, expired, revoked, replayed or raced token, a failing database), the status, the
  headers other than Set-Cookie and the body are the same 401. The answers differ in one thing:
  Set-Cookie clears the refresh cookie when one was presented and its rotation failed in any
  way but by losing a race, and is absent otherwise.
\<close>

theorem refresh_failures_look_alike:
  assumes "refresh_cookie r = [] \<or> granted_family (fst (rotate (pf_libs p) (srv_tokens s) e (refresh_cookie r) d)) = None"
  shows "out_response (auth_refresh p s e r d) =
    \<lparr>resp_status = Some 401, resp_headers = [(''Content-Type'', ''application/problem+json'')],
     resp_cookies = (if refresh_cookie r = [] \<or> fst (rotate (pf_libs p) (srv_tokens s) e (refresh_cookie r) d) = Inl ErrRefreshTokenRaced
        then []
        else [\<lparr>cookie_name = ''refresh_token'', cookie_value = [], cookie_path = ''/api/v1/auth'', cookie_expires = 0, cookie_max_age = -1,
               cookie_http_only = True, cookie_secure = srv_secure_cookies s, cookie_same_site = SameSiteLax\<rparr>]),
     resp_body = Some (ProblemBody \<lparr>problem_detail = Some ''not signed in'', problem_instance = None, problem_status = 401,
       problem_title = ''Unauthorized'', problem_type = None\<rparr>)\<rparr>"
proof (cases "refresh_cookie r = []")
  case False
  then obtain err d1 where run: "rotate (pf_libs p) (srv_tokens s) e (refresh_cookie r) d = (Inl err, d1)"
    using assms by (cases "rotate (pf_libs p) (srv_tokens s) e (refresh_cookie r) d",
        cases "fst (rotate (pf_libs p) (srv_tokens s) e (refresh_cookie r) d)") auto
  then show ?thesis using False
    by (cases err) (simp_all add: auth_refresh_def problem_content_type_def status_text_def write_problem_def encode_body_def
        write_header_def set_header_def no_response_def clear_refresh_cookie_def set_cookie_def refresh_cookie_name_def refresh_cookie_path_def)
qed (simp add: auth_refresh_def problem_content_type_def status_text_def write_problem_def encode_body_def
    write_header_def set_header_def no_response_def)

section \<open>A server for the witnesses\<close>

definition sample_platform :: platform where
  "sample_platform = \<lparr>pf_libs = reference_libs, pf_pg = sample_pg, pf_oidc = reference_oidc, pf_oauth = sample_oauth,
     pf_email_marshals = (\<lambda>_. True)\<rparr>"

definition sample_server :: "exchanger \<Rightarrow> server" where
  "sample_server ex = \<lparr>srv_exchanger = ex, srv_tokens = reference_issuer, srv_secure_cookies = True\<rparr>"

lemma sample_platform_simps [simp]:
  "pf_libs sample_platform = reference_libs" "pf_pg sample_platform = sample_pg" "pf_oidc sample_platform = reference_oidc"
  "pf_oauth sample_platform = sample_oauth" "pf_email_marshals sample_platform = (\<lambda>_. True)"
  "srv_exchanger (sample_server ex) = ex" "srv_tokens (sample_server ex) = reference_issuer"
  by (simp_all add: sample_platform_def sample_server_def)

text \<open>No provider configured.\<close>

definition idle_server :: server where
  "idle_server = sample_server \<lparr>ex_verifier = \<lparr>providers = []\<rparr>, ex_configs = []\<rparr>"

lemma idle_server_tokens [simp]: "srv_tokens idle_server = reference_issuer"
  by (simp add: idle_server_def)

definition bare_request :: request where
  "bare_request = \<lparr>request_cookies = [], authorization = [], request_body = []\<rparr>"

lemma bare_request_simps [simp]: "refresh_cookie bare_request = []"
  by (simp add: refresh_cookie_def bare_request_def)

definition with_cookie :: "string \<Rightarrow> request \<Rightarrow> request" where
  "with_cookie v r = r\<lparr>request_cookies := [(''refresh_token'', v)]\<rparr>"

lemma with_cookie_simps [simp]: "refresh_cookie (with_cookie v r) = v" "request_body (with_cookie v r) = request_body r"
  by (simp_all add: refresh_cookie_def with_cookie_def refresh_cookie_name_def)

theorem refresh_failures_look_alike_witness:
  "resp_status (out_response (auth_refresh sample_platform idle_server (calm_env 20 0 3) (with_cookie ''abc'' bare_request) replayed_db)) = Some 401
    \<and> map cookie_max_age (resp_cookies (out_response (auth_refresh sample_platform idle_server (calm_env 20 0 3)
        (with_cookie ''abc'' bare_request) replayed_db))) = [-1]
    \<and> resp_body (out_response (auth_refresh sample_platform idle_server (calm_env 20 0 3) (with_cookie ''abc'' bare_request) replayed_db))
      = Some (ProblemBody \<lparr>problem_detail = Some ''not signed in'', problem_instance = None, problem_status = 401,
          problem_title = ''Unauthorized'', problem_type = None\<rparr>)"
proof -
  have "granted_family (fst (rotate (pf_libs sample_platform) (srv_tokens idle_server) (calm_env 20 0 3)
      (refresh_cookie (with_cookie ''abc'' bare_request)) replayed_db)) = None"
    by (simp add: sample_replay)
  with refresh_failures_look_alike [OF disjI2] show ?thesis by (simp add: sample_replay)
qed

section \<open>Signing in\<close>

text \<open>A sign-in that answered 200 ran all of its steps.\<close>

lemma complete_sign_in_200:
  assumes "resp_status (out_response (complete_sign_in p s e provider r i d)) = Some 200"
  obtains user logs d1 d2 ses where "provision (pf_pg p) (pf_libs p) e i d = (Inr user, logs, d1)"
    and "if refresh_cookie r = [] then d2 = d1 else revoke_by_token e (refresh_cookie r) d1 = (Inr (), d2)"
    and "issue (pf_libs p) (srv_tokens s) e (user_id user) d2 = (Inr ses, out_db (complete_sign_in p s e provider r i d))"
    and "resp_cookies (out_response (complete_sign_in p s e provider r i d)) = [session_cookie s e ses]"
    and "resp_body (out_response (complete_sign_in p s e provider r i d)) = (if pf_email_marshals p (email user) then
       Some (SessionBody \<lparr>api_access_token = access_jwt (session_access ses),
         api_expires_in = round_seconds (access_expires_at (session_access ses) - go_now e BodyClock),
         api_session_user = api_user_of user\<rparr>) else None)"
proof -
  obtain x logs d1 where pr: "provision (pf_pg p) (pf_libs p) e i d = (x, logs, d1)"
    by (cases "provision (pf_pg p) (pf_libs p) e i d")
  obtain y d2 where rv: "(if refresh_cookie r \<noteq> [] then revoke_by_token e (refresh_cookie r) d1 else (Inr (), d1)) = (y, d2)"
    by (cases "if refresh_cookie r \<noteq> [] then revoke_by_token e (refresh_cookie r) d1 else (Inr (), d1)")
  obtain user where x: "x = Inr user"
    using assms pr by (cases x) (simp_all add: complete_sign_in_def sign_in_failed_def)
  have y: "y = Inr ()"
    using assms pr rv x by (cases y) (simp_all add: complete_sign_in_def sign_in_failed_def)
  obtain z d3 where iss: "issue (pf_libs p) (srv_tokens s) e (user_id user) d2 = (z, d3)"
    by (cases "issue (pf_libs p) (srv_tokens s) e (user_id user) d2")
  obtain ses where z: "z = Inr ses"
    using assms pr rv x y iss by (cases z) (simp_all add: complete_sign_in_def sign_in_failed_def)
  have out: "complete_sign_in p s e provider r i d = write_session p s e ses (Some user)
      (logs @ [info ''signed in'' [(''provider'', AString provider), (''user_id'', AString (uuid_string (pf_libs p) (session_user ses)))]]) d3"
    using pr rv x y iss z by (simp add: complete_sign_in_def)
  show thesis
    by (rule that [of user logs d1 d2 ses])
      (use pr rv x y iss z in \<open>simp_all add: out write_session_cookies write_session_user split: if_splits\<close>)
qed

lemma auth_callback_200:
  assumes "resp_status (out_response (auth_callback p s e provider r d)) = Some 200"
  obtains i where "auth_callback p s e provider r d = complete_sign_in p s e provider r i d"
    and "resp_status (out_response (complete_sign_in p s e provider r i d)) = Some 200" and "id_provider i = provider"
proof -
  from assms obtain b where b: "read_callback_body (request_body r) = Some b"
    by (cases "read_callback_body (request_body r)") (simp_all add: auth_callback_def)
  let ?x = "exchange (pf_oidc p) (pf_oauth p) (srv_exchanger s) (go_now e VerifyClock)
      \<lparr>req_provider = provider, req_code = body_code b, req_code_verifier = body_code_verifier b,
       req_redirect_uri = body_redirect_uri b, req_nonce = body_nonce b\<rparr>"
  obtain i where i: "?x = Inr i"
    using assms b by (cases ?x) (simp_all add: auth_callback_def split: if_splits)
  have c: "auth_callback p s e provider r d = complete_sign_in p s e provider r i d"
    using assms b i by (simp add: auth_callback_def split: if_splits)
  have "id_provider i = provider" using i by (auto simp: exchange_Inr verify_Inr)
  with c assms show thesis by (intro that) simp_all
qed

text \<open>The account tables over a server's calls: the keys hold, and no account is lost or rewritten.\<close>

lemma server_step_accounts:
  obtains (same) "users (server_step p x s a d) = users d" "identities (server_step p x s a d) = identities d"
  | (provisioned) e i where "users (server_step p x s a d) = users (snd (snd (provision (pf_pg p) (pf_libs p) e i d)))"
      "identities (server_step p x s a d) = identities (snd (snd (provision (pf_pg p) (pf_libs p) e i d)))"
proof -
  obtain e c where a: "a = Call e c" by (cases a)
  note frame = token_effect_frame [OF rotate_effect] token_effect_frame [OF revoke_by_token_effect] token_effect_frame [OF issue_effect]
  consider "out_db (serve p x s e c d) = d"
    | tok where "out_db (serve p x s e c d) = snd (rotate (pf_libs p) (srv_tokens s) e tok d)"
    | tok where "out_db (serve p x s e c d) = snd (revoke_by_token e tok d)"
    | provider i where "out_db (serve p x s e c d) = out_db (complete_sign_in p s e provider (call_request c) i d)"
    using serve_db [of p x s e c d] by blast
  then show thesis
  proof cases
    case (4 provider i)
    obtain d1 d2 where d1: "d1 = snd (snd (provision (pf_pg p) (pf_libs p) e i d))"
      and d2: "d2 = d1 \<or> d2 = snd (revoke_by_token e (refresh_cookie (call_request c)) d1)"
      and out: "out_db (complete_sign_in p s e provider (call_request c) i d) = d1
        \<or> out_db (complete_sign_in p s e provider (call_request c) i d) = d2
        \<or> (\<exists>u. out_db (complete_sign_in p s e provider (call_request c) i d) = snd (issue (pf_libs p) (srv_tokens s) e u d2))"
      by (rule complete_sign_in_db)
    have d2': "users d2 = users d1" "identities d2 = identities d1" using d2 frame(2) by metis+
    have "users (out_db (complete_sign_in p s e provider (call_request c) i d)) = users d1"
      "identities (out_db (complete_sign_in p s e provider (call_request c) i d)) = identities d1"
      using out d2' frame(3) by metis+
    then show thesis using 4 a d1 by (intro provisioned) simp_all
  qed (use a frame in \<open>auto intro: same\<close>)
qed

lemma server_step_accounts_wf: "accounts_wf g d \<Longrightarrow> pf_pg p = g \<Longrightarrow> accounts_wf g (server_step p x s a d)"
proof (cases rule: server_step_accounts [of p x s a d])
  case same
  then show "accounts_wf g d \<Longrightarrow> ?thesis" using accounts_frame by blast
next
  case (provisioned e i)
  then show "accounts_wf g d \<Longrightarrow> pf_pg p = g \<Longrightarrow> ?thesis" using provision_wf accounts_frame by blast
qed

lemma server_step_cores: "k \<in> user_core ` set (users d) \<Longrightarrow> k \<in> user_core ` set (users (server_step p x s a d))"
proof (cases rule: server_step_accounts [of p x s a d])
  case (provisioned e i)
  obtain us where us: "map user_core (users (snd (snd (provision (pf_pg p) (pf_libs p) e i d)))) = map user_core (users d) @ us"
    using provision_grows [of "pf_pg p" "pf_libs p" e i d] by blast
  show "k \<in> user_core ` set (users d) \<Longrightarrow> ?thesis"
    using arg_cong [OF us, of set] provisioned(1) by auto
qed simp

interpretation account: stable_predicate "server_step p x s" "\<lambda>_ _. True" "accounts_wf (pf_pg p)"
  "\<lambda>d. k \<in> user_core ` set (users d)" for p x s k
  by unfold_locales (rule server_step_accounts_wf, simp_all add: server_step_cores)

lemma get_user_by_core:
  assumes "accounts_wf g d" and "user_core u \<in> user_core ` set (users d)" and "user_deleted_at u = None"
  obtains v where "get_user_by_id (user_id u) d = Inr v" and "user_core v = user_core u"
proof -
  obtain v where v: "v \<in> set (users d)" "user_core v = user_core u" using assms(2) by auto
  have "find (\<lambda>w. user_id w = user_id v \<and> user_deleted_at w = None) (users d) = Some v"
  proof (cases "find (\<lambda>w. user_id w = user_id v \<and> user_deleted_at w = None) (users d)")
    case None
    then show ?thesis using v assms(3) by (auto simp: find_None_iff user_core_def)
  next
    case (Some w)
    then have "w \<in> set (users d)" "user_id w = user_id v" by (auto dest: find_SomeD)
    moreover have "distinct (map user_id (users d))" using assms(1) by (simp add: accounts_wf_def)
    ultimately show ?thesis using Some v(1) distinct_key_unique by metis
  qed
  then have "get_user_by_id (user_id u) d = Inr v"
    using v(2) by (auto simp: get_user_by_id_def user_core_def)
  then show thesis using v(2) that by blast
qed

text \<open>
  C13. Signing in ends the browser's previous session. When a sign-in answers 200 and the
  request carried a refresh cookie the server knows, spent or not, the cookie's family is
  over: no later call of any kind, by anyone, lets a token of that family be rotated.
\<close>

theorem callback_ends_previous_session:
  assumes "tokens_wf d" and "resp_status (out_response (auth_callback p s e provider r d)) = Some 200"
    and "refresh_cookie r \<noteq> []" and "old \<in> set (refresh_tokens d)" and "token_hash old = hash_refresh_token (refresh_cookie r)"
  shows "granted_family (fst (rotate L t e' tok (run_steps (server_step p x s) as (out_db (auth_callback p s e provider r d)))))
    \<noteq> Some (token_family old)"
proof -
  obtain i where c: "auth_callback p s e provider r d = complete_sign_in p s e provider r i d"
    and ok: "resp_status (out_response (complete_sign_in p s e provider r i d)) = Some 200"
    using assms(2) by (rule auth_callback_200)
  obtain user logs d1 d2 ses where pr: "provision (pf_pg p) (pf_libs p) e i d = (Inr user, logs, d1)"
    and rv: "if refresh_cookie r = [] then d2 = d1 else revoke_by_token e (refresh_cookie r) d1 = (Inr (), d2)"
    and iss: "issue (pf_libs p) (srv_tokens s) e (user_id user) d2 = (Inr ses, out_db (complete_sign_in p s e provider r i d))"
    using ok by (rule complete_sign_in_200) blast
  have d1: "refresh_tokens d1 = refresh_tokens d" using provision_tokens [of "pf_pg p" "pf_libs p" e i d] pr by simp
  have wf: "tokens_wf d1" using provision_keeps_tokens_wf [OF assms(1), of "pf_pg p" "pf_libs p" e i] pr by simp
  have "family_revoked (refresh_tokens d2) (token_family old)"
    by (rule revoke_by_token_ends [of d1]) (use assms(3-5) d1 rv wf in auto)
  then have "family_revoked (refresh_tokens (out_db (auth_callback p s e provider r d))) (token_family old)"
    using issue_le [of d2 "pf_libs p" "srv_tokens s" e "user_id user"] iss c family_revoked_mono by (metis snd_conv)
  then have "family_revoked (refresh_tokens (run_steps (server_step p x s) as (out_db (auth_callback p s e provider r d)))) (token_family old)"
    by (intro srv.revoked.stable_run) simp_all
  then show ?thesis by (rule revoked_family_never_rotates)
qed

text \<open>
  C16. Who /me answers. A 200 from GetMe is for a live account, the one named by a token that is
  in the Authorization header after ''Bearer '', is signed with HS256 under the server's own
  key, and is not expired; the body is that account.
\<close>

theorem me_is_authentic:
  assumes "jwt_documented (jwt (pf_libs p))" and "resp_status (out_response (get_me p s e r d)) = Some 200"
  shows "\<exists>raw subject. \<exists>u \<in> set (users d). authorization r = ''Bearer '' @ raw \<and> jwt_alg (jwt (pf_libs p)) raw = Some ''HS256''
    \<and> jwt_verifies (jwt (pf_libs p)) (signing_key (srv_tokens s)) raw
    \<and> parse_access_token (jwt (pf_libs p)) (srv_tokens s) (go_now e ParseClock) raw = Inr subject
    \<and> uuid_parse (pf_libs p) subject = Some (user_id u) \<and> user_deleted_at u = None
    \<and> resp_body (out_response (get_me p s e r d)) = (if pf_email_marshals p (email u) then Some (UserBody (api_user_of u)) else None)"
proof -
  obtain k where k: "authenticate p s e r = Inr k"
    using assms(2) by (cases "authenticate p s e r") (simp_all add: get_me_def)
  obtain x d1 where x: "by_id e k d = (x, d1)" by (cases "by_id e k d")
  obtain u where u: "x = Inr u" using assms(2) k x by (cases x) (simp_all add: get_me_def)
  have "get_user_by_id k d = Inr u"
    using x u by (auto simp: by_id_def map_prod_def wrap_def map_sum_Inr split: prod.splits sum.splits dest!: exec_query_Inr)
  then have live: "u \<in> set (users d)" "user_id u = k" "user_deleted_at u = None"
    by (auto simp: get_user_by_id_def dest: find_SomeD)
  have "has_prefix (authorization r) bearer_prefix" using k by (auto simp: authenticate_def split: if_splits)
  then obtain raw where raw: "authorization r = bearer_prefix @ raw" by (auto simp: has_prefix_iff)
  obtain subject where sub: "parse_access_token (jwt (pf_libs p)) (srv_tokens s) (go_now e ParseClock) raw = Inr subject"
    "uuid_parse (pf_libs p) subject = Some k"
    using k by (auto simp: authenticate_def raw split: sum.splits option.splits)
  show ?thesis
    using parse_access_token_sound [OF assms(1) sub(1)] raw sub live k x u
    by (intro exI [of _ raw] exI [of _ subject] bexI [of _ u]) (simp_all add: get_me_def api_user_of_def bearer_prefix_def)
qed

text \<open>A sign-in that answered 200 leaves a live session of the account it names.\<close>

lemma complete_sign_in_state:
  assumes "provision (pf_pg p) (pf_libs p) e i d = (Inr user, logs, d1)" and "accounts_wf (pf_pg p) d"
    and "if refresh_cookie r = [] then d2 = d1 else revoke_by_token e (refresh_cookie r) d1 = (Inr (), d2)"
    and "issue (pf_libs p) (srv_tokens s) e (user_id user) d2 = (Inr ses, d3)"
  shows "user \<in> set (users d3)" and "user_deleted_at user = None" and "accounts_wf (pf_pg p) d3"
    and "new_access_token (jwt (pf_libs p)) (srv_tokens s) (uuid_string (pf_libs p) (user_id user)) (go_now e AccessClock)
      = Inr (session_access ses)"
    and "session_user ses = user_id user"
proof -
  have d2: "users d2 = users d1 \<and> identities d2 = identities d1"
    using assms(3) token_effect_frame [OF revoke_by_token_effect [of None None d1 e "refresh_cookie r"]] by (auto split: if_splits)
  have d3: "users d3 = users d2 \<and> identities d3 = identities d2"
    using token_effect_frame [OF issue_effect [of None e d2 "pf_libs p" "srv_tokens s" "user_id user"]] assms(4) by simp
  have "owns_identity d1 (id_provider i) (id_subject i) user" by (rule provision_owner [OF assms(1,2)])
  then show "user \<in> set (users d3)" "user_deleted_at user = None" using d2 d3 by (simp_all add: owns_identity_def)
  have "accounts_wf (pf_pg p) d1" using provision_wf [OF assms(2), of "pf_libs p" e i] assms(1) by simp
  then show "accounts_wf (pf_pg p) d3" using accounts_frame [of d3 d1] d2 d3 by simp
  have m: "mint (pf_libs p) (srv_tokens s) e (db_now e InsertRefreshToken) (user_id user) (fresh_uuid e) d2 = (Inr ses, d3)"
    using assms(4) by (simp add: issue_def)
  show "new_access_token (jwt (pf_libs p)) (srv_tokens s) (uuid_string (pf_libs p) (user_id user)) (go_now e AccessClock)
      = Inr (session_access ses)" "session_user ses = user_id user"
    using m by (rule mint_Inr, simp)+
qed

lemma get_me_own_token:
  assumes "libs_documented (pf_libs p)" and "accounts_wf (pf_pg p) d" and "user_core u \<in> user_core ` set (users d)" and "user_deleted_at u = None"
    and "new_access_token (jwt (pf_libs p)) (srv_tokens s) (uuid_string (pf_libs p) (user_id u)) issued = Inr a"
    and "0 < (issued + access_token_ttl) div second" and "go_now e ParseClock div second < (issued + access_token_ttl) div second"
    and "fault_at e GetUserByID = NoFault" and "authorization r = ''Bearer '' @ access_jwt a"
  obtains v where "user_core v = user_core u" and "resp_status (out_response (get_me p s e r d)) = Some 200"
    and "resp_body (out_response (get_me p s e r d)) = (if pf_email_marshals p (email u) then Some (UserBody (api_user_of v)) else None)"
proof -
  obtain v where v: "get_user_by_id (user_id u) d = Inr v" "user_core v = user_core u"
    by (rule get_user_by_core [OF assms(2-4)])
  have "parse_access_token (jwt (pf_libs p)) (srv_tokens s) (go_now e ParseClock) (access_jwt a)
      = Inr (uuid_string (pf_libs p) (user_id u))"
    using parse_own_access_token [OF _ assms(5,6)] assms(1,7) by (simp add: libs_documented_def)
  moreover have "authorization r = bearer_prefix @ access_jwt a" using assms(9) by (simp add: bearer_prefix_def)
  ultimately have "authenticate p s e r = Inr (user_id u)"
    using assms(1) by (simp add: authenticate_def libs_documented_def uuid_documented_def)
  moreover have "email v = email u" using v(2) by (simp add: user_core_def)
  ultimately show thesis
    using v assms(8) by (intro that [of v]) (simp_all add: get_me_def by_id_def query_def wrap_def api_user_of_def)
qed

text \<open>
  C15. A signed-in client is recognised. The access token in the body of a sign-in, presented to
  GetMe while its fifteen minutes last and whatever calls the server handled in between,
  answers 200 with the account the sign-in named: the same id, email and creation time.
\<close>

theorem sign_in_then_me:
  assumes "libs_documented (pf_libs p)" and "accounts_wf (pf_pg p) d"
    and "resp_status (out_response (auth_callback p s e provider r d)) = Some 200"
    and "resp_body (out_response (auth_callback p s e provider r d)) = Some (SessionBody b)"
    and "0 < (go_now e AccessClock + access_token_ttl) div second"
    and "go_now e' ParseClock div second < (go_now e AccessClock + access_token_ttl) div second"
    and "fault_at e' GetUserByID = NoFault" and "authorization r' = ''Bearer '' @ api_access_token b"
  shows "\<exists>m. resp_status (out_response (get_me p s e' r' (run_steps (server_step p x s) as (out_db (auth_callback p s e provider r d))))) = Some 200
    \<and> resp_body (out_response (get_me p s e' r' (run_steps (server_step p x s) as (out_db (auth_callback p s e provider r d))))) = Some (UserBody m)
    \<and> api_id m = api_id (api_session_user b) \<and> api_email m = api_email (api_session_user b)
    \<and> api_created_at m = api_created_at (api_session_user b)"
proof -
  obtain i where c: "auth_callback p s e provider r d = complete_sign_in p s e provider r i d"
    and ok: "resp_status (out_response (complete_sign_in p s e provider r i d)) = Some 200"
    using assms(3) by (rule auth_callback_200)
  let ?d3 = "out_db (complete_sign_in p s e provider r i d)"
  obtain user logs d1 d2 ses where pr: "provision (pf_pg p) (pf_libs p) e i d = (Inr user, logs, d1)"
    and rv: "if refresh_cookie r = [] then d2 = d1 else revoke_by_token e (refresh_cookie r) d1 = (Inr (), d2)"
    and iss: "issue (pf_libs p) (srv_tokens s) e (user_id user) d2 = (Inr ses, ?d3)"
    and body: "resp_body (out_response (complete_sign_in p s e provider r i d)) = (if pf_email_marshals p (email user) then
       Some (SessionBody \<lparr>api_access_token = access_jwt (session_access ses),
         api_expires_in = round_seconds (access_expires_at (session_access ses) - go_now e BodyClock),
         api_session_user = api_user_of user\<rparr>) else None)"
    using ok by (rule complete_sign_in_200)
  note st = complete_sign_in_state [OF pr assms(2) rv iss]
  have b: "pf_email_marshals p (email user)" "api_access_token b = access_jwt (session_access ses)"
    "api_session_user b = api_user_of user" using assms(4) c body by (auto split: if_splits)
  let ?d = "run_steps (server_step p x s) as ?d3"
  have wf: "accounts_wf (pf_pg p) ?d" by (rule account.inv_run [OF st(3)]) simp
  have live: "user_core user \<in> user_core ` set (users ?d)"
    by (rule account.stable_run [OF st(3)]) (use st(1) in simp_all)
  obtain v where "user_core v = user_core user" "resp_status (out_response (get_me p s e' r' ?d)) = Some 200"
    "resp_body (out_response (get_me p s e' r' ?d)) = (if pf_email_marshals p (email user) then Some (UserBody (api_user_of v)) else None)"
    by (rule get_me_own_token [OF assms(1) wf live st(2,4) assms(5,6,7)]) (use assms(8) b in simp)
  then show ?thesis using b c by (simp add: api_user_of_def user_core_def)
qed

section \<open>A sign-in in full\<close>

text \<open>The user of ''abc'' signs in as somebody new, at 20 microseconds.\<close>

definition sample_callback :: request where
  "sample_callback = with_cookie ''abc'' \<lparr>request_cookies = [], authorization = [],
     request_body = ''{'' @ [CHR 0x22] @ ''code'' @ [CHR 0x22] @ '':'' @ [CHR 0x22] @ ''k'' @ [CHR 0x22] @ '','' @ [CHR 0x22]
     @ ''code_verifier'' @ [CHR 0x22] @ '':'' @ [CHR 0x22] @ ''v'' @ [CHR 0x22] @ '','' @ [CHR 0x22] @ ''nonce'' @ [CHR 0x22]
     @ '':'' @ [CHR 0x22] @ ''n'' @ [CHR 0x22] @ '','' @ [CHR 0x22] @ ''redirect_uri'' @ [CHR 0x22] @ '':'' @ [CHR 0x22]
     @ ''u'' @ [CHR 0x22] @ ''}''\<rparr>"

lemma sample_callback_body: "read_callback_body (request_body sample_callback)
    = Some \<lparr>body_code = ''k'', body_code_verifier = ''v'', body_nonce = ''n'', body_redirect_uri = ''u''\<rparr>"
  by code_simp

definition newcomer :: user_row where
  "newcomer = \<lparr>user_id = 6, display_name = ''s'', email = [], email_verified = False, avatar_url = None,
     user_created_at = 20, user_updated_at = 20, user_deleted_at = None\<rparr>"

definition newcomer_link :: identity_row where
  "newcomer_link = \<lparr>identity_id = 6, identity_user = 6, identity_provider = ''p'', identity_subject = ''s'',
     identity_created_at = 20, identity_updated_at = 20\<rparr>"

abbreviation arrival :: env where
  "arrival \<equiv> calm_env 20 0 6"

abbreviation start_db :: db where
  "start_db \<equiv> sample_db (hash_refresh_token ''abc'')"

lemma sample_provisioned:
  "\<exists>logs. provision sample_pg reference_libs arrival
      \<lparr>id_provider = ''p'', id_subject = ''s'', id_email = [], id_email_verified = False, id_name = [], id_picture = []\<rparr> (sample_db h)
    = (Inr newcomer, logs, \<lparr>users = [sample_user, newcomer], identities = [newcomer_link], refresh_tokens = [sample_token h]\<rparr>)"
  by (simp add: provision_def begin_tx_def commit_tx_def provision_tx_def run_sql_def query_def get_user_by_identity_def
      one_row_def sample_db_def link_target_def create_def create_user_def create_identity_def new_user_def new_identity_def
      display_name_of_def optional_def add_log_def cut_def sample_user_def newcomer_def newcomer_link_def)

lemma sample_sign_in:
  obtains ex ses b where "new_exchanger reference_oidc [sample_exchange_config] = Inr ex"
    and "resp_status (out_response (auth_callback sample_platform (sample_server ex) arrival ''p'' sample_callback start_db)) = Some 200"
    and "resp_body (out_response (auth_callback sample_platform (sample_server ex) arrival ''p'' sample_callback start_db)) = Some (SessionBody b)"
    and "api_session_user b = api_user_of newcomer" and "api_access_token b = access_jwt (session_access ses)"
    and "resp_cookies (out_response (auth_callback sample_platform (sample_server ex) arrival ''p'' sample_callback start_db))
      = [session_cookie (sample_server ex) arrival ses]"
    and "refresh_secret (session_refresh ses) = refresh_secret_of (\<lambda>_. 0)"
    and "refresh_expires_at (session_refresh ses) = 20000 + refresh_token_ttl"
    and "out_db (auth_callback sample_platform (sample_server ex) arrival ''p'' sample_callback start_db)
      = \<lparr>users = [sample_user, newcomer], identities = [newcomer_link],
         refresh_tokens = [mark_revoked 20 (sample_token (hash_refresh_token ''abc'')),
           new_row 20 6 \<lparr>param_user = 6, param_family = 6, param_hash = hash_refresh_token (refresh_secret_of (\<lambda>_. 0)),
             param_expires = to_micros (20000 + refresh_token_ttl)\<rparr>]\<rparr>"
proof -
  let ?i = "\<lparr>id_provider = ''p'', id_subject = ''s'', id_email = [], id_email_verified = False, id_name = [], id_picture = []\<rparr>"
  let ?h = "hash_refresh_token ''abc''"
  let ?d2 = "\<lparr>users = [sample_user, newcomer], identities = [newcomer_link], refresh_tokens = [mark_revoked 20 (sample_token ?h)]\<rparr>"
  obtain ex where ex: "new_exchanger reference_oidc [sample_exchange_config] = Inr ex"
    and run: "\<forall>now. exchange reference_oidc sample_oauth ex now sample_request = Inr ?i" by (rule sample_exchanger)
  obtain logs where pr: "provision sample_pg reference_libs arrival ?i start_db = (Inr newcomer, logs,
      \<lparr>users = [sample_user, newcomer], identities = [newcomer_link], refresh_tokens = [sample_token ?h]\<rparr>)"
    using sample_provisioned by blast
  have rv: "revoke_by_token arrival ''abc'' \<lparr>users = [sample_user, newcomer], identities = [newcomer_link], refresh_tokens = [sample_token ?h]\<rparr>
      = (Inr (), ?d2)"
    by (simp add: revoke_by_token_def query_def get_refresh_token_by_hash_def sample_token_def
        revoke_refresh_token_family_def revoke_where_def)
  have fresh: "fresh_draws arrival (\<lambda>_. 0) ?d2"
    by (simp add: fresh_draws_def sample_token_def hash_abc secret_zero hash_secret_zero)
  obtain ses where m: "mint reference_libs reference_issuer arrival 20 6 6 ?d2 = (Inr ses, ?d2\<lparr>refresh_tokens := refresh_tokens ?d2 @
      [new_row 20 (row_id arrival RefreshTokensTable) \<lparr>param_user = 6, param_family = 6, param_hash = hash_refresh_token (refresh_secret_of (\<lambda>_. 0)),
         param_expires = to_micros (go_now arrival RefreshClock + refresh_token_ttl)\<rparr>]\<rparr>)"
    and sec: "refresh_secret (session_refresh ses) = refresh_secret_of (\<lambda>_. 0)"
    by (rule mint_faultless [OF calm_env_simps(1) reference_libs_documented fresh, of 6]) (simp_all add: newcomer_def)
  have ttl: "refresh_expires_at (session_refresh ses) = 20000 + refresh_token_ttl" using mint_expiry [OF m] by simp
  have cb: "auth_callback sample_platform (sample_server ex) arrival ''p'' sample_callback start_db
      = complete_sign_in sample_platform (sample_server ex) arrival ''p'' sample_callback ?i start_db"
    using run by (simp add: auth_callback_def sample_callback_body flip: sample_request_def)
  have cookie: "refresh_cookie sample_callback = ''abc''" by (simp add: sample_callback_def)
  have cs: "\<exists>l. complete_sign_in sample_platform (sample_server ex) arrival ''p'' sample_callback ?i start_db
      = write_session sample_platform (sample_server ex) arrival ses (Some newcomer) l
          (?d2\<lparr>refresh_tokens := refresh_tokens ?d2 @ [new_row 20 6 \<lparr>param_user = 6, param_family = 6,
             param_hash = hash_refresh_token (refresh_secret_of (\<lambda>_. 0)), param_expires = to_micros (20000 + refresh_token_ttl)\<rparr>]\<rparr>)"
    using pr rv m by (simp add: complete_sign_in_def cookie issue_def newcomer_def) (rule exI, rule refl)
  then obtain l where out: "auth_callback sample_platform (sample_server ex) arrival ''p'' sample_callback start_db
      = write_session sample_platform (sample_server ex) arrival ses (Some newcomer) l
          (?d2\<lparr>refresh_tokens := refresh_tokens ?d2 @ [new_row 20 6 \<lparr>param_user = 6, param_family = 6,
             param_hash = hash_refresh_token (refresh_secret_of (\<lambda>_. 0)), param_expires = to_micros (20000 + refresh_token_ttl)\<rparr>]\<rparr>)"
    using cb by auto
  show thesis
    by (rule that [OF ex, of "\<lparr>api_access_token = access_jwt (session_access ses),
        api_expires_in = round_seconds (access_expires_at (session_access ses) - 20000), api_session_user = api_user_of newcomer\<rparr>" ses])
      (simp_all add: out write_session_user write_session_cookies sec ttl)
qed

theorem callback_ends_previous_session_witness:
  "\<exists>ex. new_exchanger reference_oidc [sample_exchange_config] = Inr ex
    \<and> granted_family (fst (rotate reference_libs reference_issuer (calm_env 30 1 7) ''abc''
        (out_db (auth_callback sample_platform (sample_server ex) arrival ''p'' sample_callback start_db)))) \<noteq> Some 5"
proof -
  obtain ex ses b where ex: "new_exchanger reference_oidc [sample_exchange_config] = Inr ex"
    and st: "resp_status (out_response (auth_callback sample_platform (sample_server ex) arrival ''p'' sample_callback start_db)) = Some 200"
    by (rule sample_sign_in) blast
  have "granted_family (fst (rotate reference_libs reference_issuer (calm_env 30 1 7) ''abc''
        (run_steps (server_step sample_platform reference_chi (sample_server ex)) []
          (out_db (auth_callback sample_platform (sample_server ex) arrival ''p'' sample_callback start_db)))))
      \<noteq> Some (token_family (sample_token (hash_refresh_token ''abc'')))"
    by (rule callback_ends_previous_session [OF _ st])
      (use sample_ok in \<open>simp_all add: sessions_ok_def sample_callback_def sample_db_def sample_token_def\<close>)
  then show ?thesis using ex by (auto simp: sample_token_def)
qed

theorem sign_in_then_me_witness:
  "\<exists>ex b m. new_exchanger reference_oidc [sample_exchange_config] = Inr ex
    \<and> resp_body (out_response (auth_callback sample_platform (sample_server ex) arrival ''p'' sample_callback start_db)) = Some (SessionBody b)
    \<and> resp_body (out_response (get_me sample_platform (sample_server ex) (calm_env 30 1 7)
        (bare_request\<lparr>authorization := ''Bearer '' @ api_access_token b\<rparr>)
        (out_db (auth_callback sample_platform (sample_server ex) arrival ''p'' sample_callback start_db)))) = Some (UserBody m)
    \<and> api_id m = 6"
proof -
  obtain ex ses b where ex: "new_exchanger reference_oidc [sample_exchange_config] = Inr ex"
    and st: "resp_status (out_response (auth_callback sample_platform (sample_server ex) arrival ''p'' sample_callback start_db)) = Some 200"
    and body: "resp_body (out_response (auth_callback sample_platform (sample_server ex) arrival ''p'' sample_callback start_db)) = Some (SessionBody b)"
    and user: "api_session_user b = api_user_of newcomer"
    by (rule sample_sign_in) blast
  have L: "libs_documented (pf_libs sample_platform)" by (simp add: reference_libs_documented)
  have wf: "accounts_wf (pf_pg sample_platform) start_db"
    by (simp add: accounts_wf_def verified_emails_def sample_db_def sample_user_def)
  show ?thesis
    using sign_in_then_me [OF L wf st body, of "calm_env 30 1 7" "bare_request\<lparr>authorization := ''Bearer '' @ api_access_token b\<rparr>"
        reference_chi "[]"] ex body user
    by (fastforce simp: access_token_ttl_def minute_def second_def api_user_of_def newcomer_def)
qed

theorem me_is_authentic_witness:
  "\<exists>raw. jwt_verifies reference_jwt (replicate 32 0) raw \<and> jwt_alg reference_jwt raw = Some ''HS256''"
proof -
  obtain a where a: "new_access_token reference_jwt reference_issuer (binary_uuid 1) 0 = Inr a"
    by (rule new_access_token_ok [OF reference_jwt_documented, of "binary_uuid 1"]) (simp_all add: binary_uuid_def)
  have wf: "accounts_wf (pf_pg sample_platform) (sample_db [])"
    by (simp add: accounts_wf_def verified_emails_def sample_db_def sample_user_def)
  have L: "libs_documented (pf_libs sample_platform)" by (simp add: reference_libs_documented)
  have "resp_status (out_response (get_me sample_platform (sample_server ex) (calm_env 1 0 1)
      (bare_request\<lparr>authorization := ''Bearer '' @ access_jwt a\<rparr>) (sample_db []))) = Some 200" for ex
    by (rule get_me_own_token [OF L wf, of sample_user "sample_server ex" 0 a])
      (use a in \<open>simp_all add: sample_db_def sample_user_def reference_libs_def access_token_ttl_def minute_def second_def\<close>)
  from me_is_authentic [OF _ this] show ?thesis
    using reference_jwt_documented by (auto simp: reference_libs_def reference_issuer_def)
qed

section \<open>A session over its first refresh\<close>

lemma rotate_secret: "rotate L t e tok d = (Inr s, d') \<Longrightarrow> random_bytes e = Some b \<Longrightarrow>
    refresh_secret (session_refresh s) = refresh_secret_of b"
  by (erule rotate_success, erule mint_Inr) simp

lemma rotate_frame: "rotate L t e tok d = (x, d') \<Longrightarrow> users d' = users d \<and> identities d' = identities d"
  using token_effect_frame [OF rotate_effect [of e None d L t tok]] by simp

lemma get_user_by_row:
  assumes "accounts_wf g d" and "u \<in> set (users d)" and "user_deleted_at u = None"
  shows "get_user_by_id (user_id u) d = Inr u"
proof -
  obtain v where v: "get_user_by_id (user_id u) d = Inr v" by (rule get_user_by_core [OF assms(1) _ assms(3)]) (use assms(2) in auto)
  then have "v \<in> set (users d)" "user_id v = user_id u" by (auto simp: get_user_by_id_def dest: find_SomeD)
  moreover have "distinct (map user_id (users d))" using assms(1) by (simp add: accounts_wf_def)
  ultimately show ?thesis using v assms(2) distinct_key_unique by metis
qed

text \<open>
  C14. A session survives its first refresh. From a database in order, the cookie a sign-in sets,
  sent back to AuthRefresh before it expires, answers 200 when no statement fails: with the
  account of the sign-in, and a new refresh token in the cookie.
\<close>

theorem sign_in_then_refresh:
  assumes "libs_documented (pf_libs p)" and "service_ok (pf_pg p) d" and "fresh_uuid e \<notin> token_family ` set (refresh_tokens d)"
    and "resp_status (out_response (auth_callback p s e provider r d)) = Some 200"
    and "resp_body (out_response (auth_callback p s e provider r d)) = Some (SessionBody b)"
    and "map cookie_value (resp_cookies (out_response (auth_callback p s e provider r d))) = [refresh_cookie r']"
    and "\<forall>c \<in> set (resp_cookies (out_response (auth_callback p s e provider r d))). db_now e' BeginTx < to_micros (cookie_expires c)"
    and "faultless e'" and "fresh_draws e' f (out_db (auth_callback p s e provider r d))"
    and "\<forall>t \<in> set (refresh_tokens (out_db (auth_callback p s e provider r d))). issued_at t < db_now e' BeginTx"
  shows "resp_status (out_response (auth_refresh p s e' r' (out_db (auth_callback p s e provider r d)))) = Some 200
    \<and> map cookie_value (resp_cookies (out_response (auth_refresh p s e' r' (out_db (auth_callback p s e provider r d))))) = [refresh_secret_of f]
    \<and> (\<exists>b'. resp_body (out_response (auth_refresh p s e' r' (out_db (auth_callback p s e provider r d)))) = Some (SessionBody b')
         \<and> api_session_user b' = api_session_user b)"
proof -
  obtain i where c: "auth_callback p s e provider r d = complete_sign_in p s e provider r i d"
    and ok: "resp_status (out_response (complete_sign_in p s e provider r i d)) = Some 200"
    using assms(4) by (rule auth_callback_200)
  define d3 where d3: "d3 = out_db (complete_sign_in p s e provider r i d)"
  obtain user logs d1 d2 ses where pr: "provision (pf_pg p) (pf_libs p) e i d = (Inr user, logs, d1)"
    and rv: "if refresh_cookie r = [] then d2 = d1 else revoke_by_token e (refresh_cookie r) d1 = (Inr (), d2)"
    and iss: "issue (pf_libs p) (srv_tokens s) e (user_id user) d2 = (Inr ses, d3)"
    and cookie: "resp_cookies (out_response (complete_sign_in p s e provider r i d)) = [session_cookie s e ses]"
    and body: "resp_body (out_response (complete_sign_in p s e provider r i d)) = (if pf_email_marshals p (email user) then
       Some (SessionBody \<lparr>api_access_token = access_jwt (session_access ses),
         api_expires_in = round_seconds (access_expires_at (session_access ses) - go_now e BodyClock),
         api_session_user = api_user_of user\<rparr>) else None)"
    unfolding d3 using ok by (rule complete_sign_in_200)
  have wf: "accounts_wf (pf_pg p) d" using assms(2) by (simp add: service_ok_def)
  note st = complete_sign_in_state [OF pr wf rv iss]
  have ok1: "service_ok (pf_pg p) d1" using provision_ok [OF assms(2), of "pf_libs p" e i] pr by simp
  have ok2: "service_ok (pf_pg p) d2" and fam: "fresh_uuid e \<notin> token_family ` set (refresh_tokens d2)"
    using rv effect_ok [OF revoke_by_token_effect ok1, of None None e "refresh_cookie r"] ok1 assms(3)
      provision_tokens [of "pf_pg p" "pf_libs p" e i d] pr revoke_by_token_families [of e "refresh_cookie r" d1]
    by (auto split: if_splits)
  have live: "session_live ses d3" "sessions_ok d3" "session_user ses = user_id user"
    using issue_live [OF _ fam iss] ok2 by (simp_all add: service_ok_def)
  have tok: "refresh_cookie r' = refresh_secret (session_refresh ses)"
    using assms(6) cookie c by (simp add: session_cookie_def)
  have expiry: "db_now e' BeginTx < to_micros (refresh_expires_at (session_refresh ses))"
    using assms(7) cookie c by (simp add: session_cookie_def)
  have fresh: "fresh_draws e' f d3" and clock: "\<forall>t \<in> set (refresh_tokens d3). issued_at t < db_now e' BeginTx"
    using assms(9,10) c d3 by simp_all
  obtain ses' d4 where run: "rotate (pf_libs p) (srv_tokens s) e' (refresh_cookie r') d3 = (Inr ses', d4)"
    and user': "session_user ses' = user_id user"
    unfolding tok by (rule live_rotation [OF live(1,2) assms(1,8) fresh clock expiry]) (use live(3) in simp)
  have "users d4 = users d3" "identities d4 = identities d3" using rotate_frame [OF run] by simp_all
  then have "get_user_by_id (user_id user) d4 = Inr user"
    using st(1,2,3) accounts_frame [of d4 d3] by (intro get_user_by_row [of "pf_pg p"]) simp_all
  then have by_id: "by_id e' (session_user ses') d4 = (Inr user, d4)"
    using faultlessD [OF assms(8)] user' by (simp add: by_id_def query_def wrap_def)
  have "refresh_cookie r' \<noteq> []" using mint_Inr [OF iss [unfolded issue_def]] tok by (metis refresh_secret_of_nonempty)
  then have out: "auth_refresh p s e' r' d3 = write_session p s e' ses' None [] d4"
    using run by (simp add: auth_refresh_def)
  have secret: "refresh_secret (session_refresh ses') = refresh_secret_of f"
    using rotate_secret [OF run] fresh by (simp add: fresh_draws_def)
  have "pf_email_marshals p (email user)" "api_session_user b = api_user_of user"
    using assms(5) c body by (auto split: if_splits)
  then show ?thesis
    using out by_id secret
    by (simp add: c d3 [symmetric] write_session_cookies session_cookie_def)
      (simp add: write_session_def Let_def api_user_of_def)
qed

lemma start_ok: "service_ok sample_pg start_db"
proof -
  have "\<not> is_private_relay ''ada@example.org''" by code_simp
  then show ?thesis
    using sample_ok [of "hash_refresh_token ''abc''"]
    by (simp add: service_ok_def accounts_wf_def verified_emails_def relay_unverified_def sample_db_def sample_user_def)
qed

theorem sign_in_then_refresh_witness:
  "\<exists>ex b. new_exchanger reference_oidc [sample_exchange_config] = Inr ex
    \<and> resp_body (out_response (auth_refresh sample_platform (sample_server ex) (calm_env 30 1 7)
        (with_cookie (refresh_secret_of (\<lambda>_. 0)) bare_request)
        (out_db (auth_callback sample_platform (sample_server ex) arrival ''p'' sample_callback start_db)))) = Some (SessionBody b)
    \<and> api_id (api_session_user b) = 6"
proof -
  obtain ex ses b where ex: "new_exchanger reference_oidc [sample_exchange_config] = Inr ex"
    and st: "resp_status (out_response (auth_callback sample_platform (sample_server ex) arrival ''p'' sample_callback start_db)) = Some 200"
    and body: "resp_body (out_response (auth_callback sample_platform (sample_server ex) arrival ''p'' sample_callback start_db)) = Some (SessionBody b)"
    and user: "api_session_user b = api_user_of newcomer"
    and cookies: "resp_cookies (out_response (auth_callback sample_platform (sample_server ex) arrival ''p'' sample_callback start_db))
      = [session_cookie (sample_server ex) arrival ses]"
    and secret: "refresh_secret (session_refresh ses) = refresh_secret_of (\<lambda>_. 0)"
    and ttl: "refresh_expires_at (session_refresh ses) = 20000 + refresh_token_ttl"
    and db: "out_db (auth_callback sample_platform (sample_server ex) arrival ''p'' sample_callback start_db)
      = \<lparr>users = [sample_user, newcomer], identities = [newcomer_link],
         refresh_tokens = [mark_revoked 20 (sample_token (hash_refresh_token ''abc'')),
           new_row 20 6 \<lparr>param_user = 6, param_family = 6, param_hash = hash_refresh_token (refresh_secret_of (\<lambda>_. 0)),
             param_expires = to_micros (20000 + refresh_token_ttl)\<rparr>]\<rparr>"
    by (rule sample_sign_in)
  have ok: "service_ok (pf_pg sample_platform) start_db" using start_ok by simp
  let ?d = "out_db (auth_callback sample_platform (sample_server ex) arrival ''p'' sample_callback start_db)"
  let ?r = "with_cookie (refresh_secret_of (\<lambda>_. 0)) bare_request"
  have fam: "fresh_uuid arrival \<notin> token_family ` set (refresh_tokens start_db)" by (simp add: sample_db_def sample_token_def)
  have sent: "map cookie_value (resp_cookies (out_response (auth_callback sample_platform (sample_server ex) arrival ''p'' sample_callback start_db)))
      = [refresh_cookie ?r]" using cookies secret by (simp add: session_cookie_def)
  have L: "libs_documented (pf_libs sample_platform)" by (simp add: reference_libs_documented)
  have late: "\<forall>c \<in> set (resp_cookies (out_response (auth_callback sample_platform (sample_server ex) arrival ''p'' sample_callback start_db))).
      db_now (calm_env 30 1 7) BeginTx < to_micros (cookie_expires c)"
    by (simp add: cookies session_cookie_def ttl to_micros_def refresh_token_ttl_def hour_def minute_def second_def)
  have draws: "fresh_draws (calm_env 30 1 7) (\<lambda>_. 1) ?d"
    unfolding db by (simp add: fresh_draws_def sample_token_def hash_abc secret_zero secret_one hash_secret_zero hash_secret_one)
  have clock: "\<forall>t \<in> set (refresh_tokens ?d). issued_at t < db_now (calm_env 30 1 7) BeginTx"
    unfolding db by (simp add: sample_token_def)
  show ?thesis
    using sign_in_then_refresh [OF L ok fam st body sent late calm_env_simps(1) draws clock] ex user
    by (auto simp: api_user_of_def newcomer_def)
qed

text \<open>
  C27. The server keeps its tables in order. Over any sequence of HTTP calls, whatever statements
  fail, the schema's keys and the chain of every token family hold, no relay address is marked
  verified and every token belongs to an existing user, as long as the uuids drawn for new
  families do not repeat and the database clock moves on between calls.
\<close>

theorem service_keeps_tables:
  assumes "service_ok (pf_pg p) d" and "guarded_run call_guard (server_step p x s) as d"
  shows "service_ok (pf_pg p) (run_steps (server_step p x s) as d)"
  using assms by (rule service.inv_run)

definition logout_call :: http_call where
  "logout_call = \<lparr>call_method = ''POST'', call_path = ''/api/v1/auth/logout'', call_escaped = False,
     call_request = with_cookie ''abc'' bare_request\<rparr>"

theorem service_keeps_tables_witness:
  "service_ok sample_pg (run_steps (server_step sample_platform reference_chi idle_server)
    [Call arrival logout_call] start_db)"
  using service_keeps_tables [of sample_platform start_db reference_chi idle_server
      "[Call arrival logout_call]"] start_ok
  by (simp add: call_guard_def sample_db_def sample_token_def)

end
