(* ===== verification/Races.thy ===== *)
theory Races
  imports Token_Chains "HOL-Library.Multiset"
begin

text \<open>
  Rotations and revocations at the same time (internal/auth/sessions.go over
  internal/store/refresh_tokens.sql.go). Sessions treats an operation as one step; here its
  statements interleave with those of other connections, as Postgres runs them under READ
  COMMITTED: a statement sees the rows committed when it started, a row it changes is locked
  until its transaction ends, a statement that waited for a lock re-checks the row's newest
  version, and changes are visible to others at commit. Any transaction may be rolled back at
  any point, by an error, a lost connection or the deadlock detector.
\<close>

section \<open>The connections\<close>

text \<open>
  A connection is idle, in the consuming UPDATE with the snapshot it took, past it with the
  row it changed, past the INSERT with both rows, or in a revoking UPDATE with the rows it
  still has to visit and the ids of those it has marked.
\<close>

datatype backend =
    Idle
  | Searching micros string "refresh_token list"
  | Holding micros refresh_token
  | Minted micros refresh_token refresh_token
  | Sweeping micros "refresh_token list" "uuid list"

record store_state =
  committed :: "refresh_token list"
  backends :: "nat \<Rightarrow> backend"
  rotations :: "(string \<times> uuid) list"  \<comment> \<open>hash and family of each committed rotation\<close>

text \<open>The rows a connection has locked, and those it inserted but has not committed.\<close>

fun holds :: "backend \<Rightarrow> uuid set" where
  "holds (Holding now r) = {token_id r}"
| "holds (Minted now r n) = {token_id r}"
| "holds (Sweeping now todo marked) = set marked"
| "holds Idle = {}"
| "holds (Searching now h snap) = {}"

fun pending :: "backend \<Rightarrow> refresh_token list" where
  "pending (Minted now r n) = [n]"
| "pending Idle = []"
| "pending (Searching now h snap) = []"
| "pending (Holding now r) = []"
| "pending (Sweeping now todo marked) = []"

definition unlocked_for :: "store_state \<Rightarrow> nat \<Rightarrow> uuid \<Rightarrow> bool" where
  "unlocked_for s t k \<longleftrightarrow> (\<forall>t'. t' \<noteq> t \<longrightarrow> k \<notin> holds (backends s t'))"

text \<open>The unique keys count rows that are not committed yet.\<close>

definition unused_keys :: "store_state \<Rightarrow> uuid \<Rightarrow> string \<Rightarrow> bool" where
  "unused_keys s i h \<longleftrightarrow> i \<notin> token_id ` set (committed s) \<and> h \<notin> token_hash ` set (committed s)
    \<and> (\<forall>t. i \<notin> token_id ` set (pending (backends s t)) \<and> h \<notin> token_hash ` set (pending (backends s t)))"

definition set_backend :: "nat \<Rightarrow> backend \<Rightarrow> store_state \<Rightarrow> store_state" where
  "set_backend t b s = s\<lparr>backends := (backends s)(t := b)\<rparr>"

definition spend :: "micros \<Rightarrow> uuid \<Rightarrow> refresh_token list \<Rightarrow> refresh_token list" where
  "spend now k rows = update_where (\<lambda>x. token_id x = k) (mark_used now) rows"

definition sweep :: "micros \<Rightarrow> uuid list \<Rightarrow> refresh_token list \<Rightarrow> refresh_token list" where
  "sweep now ks rows = update_where (\<lambda>x. token_id x \<in> set ks) (mark_revoked now) rows"

section \<open>The steps\<close>

text \<open>
  \<open>consume\<close>: the row is one the snapshot has, its newest version passes the WHERE clause with
  the NOT EXISTS read in the snapshot, and nobody else holds it. A sweep is one of the two
  revoking UPDATEs, \<open>P\<close> its condition on the family or the user; \<open>sweep_row\<close> visits a row of its
  snapshot the same way.
\<close>

inductive race_step :: "store_state \<Rightarrow> store_state \<Rightarrow> bool" where
  start: "backends s t = Idle \<Longrightarrow> race_step s (set_backend t (Searching now h (committed s)) s)"
| consume: "backends s t = Searching now h snap \<Longrightarrow> r \<in> set (committed s) \<Longrightarrow> token_id r \<in> token_id ` set snap \<Longrightarrow>
    consumable now h snap r \<Longrightarrow> unlocked_for s t (token_id r) \<Longrightarrow>
    race_step s (set_backend t (Holding now (mark_used now r)) s)"
| mint: "backends s t = Holding now r \<Longrightarrow> param_family p = token_family r \<Longrightarrow> param_user p = token_user r \<Longrightarrow>
    unused_keys s i (param_hash p) \<Longrightarrow> race_step s (set_backend t (Minted now r (new_row now i p)) s)"
| commit: "backends s t = Minted now r n \<Longrightarrow>
    race_step s (set_backend t Idle (s\<lparr>committed := spend now (token_id r) (committed s) @ [n],
      rotations := rotations s @ [(token_hash r, token_family r)]\<rparr>))"
| rollback: "race_step s (set_backend t Idle s)"
| sweep_start: "backends s t = Idle \<Longrightarrow>
    mset todo = mset (filter (\<lambda>r. P r \<and> revoked_at r = None) (committed s)) \<Longrightarrow>
    race_step s (set_backend t (Sweeping now todo []) s)"
| sweep_row: "backends s t = Sweeping now (x # todo) marked \<Longrightarrow> unlocked_for s t (token_id x) \<Longrightarrow>
    race_step s (set_backend t (Sweeping now todo
      (if list_ex (\<lambda>r. token_id r = token_id x \<and> revoked_at r = None) (committed s) then token_id x # marked else marked)) s)"
| sweep_commit: "backends s t = Sweeping now [] marked \<Longrightarrow>
    race_step s (set_backend t Idle (s\<lparr>committed := sweep now marked (committed s)\<rparr>))"
| issue: "unused_keys s i (param_hash p) \<Longrightarrow> param_family p \<notin> token_family ` set (committed s) \<Longrightarrow>
    race_step s (s\<lparr>committed := committed s @ [new_row now i p]\<rparr>)"

section \<open>The invariant\<close>

definition one_unspent :: "refresh_token list \<Rightarrow> bool" where
  "one_unspent rows \<longleftrightarrow> (\<forall>x \<in> set rows. \<forall>y \<in> set rows.
     token_family x = token_family y \<and> used_at x = None \<and> used_at y = None \<longrightarrow> token_id x = token_id y)"

definition spent_hashes :: "refresh_token list \<Rightarrow> string set" where
  "spent_hashes rows = token_hash ` {x \<in> set rows. used_at x \<noteq> None}"

text \<open>
  What a connection knows: the rows of its snapshot are still there, the row it holds is still
  unspent, the row it minted is new.
\<close>

fun backend_ok :: "refresh_token list \<Rightarrow> backend \<Rightarrow> bool" where
  "backend_ok rows (Holding now r) = (\<exists>x \<in> set rows. used_at x = None \<and> r = mark_used now x)"
| "backend_ok rows (Minted now r n) = ((\<exists>x \<in> set rows. used_at x = None \<and> r = mark_used now x)
     \<and> token_family n = token_family r \<and> used_at n = None
     \<and> token_id n \<notin> token_id ` set rows \<and> token_hash n \<notin> token_hash ` set rows)"
| "backend_ok rows Idle = True"
| "backend_ok rows (Searching now h snap) = (token_id ` set snap \<subseteq> token_id ` set rows)"
| "backend_ok rows (Sweeping now todo marked) = True"

definition table_ok :: "refresh_token list \<Rightarrow> bool" where
  "table_ok rows \<longleftrightarrow> distinct (map token_id rows) \<and> distinct (map token_hash rows) \<and> one_unspent rows"

definition apart :: "backend \<Rightarrow> backend \<Rightarrow> bool" where
  "apart b b' \<longleftrightarrow> holds b \<inter> holds b' = {}
    \<and> token_id ` set (pending b) \<inter> token_id ` set (pending b') = {}
    \<and> token_hash ` set (pending b) \<inter> token_hash ` set (pending b') = {}"

definition races_ok :: "store_state \<Rightarrow> bool" where
  "races_ok s \<longleftrightarrow> table_ok (committed s) \<and> (\<forall>t. backend_ok (committed s) (backends s t))
    \<and> (\<forall>t t'. t \<noteq> t' \<longrightarrow> apart (backends s t) (backends s t'))
    \<and> distinct (map fst (rotations s)) \<and> fst ` set (rotations s) \<subseteq> spent_hashes (committed s)"

lemma set_backend_simps [simp]:
  "committed (set_backend t b s) = committed s" "rotations (set_backend t b s) = rotations s"
  "backends (set_backend t b s) t' = (if t' = t then b else backends s t')"
  by (simp_all add: set_backend_def)

lemma apart_sym: "apart b b' = apart b' b"
  by (auto simp: apart_def)

lemma apart_Idle [simp]: "apart Idle b" "apart b Idle"
  by (simp_all add: apart_def)

text \<open>A step that changes only one connection.\<close>

lemma set_backend_ok:
  assumes "races_ok s" and "backend_ok (committed s) b" and "\<And>t'. t' \<noteq> t \<Longrightarrow> apart b (backends s t')"
  shows "races_ok (set_backend t b s)"
  using assms by (auto simp: races_ok_def apart_sym [of _ b])

text \<open>A connection is as fine as before when the row it holds is unchanged and nothing clashes with what it minted.\<close>

lemma backend_ok_change:
  assumes "backend_ok rows b" and "\<And>x. x \<in> set rows \<Longrightarrow> token_id x \<in> holds b \<Longrightarrow> x \<in> set rows'"
    and "token_id ` set rows' \<subseteq> token_id ` set rows \<union> I" and "token_hash ` set rows' \<subseteq> token_hash ` set rows \<union> H"
    and "token_id ` set (pending b) \<inter> I = {}" and "token_hash ` set (pending b) \<inter> H = {}"
    and "token_id ` set rows \<subseteq> token_id ` set rows'"
  shows "backend_ok rows' b"
proof (cases b)
  case (Holding now r)
  then show ?thesis using assms(1,2) by auto
next
  case (Minted now r n)
  then obtain x where "x \<in> set rows" "used_at x = None" "r = mark_used now x" using assms(1) by auto
  moreover have "x \<in> set rows'" using calculation assms(2) Minted by simp
  moreover have "token_id n \<notin> token_id ` set rows'" "token_hash n \<notin> token_hash ` set rows'"
    using assms(1,3-6) Minted by auto
  ultimately show ?thesis using assms(1) Minted by auto
next
  case (Searching now h snap)
  then show ?thesis using assms(1,7) by auto
qed simp_all

lemma table_ok_same_row: "table_ok rows \<Longrightarrow> x \<in> set rows \<Longrightarrow> y \<in> set rows \<Longrightarrow> token_id x = token_id y \<Longrightarrow> x = y"
  by (auto simp: table_ok_def intro: distinct_key_unique)

lemma keys_of_update [simp]:
  "map token_id (spend now k rows) = map token_id rows" "map token_hash (spend now k rows) = map token_hash rows"
  "map token_id (sweep now ks rows) = map token_id rows" "map token_hash (sweep now ks rows) = map token_hash rows"
  by (simp_all add: spend_def sweep_def map_update_where_same)

lemma key_sets_of_update [simp]:
  "token_id ` set (spend now k rows) = token_id ` set rows" "token_hash ` set (spend now k rows) = token_hash ` set rows"
  "token_id ` set (sweep now ks rows) = token_id ` set rows" "token_hash ` set (sweep now ks rows) = token_hash ` set rows"
  by (simp_all flip: set_map)

text \<open>What holds of some or of all rows after an update, said of the rows before it.\<close>

lemma bex_update_where: "(\<exists>y \<in> set (update_where P f rows). Q y) \<longleftrightarrow> (\<exists>x \<in> set rows. Q (if P x then f x else x))"
  unfolding update_where_def set_map by blast

lemma untouched_row: "x \<in> set rows \<Longrightarrow> \<not> P x \<Longrightarrow> x \<in> set (update_where P f rows)"
  by (force simp: update_where_def)

lemma update_whereE:
  assumes "y \<in> set (update_where P f rows)"
  obtains x where "x \<in> set rows" and "y = (if P x then f x else x)"
  using assms unfolding update_where_def set_map by blast

lemma in_spent: "h \<in> spent_hashes rows \<longleftrightarrow> (\<exists>x \<in> set rows. token_hash x = h \<and> used_at x \<noteq> None)"
  by (auto simp: spent_hashes_def)

lemma in_spent_spend: "h \<in> spent_hashes (spend now k rows) \<longleftrightarrow>
    (\<exists>x \<in> set rows. token_hash x = h \<and> (token_id x = k \<or> used_at x \<noteq> None))"
  unfolding in_spent spend_def bex_update_where by (intro bex_cong refl) simp

lemma spent_grows: "h \<in> spent_hashes rows \<Longrightarrow> h \<in> spent_hashes (spend now k rows)"
  unfolding in_spent_spend unfolding in_spent by blast

lemma spent_sweep [simp]: "spent_hashes (sweep now ks rows) = spent_hashes rows"
  by (intro set_eqI, unfold in_spent sweep_def bex_update_where, intro bex_cong refl) simp

lemma one_unspentI: "(\<And>x y. x \<in> set rows \<Longrightarrow> y \<in> set rows \<Longrightarrow> token_family x = token_family y \<Longrightarrow> used_at x = None \<Longrightarrow>
    used_at y = None \<Longrightarrow> token_id x = token_id y) \<Longrightarrow> one_unspent rows"
  unfolding one_unspent_def by blast

lemma one_unspentD: "one_unspent rows \<Longrightarrow> x \<in> set rows \<Longrightarrow> y \<in> set rows \<Longrightarrow> token_family x = token_family y \<Longrightarrow>
    used_at x = None \<Longrightarrow> used_at y = None \<Longrightarrow> token_id x = token_id y"
  unfolding one_unspent_def by blast

lemma sweepE:
  assumes "y \<in> set (sweep now ks rows)"
  obtains x where "x \<in> set rows" and "token_id y = token_id x" and "token_family y = token_family x" and "token_hash y = token_hash x"
    and "used_at y = used_at x"
  using assms unfolding sweep_def by (auto elim!: update_whereE)

lemma spendE:
  assumes "y \<in> set (spend now k rows)"
  obtains x where "x \<in> set rows" and "token_id y = token_id x" and "token_family y = token_family x" and "token_hash y = token_hash x"
    and "used_at y = (if token_id x = k then Some now else used_at x)"
  using assms unfolding spend_def by (auto elim!: update_whereE)

lemma one_unspent_sweep: "one_unspent rows \<Longrightarrow> one_unspent (sweep now ks rows)"
  by (rule one_unspentI, elim sweepE) (auto intro: one_unspentD)

lemma one_unspent_append:
  assumes "one_unspent rows" and "\<And>y. y \<in> set rows \<Longrightarrow> token_family y = token_family n \<Longrightarrow> used_at y \<noteq> None"
  shows "one_unspent (rows @ [n])"
proof (rule one_unspentI)
  fix x y assume xy: "x \<in> set (rows @ [n])" "y \<in> set (rows @ [n])" "token_family x = token_family y" "used_at x = None" "used_at y = None"
  have same: "z = n" if "z \<in> set (rows @ [n])" "token_family z = token_family n" "used_at z = None" for z
    using that assms(2) [of z] by auto
  consider "x \<in> set rows" "y \<in> set rows" | "x = n" | "y = n" using xy(1,2) by auto
  then show "token_id x = token_id y"
  proof cases
    case 1
    then show ?thesis using one_unspentD [OF assms(1)] xy(3-5) by blast
  qed (use same [of x] same [of y] xy in simp_all)
qed

text \<open>The successor is the family's only unspent row once the row before it is spent.\<close>

lemma one_unspent_commit:
  assumes "one_unspent rows" and "x \<in> set rows" and "used_at x = None" and "token_family n = token_family x"
  shows "one_unspent (spend now (token_id x) rows @ [n])"
proof -
  have spent: "used_at y \<noteq> None" if "y \<in> set (spend now (token_id x) rows)" "token_family y = token_family x" for y
    using that(1)
  proof (rule spendE)
    fix z assume z: "z \<in> set rows" "token_family y = token_family z" "used_at y = (if token_id z = token_id x then Some now else used_at z)"
    then show ?thesis using one_unspentD [OF assms(1) z(1) assms(2)] that(2) assms(3) by (cases "used_at z") auto
  qed
  have "one_unspent (spend now (token_id x) rows)"
    by (rule one_unspentI, elim spendE) (auto intro: one_unspentD [OF assms(1)] split: if_splits)
  then show ?thesis using spent assms(4) by (intro one_unspent_append) simp_all
qed

section \<open>Every step keeps it\<close>

text \<open>The other connections' rows are untouched by a change to rows they do not hold.\<close>

lemma others_ok:
  assumes "races_ok s" and "t' \<noteq> t" and "\<And>x. x \<in> set (committed s) \<Longrightarrow> token_id x \<notin> holds (backends s t) \<Longrightarrow> x \<in> set rows'"
    and "token_id ` set rows' \<subseteq> token_id ` set (committed s) \<union> token_id ` set (pending (backends s t))"
    and "token_hash ` set rows' \<subseteq> token_hash ` set (committed s) \<union> token_hash ` set (pending (backends s t))"
    and "token_id ` set (committed s) \<subseteq> token_id ` set rows'"
  shows "backend_ok rows' (backends s t')"
proof (rule backend_ok_change [OF _ _ assms(4,5) _ _ assms(6)])
  have a: "apart (backends s t') (backends s t)" using assms(1,2) by (simp add: races_ok_def)
  show "backend_ok (committed s) (backends s t')" using assms(1) by (simp add: races_ok_def)
  show "x \<in> set rows'" if "x \<in> set (committed s)" "token_id x \<in> holds (backends s t')" for x
    using that a assms(3) by (auto simp: apart_def)
  show "token_id ` set (pending (backends s t')) \<inter> token_id ` set (pending (backends s t)) = {}"
    "token_hash ` set (pending (backends s t')) \<inter> token_hash ` set (pending (backends s t)) = {}"
    using a by (simp_all add: apart_def)
qed

lemma kept_by_spend: "x \<in> set rows \<Longrightarrow> token_id x \<noteq> k \<Longrightarrow> x \<in> set (spend now k rows)"
  unfolding spend_def by (rule untouched_row)

lemma kept_by_sweep: "x \<in> set rows \<Longrightarrow> token_id x \<notin> set ks \<Longrightarrow> x \<in> set (sweep now ks rows)"
  unfolding sweep_def by (rule untouched_row)

lemma unlocked_apart:
  "unlocked_for s t k \<Longrightarrow> t' \<noteq> t \<Longrightarrow> k \<notin> holds (backends s t')"
  by (simp add: unlocked_for_def)

lemma rows_of: "races_ok s \<Longrightarrow> table_ok (committed s)" "races_ok s \<Longrightarrow> backend_ok (committed s) (backends s t)"
  "races_ok s \<Longrightarrow> t' \<noteq> t \<Longrightarrow> apart (backends s t) (backends s t')"
  by (simp_all add: races_ok_def)

lemma commit_ok:
  assumes ok: "races_ok s" and b: "backends s t = Minted now r n"
  shows "races_ok (set_backend t Idle (s\<lparr>committed := spend now (token_id r) (committed s) @ [n],
    rotations := rotations s @ [(token_hash r, token_family r)]\<rparr>))" (is "races_ok ?s")
proof -
  let ?rows = "spend now (token_id r) (committed s) @ [n]"
  obtain x where x: "x \<in> set (committed s)" "used_at x = None" "r = mark_used now x"
    and n: "token_family n = token_family r" "used_at n = None" "token_id n \<notin> token_id ` set (committed s)"
      "token_hash n \<notin> token_hash ` set (committed s)"
    using rows_of(2) [OF ok, of t] b by auto
  have T: "table_ok (committed s)" using ok by (rule rows_of)
  have "table_ok ?rows"
    using T n x one_unspent_commit [of "committed s" x n now] by (simp add: table_ok_def)
  moreover have "backend_ok ?rows (backends s t')" if "t' \<noteq> t" for t'
    by (rule others_ok [OF ok that]) (use b in \<open>auto simp: kept_by_spend\<close>)
  moreover have hashes: "fst ` set (rotations ?s) \<subseteq> spent_hashes ?rows"
  proof -
    have "spent_hashes ?rows = spent_hashes (spend now (token_id r) (committed s))" using n(2) by (auto simp: spent_hashes_def)
    moreover have "token_hash r \<in> spent_hashes (spend now (token_id r) (committed s))"
      unfolding in_spent_spend using x by auto
    moreover have "spent_hashes (committed s) \<subseteq> spent_hashes (spend now (token_id r) (committed s))"
      by (blast intro: spent_grows)
    ultimately show ?thesis using ok by (auto simp: races_ok_def)
  qed
  moreover have "token_hash r \<notin> fst ` set (rotations s)"
  proof
    assume "token_hash r \<in> fst ` set (rotations s)"
    then have "token_hash x \<in> spent_hashes (committed s)" using ok x(3) by (auto simp: races_ok_def)
    then obtain y where "y \<in> set (committed s)" "token_hash y = token_hash x" "used_at y \<noteq> None"
      unfolding in_spent by blast
    moreover have "distinct (map token_hash (committed s))" using T by (simp add: table_ok_def)
    ultimately show False using x(1,2) distinct_key_unique by metis
  qed
  ultimately show ?thesis using ok by (auto simp: races_ok_def)
qed

lemma sweep_commit_ok:
  assumes ok: "races_ok s" and b: "backends s t = Sweeping now [] marked"
  shows "races_ok (set_backend t Idle (s\<lparr>committed := sweep now marked (committed s)\<rparr>))"
proof -
  have "table_ok (sweep now marked (committed s))"
    using rows_of(1) [OF ok] one_unspent_sweep by (simp add: table_ok_def)
  moreover have "backend_ok (sweep now marked (committed s)) (backends s t')" if "t' \<noteq> t" for t'
    by (rule others_ok [OF ok that]) (use b in \<open>auto simp: kept_by_sweep\<close>)
  ultimately show ?thesis using ok by (auto simp: races_ok_def)
qed

lemma issue_ok:
  assumes ok: "races_ok s" and keys: "unused_keys s i (param_hash p)" and fam: "param_family p \<notin> token_family ` set (committed s)"
  shows "races_ok (s\<lparr>committed := committed s @ [new_row now i p]\<rparr>)"
proof -
  let ?rows = "committed s @ [new_row now i p]"
  have "table_ok ?rows"
    using rows_of(1) [OF ok] keys fam
    by (auto simp: table_ok_def unused_keys_def image_iff intro!: one_unspent_append)
  moreover have "backend_ok ?rows (backends s t)" for t
    by (rule backend_ok_change [OF rows_of(2) [OF ok], of t _ "{i}" "{param_hash p}"])
      (use keys in \<open>auto simp: unused_keys_def\<close>)
  moreover have "spent_hashes (committed s) \<subseteq> spent_hashes ?rows" by (auto simp: spent_hashes_def)
  ultimately show ?thesis using ok by (auto simp: races_ok_def)
qed

lemma races_ok_step:
  assumes "race_step s s'" and ok: "races_ok s"
  shows "races_ok s'"
  using assms(1)
proof cases
  case (consume t now h snap r)
  have "apart (Holding now (mark_used now r)) (backends s t')" if "t' \<noteq> t" for t'
    using unlocked_apart [OF consume(6) that] by (simp add: apart_def)
  then show ?thesis unfolding consume(1) using consume(3,5)
    by (intro set_backend_ok [OF ok]) (auto simp: consumable_def)
next
  case (mint t now r p i)
  have "apart (Minted now r (new_row now i p)) (backends s t')" if "t' \<noteq> t" for t'
    using rows_of(3) [OF ok that] mint(2,5) by (auto simp: apart_def unused_keys_def)
  then show ?thesis unfolding mint(1) using mint(2-5) rows_of(2) [OF ok, of t]
    by (intro set_backend_ok [OF ok]) (auto simp: unused_keys_def)
next
  case (commit t now r n)
  show ?thesis unfolding commit(1) by (rule commit_ok [OF ok commit(2)])
next
  case (sweep_row t now x todo marked)
  have "apart (Sweeping now todo (if list_ex (\<lambda>r. token_id r = token_id x \<and> revoked_at r = None) (committed s)
      then token_id x # marked else marked)) (backends s t')" if "t' \<noteq> t" for t'
    using rows_of(3) [OF ok that] unlocked_apart [OF sweep_row(3) that] sweep_row(2) by (auto simp: apart_def)
  then show ?thesis unfolding sweep_row(1) by (intro set_backend_ok [OF ok]) simp_all
next
  case (sweep_commit t now marked)
  show ?thesis unfolding sweep_commit(1) by (rule sweep_commit_ok [OF ok sweep_commit(2)])
next
  case (issue i p now)
  show ?thesis unfolding issue(1) by (rule issue_ok [OF ok issue(2,3)])
qed (auto intro!: set_backend_ok [OF ok] simp: apart_def)

interpretation races: kept_by_steps race_step races_ok
  by unfold_locales (rule races_ok_step)

section \<open>After a revocation\<close>

text \<open>
  What is left of family \<open>f\<close> once a revocation of it is committed. \<open>K\<close> are the ids of the rows
  at that moment, \<open>n\<close> the rotations so far: a rotation still under way holds a row of \<open>K\<close>, or
  has a snapshot of rows of \<open>K\<close>; one of them may commit, and then every row of \<open>K\<close> is spent.
\<close>

definition count_of :: "uuid \<Rightarrow> store_state \<Rightarrow> nat" where
  "count_of f s = length (filter (\<lambda>e. snd e = f) (rotations s))"

fun under_way :: "uuid set \<Rightarrow> uuid \<Rightarrow> backend \<Rightarrow> bool" where
  "under_way K f (Searching now h snap) = (family_revoked snap f \<or> token_id ` set snap \<subseteq> K)"
| "under_way K f (Holding now r) = (token_family r = f \<longrightarrow> token_id r \<in> K)"
| "under_way K f (Minted now r n) = (token_family r = f \<longrightarrow> token_id r \<in> K)"
| "under_way K f Idle = True"
| "under_way K f (Sweeping now todo marked) = True"

definition doomed :: "uuid set \<Rightarrow> uuid \<Rightarrow> nat \<Rightarrow> store_state \<Rightarrow> bool" where
  "doomed K f n s \<longleftrightarrow> races_ok s \<and> family_revoked (committed s) f \<and> K \<subseteq> token_id ` set (committed s)
    \<and> (\<forall>t. under_way K f (backends s t))
    \<and> (count_of f s = n \<or> K \<noteq> {} \<and> count_of f s = Suc n
        \<and> (\<forall>x \<in> set (committed s). token_family x = f \<and> token_id x \<in> K \<longrightarrow> used_at x \<noteq> None))"

lemma revoked_spend [simp]: "family_revoked (spend now k rows) f = family_revoked rows f"
  by (simp add: family_revoked_def spend_def list_ex_update_where_same)

lemma revoked_sweep: "family_revoked rows f \<Longrightarrow> family_revoked (sweep now ks rows) f"
  unfolding family_revoked_def list_ex_iff sweep_def bex_update_where by auto

lemma revoked_append: "family_revoked rows f \<Longrightarrow> family_revoked (rows @ rows') f"
  by (auto simp: family_revoked_def)

lemma count_set_backend [simp]: "count_of f (set_backend t b s) = count_of f s"
  by (simp add: count_of_def)

lemma doomed_backend:
  assumes "doomed K f n s" and "races_ok (set_backend t b s)" and "under_way K f b"
  shows "doomed K f n (set_backend t b s)"
  using assms by (auto simp: doomed_def)

lemma doomed_commit:
  assumes d: "doomed K f n s" and b: "backends s t = Minted now r m"
    and ok: "races_ok (set_backend t Idle (s\<lparr>committed := spend now (token_id r) (committed s) @ [m],
      rotations := rotations s @ [(token_hash r, token_family r)]\<rparr>))" (is "races_ok ?s")
  shows "doomed K f n ?s"
proof -
  have s: "races_ok s" and K: "K \<subseteq> token_id ` set (committed s)" using d by (simp_all add: doomed_def)
  obtain x where x: "x \<in> set (committed s)" "used_at x = None" "r = mark_used now x"
    and m: "token_id m \<notin> token_id ` set (committed s)" "token_family m = token_family r"
    using rows_of(2) [OF s, of t] b by auto
  have held: "token_family r = f \<longrightarrow> token_id r \<in> K" using d b by (metis doomed_def under_way.simps(3))
  have last: "used_at y \<noteq> None" if "token_family r = f" "y \<in> set (committed ?s)" "token_family y = f" "token_id y \<in> K" for y
  proof -
    have "y \<noteq> m" using that(4) m(1) K by auto
    then have "y \<in> set (spend now (token_id r) (committed s))" using that(2) by simp
    then show ?thesis
    proof (rule spendE)
      fix z assume z: "z \<in> set (committed s)" "token_id y = token_id z" "token_family y = token_family z"
        "used_at y = (if token_id z = token_id r then Some now else used_at z)"
      have "used_at z = None \<Longrightarrow> token_id z = token_id x"
        using one_unspentD [OF _ z(1) x(1)] rows_of(1) [OF s] x(2,3) that(1,3) z(3) by (simp add: table_ok_def)
      then show ?thesis using z(4) x(3) by (cases "used_at z") auto
    qed
  qed
  have count: "count_of f ?s = (if token_family r = f then Suc (count_of f s) else count_of f s)"
    by (simp add: count_of_def)
  have done_before: "used_at y \<noteq> None" if "\<forall>x \<in> set (committed s). token_family x = f \<and> token_id x \<in> K \<longrightarrow> used_at x \<noteq> None"
    "y \<in> set (committed ?s)" "token_family y = f" "token_id y \<in> K" for y
  proof -
    have "y \<noteq> m" using that(4) m(1) K by auto
    then have "y \<in> set (spend now (token_id r) (committed s))" using that(2) by simp
    then show ?thesis using that(1,3,4) by (elim spendE) auto
  qed
  have first: "count_of f s = n" if "token_family r = f"
  proof -
    have "\<exists>z \<in> set (committed s). token_family z = f \<and> token_id z \<in> K \<and> used_at z = None"
      using x held that by (intro bexI [of _ x]) auto
    then show ?thesis using d unfolding doomed_def by blast
  qed
  have "count_of f ?s = n \<or> K \<noteq> {} \<and> count_of f ?s = Suc n
      \<and> (\<forall>x \<in> set (committed ?s). token_family x = f \<and> token_id x \<in> K \<longrightarrow> used_at x \<noteq> None)"
  proof (cases "token_family r = f")
    case True
    then show ?thesis using first held last count by auto
  next
    case False
    then show ?thesis using d count done_before unfolding doomed_def by auto
  qed
  then show ?thesis
    using d ok by (auto simp: doomed_def revoked_append)
qed

lemma doomed_table:
  assumes "doomed K f n s" and "races_ok s'" and "family_revoked (committed s') f" and "token_id ` set (committed s) \<subseteq> token_id ` set (committed s')"
    and "\<And>t. under_way K f (backends s' t)" and "rotations s' = rotations s"
    and "\<And>y. y \<in> set (committed s') \<Longrightarrow> token_id y \<in> K \<Longrightarrow> token_family y = f \<Longrightarrow>
      \<exists>x \<in> set (committed s). token_id x = token_id y \<and> token_family x = f \<and> used_at x = used_at y"
  shows "doomed K f n s'"
proof -
  have "count_of f s' = count_of f s" using assms(6) by (simp add: count_of_def)
  moreover have "\<forall>y \<in> set (committed s'). token_family y = f \<and> token_id y \<in> K \<longrightarrow> used_at y \<noteq> None"
    if "\<forall>x \<in> set (committed s). token_family x = f \<and> token_id x \<in> K \<longrightarrow> used_at x \<noteq> None"
    using that assms(7) by metis
  moreover have "count_of f s = n \<or> K \<noteq> {} \<and> count_of f s = Suc n
        \<and> (\<forall>x \<in> set (committed s). token_family x = f \<and> token_id x \<in> K \<longrightarrow> used_at x \<noteq> None)"
    using assms(1) by (simp add: doomed_def)
  moreover have "K \<subseteq> token_id ` set (committed s')"
    using assms(1) by (intro subset_trans [OF _ assms(4)]) (simp add: doomed_def)
  ultimately show ?thesis using assms(2,3,5) unfolding doomed_def by metis
qed

lemma doomed_step:
  assumes "race_step s s'" and d: "doomed K f n s"
  shows "doomed K f n s'"
proof -
  have ok': "races_ok s'" using races_ok_step [OF assms(1)] d by (simp add: doomed_def)
  note one = doomed_backend [OF d]
  have way: "under_way K f (backends s t)" for t using d by (simp add: doomed_def)
  from assms(1) show ?thesis
  proof cases
    case (start t h now)
    then show ?thesis using ok' one d by (simp add: doomed_def)
  next
    case (consume t now h snap r)
    have "token_id r \<in> K" if "token_family r = f"
      using way [of t] consume(2,4,5) that by (auto simp: consumable_def)
    then show ?thesis using ok' one consume(1) by simp
  next
    case (mint t now r p i)
    then show ?thesis using ok' one way [of t] by simp
  next
    case (commit t now r m)
    then show ?thesis using doomed_commit [OF d commit(2)] ok' by simp
  next
    case (sweep_commit t now marked)
    have "under_way K f (backends s' u)" for u using way sweep_commit(1) by simp
    moreover have "family_revoked (committed s') f" using d sweep_commit(1) revoked_sweep by (simp add: doomed_def)
    moreover have "\<exists>x \<in> set (committed s). token_id x = token_id y \<and> token_family x = f \<and> used_at x = used_at y"
      if "y \<in> set (committed s')" "token_family y = f" for y
      using that sweep_commit(1) by (auto elim!: sweepE)
    ultimately show ?thesis using sweep_commit(1) by (intro doomed_table [OF d ok']) simp_all
  next
    case (issue i p now)
    have "family_revoked (committed s') f" using d issue(1) by (simp add: doomed_def revoked_append)
    moreover have "\<exists>x \<in> set (committed s). token_id x = token_id y \<and> token_family x = f \<and> used_at x = used_at y"
      if "y \<in> set (committed s')" "token_id y \<in> K" "token_family y = f" for y
      using that issue d unfolding doomed_def unused_keys_def by auto
    ultimately show ?thesis using issue(1) way by (intro doomed_table [OF d ok']) auto
  qed (use ok' one in simp_all)
qed

interpretation dead: kept_by_steps race_step "doomed K f n" for K f n
  by unfold_locales (rule doomed_step)

section \<open>The properties\<close>

text \<open>
  C5. Two requests with one token. However the statements of any number of rotations,
  revocations and sign-ins interleave, and whichever are rolled back, no token is rotated by
  two committed transactions, and no family ever has two unspent rows.
\<close>

theorem race_has_one_winner:
  assumes "races_ok s" and "race_step\<^sup>*\<^sup>* s s'"
  shows "distinct (map fst (rotations s')) \<and> one_unspent (committed s')"
  using races.kept_reachable [OF assms(2,1)] by (simp add: races_ok_def table_ok_def)

text \<open>
  C6. A revocation and the rotations under way. Once a revocation of a family is committed, at
  most one more rotation of the family commits, one that had started before; if none had
  started, none commits. In particular the successor a straggler leaves cannot be rotated.
\<close>

theorem revocation_stops_rotations:
  assumes "races_ok s" and "family_revoked (committed s) f" and "race_step\<^sup>*\<^sup>* s s'"
  shows "count_of f s' \<le> (if \<forall>t. backends s t = Idle then count_of f s else Suc (count_of f s))"
proof -
  let ?K = "if \<forall>t. backends s t = Idle then {} else token_id ` set (committed s)"
  have "under_way ?K f (backends s t)" for t
    using rows_of(2) [OF assms(1), of t] by (cases "backends s t") auto
  then have "doomed ?K f (count_of f s) s" using assms(1,2) by (simp add: doomed_def)
  then have "doomed ?K f (count_of f s) s'" by (rule dead.kept_reachable [OF assms(3)])
  then show ?thesis by (auto simp: doomed_def split: if_splits)
qed

section \<open>Witnesses\<close>

text \<open>Two tabs with the token of family 5, and somebody signing the user out.\<close>

definition race_row :: refresh_token where
  "race_row = \<lparr>token_id = 2, token_user = 1, token_family = 5, token_hash = ''h'', issued_at = 0,
     expires_at = 1000, used_at = None, revoked_at = None\<rparr>"

definition race_start :: store_state where
  "race_start = \<lparr>committed = [race_row], backends = (\<lambda>_. Idle), rotations = []\<rparr>"

lemma race_start_ok: "races_ok race_start"
  by (simp add: races_ok_def race_start_def table_ok_def one_unspent_def race_row_def)

text \<open>The first tab rotates and commits while the second one's UPDATE waits for its lock.\<close>

definition race_next :: insert_refresh_token_params where
  "race_next = \<lparr>param_user = 1, param_family = 5, param_hash = ''n'', param_expires = 1000\<rparr>"

definition race_won :: store_state where
  "race_won = \<lparr>committed = [mark_used 10 race_row, new_row 10 3 race_next],
     backends = (\<lambda>_. Idle)(1 := Searching 10 ''h'' [race_row]), rotations = [(''h'', 5)]\<rparr>"

lemma race_to_won: "race_step\<^sup>*\<^sup>* race_start race_won"
proof -
  let ?s1 = "set_backend 0 (Searching 10 ''h'' [race_row]) race_start"
  let ?s2 = "set_backend 1 (Searching 10 ''h'' [race_row]) ?s1"
  let ?s3 = "set_backend 0 (Holding 10 (mark_used 10 race_row)) ?s2"
  let ?s4 = "set_backend 0 (Minted 10 (mark_used 10 race_row) (new_row 10 3 race_next)) ?s3"
  let ?s5 = "set_backend 0 Idle (?s4\<lparr>committed := spend 10 2 [race_row] @ [new_row 10 3 race_next], rotations := [(''h'', 5)]\<rparr>)"
  have 1: "race_step race_start ?s1" using race_step.start [of race_start 0 10 "''h''"] by (simp add: race_start_def)
  have 2: "race_step ?s1 ?s2" using race_step.start [of ?s1 1 10 "''h''"] by (simp add: race_start_def set_backend_def)
  have 3: "race_step ?s2 ?s3"
    by (rule race_step.consume [of _ _ 10 "''h''" "[race_row]"])
      (simp_all add: race_start_def race_row_def consumable_def family_revoked_def unlocked_for_def)
  have 4: "race_step ?s3 ?s4"
    by (rule race_step.mint) (simp_all add: race_next_def race_row_def unused_keys_def race_start_def)
  have 5: "race_step ?s4 ?s5"
    using race_step.commit [of ?s4 0 10 "mark_used 10 race_row" "new_row 10 3 race_next"]
    by (simp add: race_start_def race_row_def set_backend_def)
  note step = converse_rtranclp_into_rtranclp [of race_step]
  have eq: "?s5 = race_won"
    by (simp add: race_won_def race_start_def set_backend_def spend_def fun_eq_iff race_row_def)
  show ?thesis
    using step [OF 1 step [OF 2 step [OF 3 step [OF 4 step [OF 5 rtranclp.rtrancl_refl]]]]] unfolding eq .
qed

theorem race_has_one_winner_witness:
  "distinct (map fst (rotations race_won)) \<and> one_unspent (committed race_won)"
  by (rule race_has_one_winner [OF race_start_ok race_to_won])

text \<open>With the loser's UPDATE still waiting, the family is revoked; the waiting one may not win any more.\<close>

definition race_over :: store_state where
  "race_over = race_won\<lparr>committed := sweep 20 [2, 3] (committed race_won)\<rparr>"

theorem revocation_stops_rotations_witness:
  "count_of 5 (set_backend 1 Idle race_over) \<le> 2"
proof -
  have "races_ok race_won" using races.kept_reachable [OF race_to_won race_start_ok] .
  let ?s = "set_backend 0 (Sweeping 20 [] [2, 3]) race_won"
  have "races_ok ?s"
    by (rule set_backend_ok [OF \<open>races_ok race_won\<close>]) (simp_all add: apart_def race_won_def)
  moreover have "race_over = set_backend 0 Idle (?s\<lparr>committed := sweep 20 [2, 3] (committed ?s)\<rparr>)"
    by (simp add: race_over_def race_won_def set_backend_def fun_eq_iff)
  ultimately have ok: "races_ok race_over"
    using sweep_commit_ok [of ?s 0 20 "[2, 3]"] by simp
  have dead: "family_revoked (committed race_over) 5"
    by (simp add: race_over_def race_won_def sweep_def family_revoked_def race_row_def race_next_def)
  have "race_step\<^sup>*\<^sup>* race_over (set_backend 1 Idle race_over)"
    using race_step.rollback by blast
  from revocation_stops_rotations [OF ok dead this] show ?thesis
    by (simp add: race_over_def race_won_def count_of_def split: if_splits)
qed

end
