(* ===== verification/Race_Runs.thy ===== *)
theory Race_Runs
  imports Races Session_Theorems
begin

text \<open>
  The interleaved statements of Races include the operations of Sessions: every operation,
  with whatever faults, is one of the runs of Races in which nobody else does anything. What
  Races shows of all its runs therefore holds of the runs of Sessions too.
\<close>

text \<open>A store nobody is connected to.\<close>

definition quiet :: "refresh_token list \<Rightarrow> (string \<times> uuid) list \<Rightarrow> store_state" where
  "quiet rows log = \<lparr>committed = rows, backends = (\<lambda>_. Idle), rotations = log\<rparr>"

lemma quiet_simps [simp]:
  "committed (quiet rows log) = rows" "backends (quiet rows log) t = Idle" "rotations (quiet rows log) = log"
  by (simp_all add: quiet_def)

lemma quiet_eq: "s = quiet rows log \<longleftrightarrow> committed s = rows \<and> rotations s = log \<and> (\<forall>t. backends s t = Idle)"
  by (cases s) (auto simp: quiet_def)

text \<open>An undisturbed sweep visits and marks every row of its snapshot.\<close>

lemma sweep_alone:
  assumes "list_all (\<lambda>x. x \<in> set rows \<and> revoked_at x = None) todo"
  shows "race_step\<^sup>*\<^sup>* (set_backend 0 (Sweeping now todo marked) (quiet rows log))
    (set_backend 0 (Sweeping now [] (rev (map token_id todo) @ marked)) (quiet rows log))"
  using assms
proof (induction todo arbitrary: marked)
  case (Cons x todo)
  let ?s = "set_backend 0 (Sweeping now (x # todo) marked) (quiet rows log)"
  have "list_ex (\<lambda>r. token_id r = token_id x \<and> revoked_at r = None) rows" using Cons.prems by (auto simp: list_ex_iff)
  then have "race_step ?s (set_backend 0 (Sweeping now todo (token_id x # marked)) ?s)"
    using race_step.sweep_row [of ?s 0 now x todo marked] by (simp add: unlocked_for_def)
  then have "race_step ?s (set_backend 0 (Sweeping now todo (token_id x # marked)) (quiet rows log))"
    by (simp add: set_backend_def)
  then show ?case using Cons by (simp add: converse_rtranclp_into_rtranclp)
qed simp

lemma revoke_alone:
  assumes "distinct (map token_id rows)"
  shows "race_step\<^sup>*\<^sup>* (quiet rows log) (quiet (update_where (\<lambda>r. P r \<and> revoked_at r = None) (mark_revoked now) rows) log)"
proof -
  let ?Q = "\<lambda>r. P r \<and> revoked_at r = None"
  let ?todo = "filter ?Q rows"
  let ?s0 = "set_backend 0 (Sweeping now ?todo []) (quiet rows log)"
  let ?s1 = "set_backend 0 (Sweeping now [] (rev (map token_id ?todo))) (quiet rows log)"
  have start: "race_step (quiet rows log) ?s0" by (rule race_step.sweep_start) simp_all
  have middle: "race_step\<^sup>*\<^sup>* ?s0 ?s1" using sweep_alone [of rows ?todo now "[]" log] by (simp add: list_all_iff)
  have mine: "token_id x \<in> set (rev (map token_id ?todo)) \<longleftrightarrow> ?Q x" if "x \<in> set rows" for x
    using distinct_key_unique [OF assms that] that by auto
  have "sweep now (rev (map token_id ?todo)) rows = update_where ?Q (mark_revoked now) rows"
    unfolding sweep_def update_where_def by (rule map_cong [OF refl]) (simp only: mine)
  then have "set_backend 0 Idle (?s1\<lparr>committed := sweep now (rev (map token_id ?todo)) (committed ?s1)\<rparr>)
      = quiet (update_where ?Q (mark_revoked now) rows) log" by (simp add: quiet_eq)
  then have "race_step ?s1 (quiet (update_where ?Q (mark_revoked now) rows) log)"
    using race_step.sweep_commit [of ?s1 0 now "rev (map token_id ?todo)"] by simp
  then show ?thesis using start middle by (meson converse_rtranclp_into_rtranclp rtranclp.rtrancl_into_rtrancl)
qed

text \<open>An undisturbed rotation consumes, inserts and commits.\<close>

lemma rotate_alone:
  assumes ids: "distinct (map token_id rows)" and hashes: "distinct (map token_hash rows)"
    and r: "r \<in> set rows" "consumable now h rows r"
    and p: "param_family p = token_family r" "param_user p = token_user r" "i \<notin> token_id ` set rows" "param_hash p \<notin> token_hash ` set rows"
  shows "race_step\<^sup>*\<^sup>* (quiet rows log)
    (quiet (update_where (consumable now h rows) (mark_used now) rows @ [new_row now i p]) (log @ [(h, token_family r)]))"
proof -
  let ?s = "\<lambda>b. set_backend 0 b (quiet rows log)"
  let ?r = "mark_used now r" and ?n = "new_row now i p"
  have again: "set_backend 0 b (?s b') = ?s b" for b b' by (simp add: set_backend_def)
  have 1: "race_step (quiet rows log) (?s (Searching now h rows))"
    using race_step.start [of "quiet rows log" 0 now h] by simp
  have "race_step (?s (Searching now h rows)) (set_backend 0 (Holding now ?r) (?s (Searching now h rows)))"
    by (rule race_step.consume) (use r in \<open>simp_all add: unlocked_for_def\<close>)
  then have 2: "race_step (?s (Searching now h rows)) (?s (Holding now ?r))" unfolding again .
  have "race_step (?s (Holding now ?r)) (set_backend 0 (Minted now ?r ?n) (?s (Holding now ?r)))"
    by (rule race_step.mint) (use p in \<open>simp_all add: unused_keys_def\<close>)
  then have 3: "race_step (?s (Holding now ?r)) (?s (Minted now ?r ?n))" unfolding again .
  have mine: "consumable now h rows x \<longleftrightarrow> token_id x = token_id r" if "x \<in> set rows" for x
    using distinct_key_unique [OF ids that r(1)] distinct_key_unique [OF hashes that r(1)] r(2)
    by (auto simp: consumable_def)
  have "update_where (consumable now h rows) (mark_used now) rows = spend now (token_id r) rows"
    unfolding spend_def update_where_def by (rule map_cong [OF refl]) (simp only: mine)
  then have "set_backend 0 Idle ((?s (Minted now ?r ?n))\<lparr>committed := spend now (token_id ?r) (committed (?s (Minted now ?r ?n))) @ [?n],
      rotations := rotations (?s (Minted now ?r ?n)) @ [(token_hash ?r, token_family ?r)]\<rparr>)
      = quiet (update_where (consumable now h rows) (mark_used now) rows @ [?n]) (log @ [(h, token_family r)])"
    using r(2) by (simp add: quiet_eq consumable_def)
  then have 4: "race_step (?s (Minted now ?r ?n)) (quiet (update_where (consumable now h rows) (mark_used now) rows @ [?n]) (log @ [(h, token_family r)]))"
    using race_step.commit [of "?s (Minted now ?r ?n)" 0 now ?r ?n] by simp
  note step = converse_rtranclp_into_rtranclp [of race_step]
  show ?thesis by (rule step [OF 1 step [OF 2 step [OF 3 step [OF 4 rtranclp.rtrancl_refl]]]])
qed

lemma effect_is_race_run:
  assumes "token_effect n g d d'" and "tokens_wf d" and "\<forall>f. g = Some f \<longrightarrow> f \<notin> token_family ` set (refresh_tokens d)"
  shows "\<exists>log'. race_step\<^sup>*\<^sup>* (quiet (refresh_tokens d) log) (quiet (refresh_tokens d') (log @ log'))"
  using assms
proof (induction rule: token_effect.induct)
  case (nothing n g d)
  then show ?case by (metis append_Nil2 rtranclp.rtrancl_refl)
next
  case (revoked n g d P t)
  then have "race_step\<^sup>*\<^sup>* (quiet (refresh_tokens d) log) (quiet (refresh_tokens (snd (revoke_where P t d))) (log @ []))"
    using revoke_alone [of "refresh_tokens d" log P t] by (simp add: revoke_where_def Let_def tokens_wf_def)
  then show ?case by blast
next
  case (started t i p d r d' f n)
  have "race_step (quiet (refresh_tokens d) log) ((quiet (refresh_tokens d) log)
      \<lparr>committed := committed (quiet (refresh_tokens d) log) @ [new_row t i p]\<rparr>)"
    by (rule race_step.issue) (use started in \<open>auto simp: insert_Inr unused_keys_def\<close>)
  then have "race_step (quiet (refresh_tokens d) log) (quiet (refresh_tokens d') (log @ []))"
    using started(1) by (simp add: insert_Inr quiet_def)
  then show ?case by blast
next
  case (rotated now h d c d1 i p r d2 g)
  obtain x where x: "x \<in> set (refresh_tokens d)" "consumable now h (refresh_tokens d) x" "c = mark_used now x"
    "d1 = d\<lparr>refresh_tokens := update_where (consumable now h (refresh_tokens d)) (mark_used now) (refresh_tokens d)\<rparr>"
    using rotated(1) by (rule consume_Inr)
  have keys: "i \<notin> token_id ` set (refresh_tokens d)" "param_hash p \<notin> token_hash ` set (refresh_tokens d)"
    and d2: "refresh_tokens d2 = refresh_tokens d1 @ [new_row now i p]"
    using rotated(2) arg_cong [OF used_id.keys_same [of "consumable now h (refresh_tokens d)" now "refresh_tokens d"], of set]
      arg_cong [OF used_hash.keys_same [of "consumable now h (refresh_tokens d)" now "refresh_tokens d"], of set]
    by (simp_all add: insert_Inr x(4))
  show ?case
    using rotate_alone [OF _ _ x(1,2) _ _ keys, of log] rotated(3-5) x(3,4) d2 by (auto simp: tokens_wf_def)
qed

text \<open>
  C35. One request at a time. Every guarded run of the operations of the session service, each
  as one step and with any faults, is a run of the interleaved statements: it takes the store
  from the same rows to the same rows.
\<close>

theorem session_runs_are_race_runs:
  assumes "tokens_wf d" and "guarded_run session_guard (session_step L t) as d"
  shows "\<exists>log'. race_step\<^sup>*\<^sup>* (quiet (refresh_tokens d) log) (quiet (refresh_tokens (run_steps (session_step L t) as d)) (log @ log'))"
  using assms
proof (induction as arbitrary: d log)
  case Nil
  then show ?case by (metis append_Nil2 rtranclp.rtrancl_refl run_steps.simps(1))
next
  case (Cons a as)
  have guard: "\<forall>f. op_family a = Some f \<longrightarrow> f \<notin> token_family ` set (refresh_tokens d)"
    using Cons.prems(2) by (simp add: session_guard_def)
  obtain l1 where l1: "race_step\<^sup>*\<^sup>* (quiet (refresh_tokens d) log) (quiet (refresh_tokens (session_step L t a d)) (log @ l1))"
    using effect_is_race_run [OF session_step_effect Cons.prems(1) guard] by blast
  have "tokens_wf (session_step L t a d)" using token_effect_wf [OF session_step_effect Cons.prems(1)] .
  from Cons.IH [OF this, of "log @ l1"] obtain l2 where
    "race_step\<^sup>*\<^sup>* (quiet (refresh_tokens (session_step L t a d)) (log @ l1))
      (quiet (refresh_tokens (run_steps (session_step L t) (a # as) d)) (log @ l1 @ l2))"
    using Cons.prems(2) by auto
  then show ?case using l1 by (metis rtranclp_trans)
qed

theorem session_runs_are_race_runs_witness:
  "\<exists>log'. race_step\<^sup>*\<^sup>* (quiet (refresh_tokens (sample_db ''h'')) [])
    (quiet (refresh_tokens (run_steps (session_step reference_libs reference_issuer)
      [OpIssue (calm_env 5 1 9 \<lparr>fault_at := (\<lambda>_. FailsAfter)\<rparr>) 1, OpRevokeAll (calm_env 20 1 4) 1] (sample_db ''h''))) ([] @ log'))"
proof (rule session_runs_are_race_runs)
  show "tokens_wf (sample_db ''h'')" using sample_ok by (simp add: sessions_ok_def)
  show "guarded_run session_guard (session_step reference_libs reference_issuer)
    [OpIssue (calm_env 5 1 9 \<lparr>fault_at := (\<lambda>_. FailsAfter)\<rparr>) 1, OpRevokeAll (calm_env 20 1 4) 1] (sample_db ''h'')"
    by (simp add: session_guard_def sample_db_def sample_token_def calm_env_def)
qed

end
