(* ===== verification/Config.thy ===== *)
theory Config
  imports Http
begin

text \<open>
  What the process reads from its environment (cmd/api/main.go) and its own health probe
  (cmd/api/healthcheck.go). \<open>getenv\<close> is os.Getenv: the empty string for a variable that is not
  set. Log levels are ordered as slog orders them.
\<close>

section \<open>Log levels\<close>

text \<open>slog's numbers.\<close>

fun level_number :: "level \<Rightarrow> int" where
  "level_number LevelDebug = -4"
| "level_number LevelInfo = 0"
| "level_number LevelWarn = 4"
| "level_number LevelError = 8"

instantiation level :: linorder
begin

definition less_eq_level :: "level \<Rightarrow> level \<Rightarrow> bool" where
  "less_eq_level a b \<longleftrightarrow> level_number a \<le> level_number b"

definition less_level :: "level \<Rightarrow> level \<Rightarrow> bool" where
  "less_level a b \<longleftrightarrow> level_number a < level_number b"

instance
proof
  fix x y :: level
  show "x \<le> y \<Longrightarrow> y \<le> x \<Longrightarrow> x = y" by (cases x; cases y) (simp_all add: less_eq_level_def)
qed (auto simp: less_eq_level_def less_level_def)

end

definition parse_level :: "string \<Rightarrow> level" where
  "parse_level s =
    (let t = to_lower (trim_space s) in
     if t = ''debug'' then LevelDebug
     else if t = ''warn'' \<or> t = ''warning'' then LevelWarn
     else if t = ''error'' then LevelError
     else LevelInfo)"

text \<open>The JSON handler built with that level drops what is below it.\<close>

definition log_enabled :: "level \<Rightarrow> log_entry \<Rightarrow> bool" where
  "log_enabled lvl l \<longleftrightarrow> lvl \<le> log_level l"

section \<open>The configuration\<close>

definition default_addr :: string where
  "default_addr = '':8080''"

definition env_or :: "(string \<Rightarrow> string) \<Rightarrow> string \<Rightarrow> string \<Rightarrow> string" where
  "env_or getenv key fallback = (if getenv key \<noteq> [] then getenv key else fallback)"

datatype config_error =
    DatabaseUrlRequired
  | SigningKeyRequired
  | GoogleCredentialsIncomplete

definition oidc_providers :: "(string \<Rightarrow> string) \<Rightarrow> config_error + exchange_config list" where
  "oidc_providers getenv =
    (let client_id = getenv ''GOOGLE_CLIENT_ID''; client_secret = getenv ''GOOGLE_CLIENT_SECRET'' in
     if client_id = [] \<and> client_secret = [] then Inr []
     else if client_id = [] \<or> client_secret = [] then Inl GoogleCredentialsIncomplete
     else Inr [\<lparr>ec_provider = \<lparr>provider_name = ''google'',
         provider_issuer = env_or getenv ''GOOGLE_ISSUER'' ''https://accounts.google.com'',
         provider_client_id = client_id\<rparr>,
       ec_client_secret = client_secret\<rparr>])"

record config =
  cfg_addr :: string
  cfg_log_level :: level
  cfg_database_url :: string
  cfg_signing_key :: "u8 list"
  cfg_providers :: "exchange_config list"
  cfg_secure_cookies :: bool

definition load_config :: "(string \<Rightarrow> string) \<Rightarrow> config_error + config" where
  "load_config getenv =
    (let database_url = getenv ''DATABASE_URL'' in
     if database_url = [] then Inl DatabaseUrlRequired
     else let key = getenv ''AUTH_SIGNING_KEY'' in
       if key = [] then Inl SigningKeyRequired
       else (case oidc_providers getenv of
          Inl err \<Rightarrow> Inl err
        | Inr ps \<Rightarrow> Inr \<lparr>cfg_addr = env_or getenv ''ADDR'' default_addr,
            cfg_log_level = parse_level (getenv ''LOG_LEVEL''),
            cfg_database_url = database_url, cfg_signing_key = bytes_of key, cfg_providers = ps,
            cfg_secure_cookies = (env_or getenv ''COOKIE_SECURE'' ''true'' \<noteq> ''false'')\<rparr>))"

section \<open>Addresses\<close>

text \<open>net.SplitHostPort and net.JoinHostPort of Go's standard library, byte by byte.\<close>

definition index_byte :: "char \<Rightarrow> string \<Rightarrow> nat option" where
  "index_byte c s = (if c \<in> set s then Some (length (takeWhile (\<lambda>d. d \<noteq> c) s)) else None)"

definition last_index_byte :: "char \<Rightarrow> string \<Rightarrow> nat option" where
  "last_index_byte c s = map_option (\<lambda>i. length s - 1 - i) (index_byte c (rev s))"

datatype addr_error = MissingPort | TooManyColons | MissingBracket | UnexpectedBracket

definition no_brackets :: "string \<Rightarrow> string \<Rightarrow> string \<times> string \<Rightarrow> addr_error + string \<times> string" where
  "no_brackets from_j from_k hp =
    (if CHR ''['' \<in> set from_j then Inl UnexpectedBracket
     else if CHR '']'' \<in> set from_k then Inl UnexpectedBracket
     else Inr hp)"

definition split_host_port :: "string \<Rightarrow> addr_error + string \<times> string" where
  "split_host_port s =
    (case last_index_byte (CHR '':'') s of
       None \<Rightarrow> Inl MissingPort
     | Some i \<Rightarrow>
        if s ! 0 = CHR ''['' then
          (case index_byte (CHR '']'') s of
             None \<Rightarrow> Inl MissingBracket
           | Some end_at \<Rightarrow>
               if end_at + 1 = length s then Inl MissingPort
               else if end_at + 1 = i then
                 no_brackets (drop 1 s) (drop (end_at + 1) s) (drop 1 (take end_at s), drop (i + 1) s)
               else if s ! (end_at + 1) = CHR '':'' then Inl TooManyColons
               else Inl MissingPort)
        else if CHR '':'' \<in> set (take i s) then Inl TooManyColons
        else no_brackets s s (take i s, drop (i + 1) s))"

definition join_host_port :: "string \<Rightarrow> string \<Rightarrow> string" where
  "join_host_port host port =
    (if CHR '':'' \<in> set host then ''['' @ host @ '']:'' @ port else host @ '':'' @ port)"

section \<open>The health probe\<close>

definition healthcheck_arg :: string where
  "healthcheck_arg = ''-healthcheck''"

definition healthcheck_timeout :: nanos where
  "healthcheck_timeout = 3 * second"

definition healthcheck_port :: "(string \<Rightarrow> string) \<Rightarrow> string" where
  "healthcheck_port getenv =
    (case split_host_port (env_or getenv ''ADDR'' default_addr) of
       Inr (_, port) \<Rightarrow> if port \<noteq> [] then port
         else (case split_host_port default_addr of Inl _ \<Rightarrow> ''8080'' | Inr (_, p) \<Rightarrow> p)
     | Inl _ \<Rightarrow> (case split_host_port default_addr of Inl _ \<Rightarrow> ''8080'' | Inr (_, p) \<Rightarrow> p))"

text \<open>
  \<open>builds url\<close>: net/http accepts the URL for a request; \<open>answer timeout url\<close>: the status of the
  answer within the timeout, None for a transport error. The result is the exit code.
\<close>

definition probe_url :: "(string \<Rightarrow> string) \<Rightarrow> string" where
  "probe_url getenv = ''http://'' @ join_host_port ''127.0.0.1'' (healthcheck_port getenv) @ ''/healthz''"

definition run_healthcheck :: "(string \<Rightarrow> string) \<Rightarrow> (string \<Rightarrow> bool) \<Rightarrow> (nanos \<Rightarrow> string \<Rightarrow> int option) \<Rightarrow> int" where
  "run_healthcheck getenv builds answer =
    (let url = probe_url getenv in
     if \<not> builds url then 1
     else (case answer healthcheck_timeout url of
        None \<Rightarrow> 1
      | Some status \<Rightarrow> if status \<noteq> 200 then 1 else 0))"

section \<open>Facts\<close>

lemma takeWhile_absent [simp]: "c \<notin> set xs \<Longrightarrow> takeWhile (\<lambda>d. d \<noteq> c) xs = xs"
  by (induction xs) auto

lemma index_byte_append: "c \<notin> set xs \<Longrightarrow> index_byte c (xs @ c # ys) = Some (length xs)"
  by (simp add: index_byte_def takeWhile_tail)

lemma last_index_append:
  "CHR '':'' \<notin> set port \<Longrightarrow> last_index_byte (CHR '':'') (host @ CHR '':'' # port) = Some (length host)"
  using index_byte_append [of "CHR '':''" "rev port" "rev host"] by (simp add: last_index_byte_def)

text \<open>Splitting what joining yields: hosts and ports without brackets, ports without colons.\<close>

lemma split_join:
  assumes "CHR ''['' \<notin> set host" and "CHR '']'' \<notin> set host"
    and "CHR '':'' \<notin> set port" and "CHR ''['' \<notin> set port" and "CHR '']'' \<notin> set port"
  shows "split_host_port (join_host_port host port) = Inr (host, port)"
proof (cases "CHR '':'' \<in> set host")
  case False
  then have j: "join_host_port host port = host @ CHR '':'' # port" by (simp add: join_host_port_def)
  have "(host @ CHR '':'' # port) ! 0 \<noteq> CHR ''[''" using assms(1) by (cases host) auto
  then show ?thesis
    using assms False by (simp add: j split_host_port_def last_index_append no_brackets_def)
next
  case True
  let ?s = "(CHR ''['' # host @ [CHR '']'']) @ CHR '':'' # port"
  have j: "join_host_port host port = ?s" using True by (simp add: join_host_port_def)
  have last: "last_index_byte (CHR '':'') ?s = Some (length host + 2)"
    by (subst last_index_append [OF assms(3)]) simp
  have "index_byte (CHR '']'') ?s = Some (length host + 1)"
    using index_byte_append [of "CHR '']''" "CHR ''['' # host" "CHR '':'' # port"] assms(2) by simp
  then show ?thesis
    using assms unfolding j split_host_port_def last by (simp add: no_brackets_def)
qed

lemma default_addr_splits: "split_host_port default_addr = Inr ([], ''8080'')"
  using split_join [of "[]" "''8080''"] by (simp add: join_host_port_def default_addr_def)

lemma healthcheck_port_cases:
  "healthcheck_port getenv = (case split_host_port (env_or getenv ''ADDR'' default_addr) of
     Inr (_, port) \<Rightarrow> if port \<noteq> [] then port else ''8080'' | Inl _ \<Rightarrow> ''8080'')"
  by (simp add: healthcheck_port_def default_addr_splits split: sum.split prod.split)

end
