(* ===== verification/Startup.thy ===== *)
theory Startup
  imports Config Router
begin

text \<open>
  The life of the process: internal/store/store.go and migrate.go, and main and run of
  cmd/api/main.go. What happens outside (the environment, Postgres, goose, the provider's
  discovery, what ends the listener) is the record \<open>host\<close>; a phase answers the events it
  caused, in order, with its error. Timeouts only bound how long a phase may take, so the
  durations are kept where the code hands them on.
\<close>

section \<open>The outside\<close>

record migration =
  mig_version :: int
  mig_path :: string
  mig_took :: nanos

text \<open>What the select in run sees first.\<close>

datatype stop = ListenFailed | ListenerClosed | SignalReceived

record host =
  host_args :: "string list"
  host_env :: "string \<Rightarrow> string"
  dsn_parses :: "string \<Rightarrow> bool"
  pool_creates :: "string \<Rightarrow> bool"
  pool_pings :: "string \<Rightarrow> bool"
  goose_prepares :: bool
  goose_up :: "migration list option"
  goose_version :: "int option"
  host_oidc :: oidc_lib
  host_stop :: stop
  shuts_down :: bool
  goroutine_runs :: "bool list"  \<comment> \<open>the scheduler's choices between the listening goroutine and run\<close>
  builds_url :: "string \<Rightarrow> bool"
  answers_probe :: "nanos \<Rightarrow> string \<Rightarrow> int option"

datatype start_error =
    ParsingDatabaseUrl
  | CreatingPool
  | ConnectingDatabase
  | PreparingMigrations
  | ApplyingMigrations
  | ReadingSchemaVersion
  | BadSigningKey token_error
  | BadProviders setup_error
  | ListenError
  | ShutdownError

section \<open>The listener\<close>

definition read_header_timeout :: nanos where "read_header_timeout = 5 * second"
definition read_timeout :: nanos where "read_timeout = 15 * second"
definition write_timeout :: nanos where "write_timeout = 15 * second"
definition idle_timeout :: nanos where "idle_timeout = 60 * second"
definition shutdown_timeout :: nanos where "shutdown_timeout = 10 * second"

record listener =
  lis_addr :: string
  lis_server :: server
  lis_read_header_timeout :: nanos
  lis_read_timeout :: nanos
  lis_write_timeout :: nanos
  lis_idle_timeout :: nanos

datatype event =
    PoolOpened string
  | PoolClosed
  | Migrated "migration list"
  | Serving listener
  | Stopping nanos
  | Logged log_entry

definition logged :: "level \<Rightarrow> log_entry \<Rightarrow> event list" where
  "logged lvl l = (if log_enabled lvl l then [Logged l] else [])"

section \<open>The phases\<close>

definition new_pool :: "host \<Rightarrow> string \<Rightarrow> event list \<times> (start_error + unit)" where
  "new_pool h dsn =
    (if \<not> dsn_parses h dsn then ([], Inl ParsingDatabaseUrl)
     else if \<not> pool_creates h dsn then ([], Inl CreatingPool)
     else if \<not> pool_pings h dsn then ([PoolOpened dsn, PoolClosed], Inl ConnectingDatabase)
     else ([PoolOpened dsn], Inr ()))"

definition migrate :: "host \<Rightarrow> level \<Rightarrow> event list \<times> (start_error + unit)" where
  "migrate h lvl =
    (if \<not> goose_prepares h then ([], Inl PreparingMigrations)
     else (case goose_up h of
        None \<Rightarrow> ([], Inl ApplyingMigrations)
      | Some results \<Rightarrow>
          (let applied = Migrated results # concat (map (\<lambda>r. logged lvl (info ''migration applied''
               [(''version'', AInt (mig_version r)), (''source'', AString (mig_path r)), (''took'', AInt (mig_took r))])) results)
           in case goose_version h of
                None \<Rightarrow> (applied, Inl ReadingSchemaVersion)
              | Some v \<Rightarrow> (applied @ logged lvl (info ''schema up to date''
                  [(''version'', AInt v), (''applied'', AInt (int (length results)))]), Inr ()))))"

definition no_provider_warning :: log_entry where
  "no_provider_warning = warn ''no OIDC provider configured; sign-in is unavailable until GOOGLE_CLIENT_ID and GOOGLE_CLIENT_SECRET are set'' []"

text \<open>
  The listening goroutine beside run, which waits for its end or for a signal. True lets the goroutine
  go on, False run; when run is through, the process ends with it. A server that was shut down
  before it listens never does: ListenAndServe answers ErrServerClosed at once.
\<close>

fun opens_listener :: "event \<Rightarrow> bool" where
  "opens_listener (Serving l) = True"
| "opens_listener ev = False"

fun shuts_server :: "event \<Rightarrow> bool" where
  "shuts_server (Stopping grace) = True"
| "shuts_server ev = False"

fun interleaved :: "bool list \<Rightarrow> event list \<Rightarrow> event list \<Rightarrow> event list" where
  "interleaved choices goroutine [] = []"
| "interleaved (True # choices) (g # goroutine) (m # runner) = g # interleaved choices goroutine (m # runner)"
| "interleaved (True # choices) [] (m # runner) = m # runner"
| "interleaved (False # choices) goroutine (m # runner) =
    m # interleaved choices (if shuts_server m then filter (\<lambda>ev. \<not> opens_listener ev) goroutine else goroutine) runner"
| "interleaved [] goroutine (m # runner) = m # runner"

text \<open>
  Serving until the listener ends or a signal comes; a listener that ends first has run first,
  while a signal may come before the goroutine was ever scheduled.
\<close>

definition serve_until_stopped :: "host \<Rightarrow> level \<Rightarrow> listener \<Rightarrow> event list \<times> start_error option" where
  "serve_until_stopped h lvl l =
    (let listening = logged lvl (info ''listening'' [(''addr'', AString (lis_addr l))]) @ [Serving l] in
     case host_stop h of
       ListenFailed \<Rightarrow> (listening, Some ListenError)
     | ListenerClosed \<Rightarrow> (listening, None)
     | SignalReceived \<Rightarrow>
        (let stopping = logged lvl (info ''shutdown signal received'' [(''grace'', AInt shutdown_timeout)]) @ [Stopping shutdown_timeout]
         in if \<not> shuts_down h then (interleaved (goroutine_runs h) listening stopping, Some ShutdownError)
            else (interleaved (goroutine_runs h) listening (stopping @ logged lvl (info ''shutdown complete'' [])), None)))"

definition run_with_pool :: "host \<Rightarrow> config \<Rightarrow> event list \<times> start_error option" where
  "run_with_pool h cfg =
    (let lvl = cfg_log_level cfg in
     case migrate h lvl of
       (ev, Inl err) \<Rightarrow> (ev, Some err)
     | (ev, Inr _) \<Rightarrow>
        (case new_token_issuer (cfg_signing_key cfg) of
           Inl err \<Rightarrow> (ev, Some (BadSigningKey err))
         | Inr tokens \<Rightarrow>
            (case new_exchanger (host_oidc h) (cfg_providers cfg) of
               Inl err \<Rightarrow> (ev, Some (BadProviders err))
             | Inr ex \<Rightarrow>
                (let warning = (if cfg_providers cfg = [] then logged lvl no_provider_warning else []);
                     (ev', res) = serve_until_stopped h lvl \<lparr>lis_addr = cfg_addr cfg,
                        lis_server = \<lparr>srv_exchanger = ex, srv_tokens = tokens, srv_secure_cookies = cfg_secure_cookies cfg\<rparr>,
                        lis_read_header_timeout = read_header_timeout, lis_read_timeout = read_timeout,
                        lis_write_timeout = write_timeout, lis_idle_timeout = idle_timeout\<rparr>
                 in (ev @ warning @ ev', res)))))"

text \<open>The deferred Close runs on every way out once the pool is there.\<close>

definition run :: "host \<Rightarrow> config \<Rightarrow> event list \<times> start_error option" where
  "run h cfg =
    (case new_pool h (cfg_database_url cfg) of
       (ev, Inl err) \<Rightarrow> (ev, Some err)
     | (ev, Inr _) \<Rightarrow> (let (ev', res) = run_with_pool h cfg in (ev @ ev' @ [PoolClosed], res)))"

text \<open>The events and the exit code; before the configuration is read the default logger reports.\<close>

definition main :: "host \<Rightarrow> event list \<times> int" where
  "main h =
    (if length (host_args h) > 1 \<and> host_args h ! 1 = healthcheck_arg
     then ([], run_healthcheck (host_env h) (builds_url h) (answers_probe h))
     else (case load_config (host_env h) of
        Inl err \<Rightarrow> ([Logged (error_line ''invalid configuration'')], 1)
      | Inr cfg \<Rightarrow>
         (case run h cfg of
            (ev, Some err) \<Rightarrow> (ev @ logged (cfg_log_level cfg) (error_line ''server stopped''), 1)
          | (ev, None) \<Rightarrow> (ev, 0))))"

section \<open>Facts\<close>

text \<open>Log lines are none of the events the properties speak of.\<close>

definition notable :: "event \<Rightarrow> bool" where
  "notable ev = (case ev of Logged _ \<Rightarrow> False | _ \<Rightarrow> True)"

definition headlines :: "event list \<Rightarrow> event list" where
  "headlines evs = filter notable evs"

lemma headlines_simps [simp]:
  "headlines [] = []" "headlines (PoolOpened d # evs) = PoolOpened d # headlines evs" "headlines (PoolClosed # evs) = PoolClosed # headlines evs"
  "headlines (Migrated ms # evs) = Migrated ms # headlines evs" "headlines (Serving l # evs) = Serving l # headlines evs"
  "headlines (Stopping n # evs) = Stopping n # headlines evs" "headlines (Logged l' # evs) = headlines evs"
  "headlines (evs @ evs') = headlines evs @ headlines evs'"
  by (simp_all add: headlines_def notable_def)

lemma headlines_logged [simp]: "headlines (logged lvl l) = []" "headlines (concat (map (\<lambda>r. logged lvl (g r)) rs)) = []"
proof -
  show "headlines (logged lvl l) = []" for l by (simp add: logged_def)
  then show "headlines (concat (map (\<lambda>r. logged lvl (g r)) rs)) = []" by (induction rs) simp_all
qed

lemma level_max: "lvl \<le> LevelError"
  by (cases lvl) (simp_all add: less_eq_level_def)

lemma migrate_notable:
  "headlines (fst (migrate h lvl)) = (if goose_prepares h then (case goose_up h of None \<Rightarrow> [] | Some ms \<Rightarrow> [Migrated ms]) else [])"
  "snd (migrate h lvl) = Inr () \<longleftrightarrow> goose_prepares h \<and> goose_up h \<noteq> None \<and> goose_version h \<noteq> None"
  by (auto simp: migrate_def Let_def split: option.splits)

text \<open>Under every schedule the server is shut down once, and if it listens it does so before.\<close>

lemma headlines_event: "headlines (ev # evs) = (if notable ev then ev # headlines evs else headlines evs)"
  by (simp add: headlines_def)

lemma headlines_unopened: "headlines (filter (\<lambda>ev. \<not> opens_listener ev) evs) = filter (\<lambda>ev. \<not> opens_listener ev) (headlines evs)"
  by (simp add: headlines_def conj_commute)

lemma interleaved_notable:
  assumes "headlines goroutine = [] \<or> headlines goroutine = [Serving l]" and "headlines runner = [] \<or> headlines runner = [Stopping n]"
  shows "headlines (interleaved choices goroutine runner) = headlines runner
    \<or> headlines (interleaved choices goroutine runner) = headlines goroutine @ headlines runner"
  using assms
proof (induction choices goroutine runner rule: interleaved.induct)
  case (2 choices g goroutine m runner)
  then show ?case by (auto simp: headlines_event split: if_splits)
next
  case (4 choices goroutine m runner)
  then show ?case by (cases m) (auto simp: headlines_event notable_def headlines_unopened)
qed auto

lemma serve_notable:
  "headlines (fst (serve_until_stopped h lvl l)) = Serving l # (if host_stop h = SignalReceived then [Stopping shutdown_timeout] else [])
    \<or> host_stop h = SignalReceived \<and> headlines (fst (serve_until_stopped h lvl l)) = [Stopping shutdown_timeout]"
  "snd (serve_until_stopped h lvl l) = (case host_stop h of ListenFailed \<Rightarrow> Some ListenError | ListenerClosed \<Rightarrow> None
     | SignalReceived \<Rightarrow> if shuts_down h then None else Some ShutdownError)"
proof -
  have "headlines (interleaved (goroutine_runs h) (logged lvl k @ [Serving l]) (logged lvl k' @ [Stopping n] @ fin))
      \<in> {[Stopping n], [Serving l, Stopping n]}" if "headlines fin = []" for k k' n fin
    using that interleaved_notable [of "logged lvl k @ [Serving l]" l "logged lvl k' @ [Stopping n] @ fin" n "goroutine_runs h"] by auto
  note ends = this [of _ "info ''listening'' [(''addr'', AString (lis_addr l))]" "info ''shutdown signal received'' [(''grace'', AInt shutdown_timeout)]"
      shutdown_timeout, simplified]
  note ends [of "[]", simplified] ends [of "logged lvl (info ''shutdown complete'' [])", simplified]
  then show "headlines (fst (serve_until_stopped h lvl l)) = Serving l # (if host_stop h = SignalReceived then [Stopping shutdown_timeout] else [])
    \<or> host_stop h = SignalReceived \<and> headlines (fst (serve_until_stopped h lvl l)) = [Stopping shutdown_timeout]"
    by (cases "host_stop h") (auto simp: serve_until_stopped_def Let_def)
qed (simp add: serve_until_stopped_def Let_def split: stop.split)

end
