(* ===== verification/Startup_Theorems.thy ===== *)
theory Startup_Theorems
  imports Startup Service_Theorems
begin

text \<open>
  The properties of start-up and of the health probe: a process serves only once everything it
  stands on is there, in that order, and what it cannot start it reports; the probe asks the
  port the process listens on.
\<close>

section \<open>Start-up\<close>

definition deployed :: "config \<Rightarrow> exchanger \<Rightarrow> token_issuer \<Rightarrow> listener" where
  "deployed cfg ex tokens = \<lparr>lis_addr = cfg_addr cfg,
     lis_server = \<lparr>srv_exchanger = ex, srv_tokens = tokens, srv_secure_cookies = cfg_secure_cookies cfg\<rparr>,
     lis_read_header_timeout = read_header_timeout, lis_read_timeout = read_timeout,
     lis_write_timeout = write_timeout, lis_idle_timeout = idle_timeout\<rparr>"

text \<open>The ways a run goes once the pool is open; a signal may come before the listener opens.\<close>

lemma run_with_pool_cases:
  obtains (failed) err where "snd (run_with_pool h cfg) = Some err"
      and "headlines (fst (run_with_pool h cfg)) = [] \<or> (\<exists>ms. headlines (fst (run_with_pool h cfg)) = [Migrated ms])"
  | (early) ex ms where "new_exchanger (host_oidc h) (cfg_providers cfg) = Inr ex" and "host_stop h = SignalReceived"
      and "headlines (fst (run_with_pool h cfg)) = [Migrated ms, Stopping shutdown_timeout]"
  | (served) ex tokens ms where "new_token_issuer (cfg_signing_key cfg) = Inr tokens"
      and "new_exchanger (host_oidc h) (cfg_providers cfg) = Inr ex" and "goose_up h = Some ms"
      and "snd (run_with_pool h cfg) = snd (serve_until_stopped h (cfg_log_level cfg) (deployed cfg ex tokens))"
      and "headlines (fst (run_with_pool h cfg)) = [Migrated ms, Serving (deployed cfg ex tokens)]
        @ (if host_stop h = SignalReceived then [Stopping shutdown_timeout] else [])"
proof -
  obtain ev r where m: "migrate h (cfg_log_level cfg) = (ev, r)" by (cases "migrate h (cfg_log_level cfg)")
  note mn = migrate_notable [of h "cfg_log_level cfg", unfolded m, simplified]
  have short: "headlines ev = [] \<or> (\<exists>ms. headlines ev = [Migrated ms])" using mn(1) by (auto split: option.splits)
  show thesis
  proof (cases r)
    case (Inl err)
    then show thesis using m short by (intro failed [of err]) (simp_all add: run_with_pool_def)
  next
    case r_ok: (Inr u)
    then obtain ms where ms: "goose_up h = Some ms" "headlines ev = [Migrated ms]" using mn by auto
    show thesis
    proof (cases "new_token_issuer (cfg_signing_key cfg)")
      case (Inl err)
      then show thesis using m r_ok short by (intro failed) (simp_all add: run_with_pool_def)
    next
      case tok: (Inr tokens)
      show thesis
      proof (cases "new_exchanger (host_oidc h) (cfg_providers cfg)")
        case (Inl err)
        then show thesis using m r_ok tok short by (intro failed) (simp_all add: run_with_pool_def)
      next
        case ex: (Inr ex)
        have run: "headlines (fst (run_with_pool h cfg)) = Migrated ms # headlines (fst (serve_until_stopped h (cfg_log_level cfg) (deployed cfg ex tokens)))"
          "snd (run_with_pool h cfg) = snd (serve_until_stopped h (cfg_log_level cfg) (deployed cfg ex tokens))"
          using m r_ok tok ex ms by (simp_all add: run_with_pool_def deployed_def [symmetric] split_beta Let_def)
        show thesis
          using serve_notable(1) [of h "cfg_log_level cfg" "deployed cfg ex tokens"] early [OF ex] served [OF tok ex ms(1) run(2)] run(1)
          by (auto split: if_splits)
      qed
    qed
  qed
qed

lemma run_cases:
  obtains (no_pool) err where "snd (run h cfg) = Some err"
      and "headlines (fst (run h cfg)) = [] \<or> headlines (fst (run h cfg)) = [PoolOpened (cfg_database_url cfg), PoolClosed]"
  | (pool) "snd (run h cfg) = snd (run_with_pool h cfg)"
      and "headlines (fst (run h cfg)) = PoolOpened (cfg_database_url cfg) # headlines (fst (run_with_pool h cfg)) @ [PoolClosed]"
  by (cases "dsn_parses h (cfg_database_url cfg)"; cases "pool_creates h (cfg_database_url cfg)"; cases "pool_pings h (cfg_database_url cfg)")
    (auto simp: run_def new_pool_def split_beta)

lemma Serving_notable: "Serving l \<in> set evs \<longleftrightarrow> Serving l \<in> set (headlines evs)"
  and Stopping_notable: "Stopping n \<in> set evs \<longleftrightarrow> Stopping n \<in> set (headlines evs)"
  by (simp_all add: headlines_def notable_def)

text \<open>
  C37. Serving comes last. A process opens its listener only with a complete configuration, a
  signing key of at least 32 bytes and providers that were discovered; with the pool open and
  the migrations applied before it; and it closes the pool when it is done, after the shutdown.
\<close>

theorem serves_only_when_ready:
  assumes "Serving l \<in> set (fst (main h))"
  shows "\<exists>cfg ex tokens ms. load_config (host_env h) = Inr cfg \<and> new_token_issuer (cfg_signing_key cfg) = Inr tokens
    \<and> 32 \<le> length (host_env h ''AUTH_SIGNING_KEY'') \<and> new_exchanger (host_oidc h) (cfg_providers cfg) = Inr ex
    \<and> l = deployed cfg ex tokens
    \<and> headlines (fst (main h)) = [PoolOpened (host_env h ''DATABASE_URL''), Migrated ms, Serving l]
        @ (if host_stop h = SignalReceived then [Stopping shutdown_timeout] else []) @ [PoolClosed]"
proof -
  have probe: "\<not> (length (host_args h) > 1 \<and> host_args h ! 1 = healthcheck_arg)"
    using assms by (auto simp: main_def)
  obtain cfg where cfg: "load_config (host_env h) = Inr cfg"
    using assms probe by (cases "load_config (host_env h)") (auto simp: main_def)
  have env: "cfg_database_url cfg = host_env h ''DATABASE_URL''" "cfg_signing_key cfg = bytes_of (host_env h ''AUTH_SIGNING_KEY'')"
    using cfg by (auto simp: load_config_def Let_def split: if_splits sum.splits)
  have evs: "headlines (fst (main h)) = headlines (fst (run h cfg))"
    using probe cfg by (auto simp: main_def split: prod.split option.split)
  have s: "Serving l \<in> set (headlines (fst (run h cfg)))" using assms evs Serving_notable by metis
  show ?thesis
  proof (cases rule: run_cases [of h cfg])
    case (no_pool err)
    then show ?thesis using s by auto
  next
    case pool
    then have s': "Serving l \<in> set (headlines (fst (run_with_pool h cfg)))" using s by simp
    show ?thesis
    proof (cases rule: run_with_pool_cases [of h cfg])
      case (failed err)
      then show ?thesis using s' by auto
    next
      case (early ex ms)
      then show ?thesis using s' by auto
    next
      case (served ex tokens ms)
      have "l = deployed cfg ex tokens" using s' served(5) by (auto split: if_splits)
      moreover have "32 \<le> length (host_env h ''AUTH_SIGNING_KEY'')"
        using served(1) env(2) by (auto simp: new_token_issuer_def min_signing_key_bytes_def split: if_splits)
      ultimately show ?thesis using cfg served evs pool(2) env(1) by (intro exI [of _ cfg] exI [of _ ex] exI [of _ tokens] exI [of _ ms]) simp
    qed
  qed
qed

text \<open>
  C38. A failed start is loud. A process that is not a probe, never serves and was not told to stop
  before it could exits with 1 and has an error as its last event, whatever the log level; and
  every pool it opened was closed.
\<close>

theorem failed_start_is_loud:
  assumes "length (host_args h) \<le> 1 \<or> host_args h ! 1 \<noteq> ''-healthcheck''" and "\<forall>l. Serving l \<notin> set (fst (main h))"
    and "\<forall>grace. Stopping grace \<notin> set (fst (main h))"
  shows "snd (main h) = 1 \<and> (\<exists>l. last (fst (main h)) = Logged l \<and> log_level l = LevelError)
    \<and> length (filter (\<lambda>ev. ev = PoolClosed) (fst (main h))) = length (filter (\<lambda>ev. \<exists>d. ev = PoolOpened d) (fst (main h)))"
proof -
  have probe: "\<not> (length (host_args h) > 1 \<and> host_args h ! 1 = healthcheck_arg)"
    using assms(1) by (auto simp: healthcheck_arg_def)
  have loud: "logged lvl (error_line m) = [Logged (error_line m)]" "log_level (error_line m) = LevelError" for lvl m
    using level_max by (simp_all add: logged_def log_enabled_def error_line_def)
  have pools: "filter (\<lambda>ev. ev = PoolClosed) evs = filter (\<lambda>ev. ev = PoolClosed) (headlines evs)"
    "filter (\<lambda>ev. \<exists>d. ev = PoolOpened d) evs = filter (\<lambda>ev. \<exists>d. ev = PoolOpened d) (headlines evs)" for evs
  proof -
    have "(notable ev \<and> ev = PoolClosed) = (ev = PoolClosed)" "(notable ev \<and> (\<exists>d. ev = PoolOpened d)) = (\<exists>d. ev = PoolOpened d)" for ev
      by (cases ev; simp add: notable_def)+
    then show "filter (\<lambda>ev. ev = PoolClosed) evs = filter (\<lambda>ev. ev = PoolClosed) (headlines evs)"
      "filter (\<lambda>ev. \<exists>d. ev = PoolOpened d) evs = filter (\<lambda>ev. \<exists>d. ev = PoolOpened d) (headlines evs)"
      by (simp_all add: headlines_def)
  qed
  show ?thesis
  proof (cases "load_config (host_env h)")
    case (Inl err)
    then show ?thesis using probe loud(2) by (auto simp: main_def)
  next
    case (Inr cfg)
    have evs: "headlines (fst (main h)) = headlines (fst (run h cfg))"
      using probe Inr by (auto simp: main_def split: prod.split option.split)
    have unserved: "Serving l \<notin> set (headlines (fst (run h cfg)))" for l using assms(2) evs Serving_notable by metis
    have untold: "Stopping n \<notin> set (headlines (fst (run h cfg)))" for n using assms(3) evs Stopping_notable by metis
    obtain err where err: "snd (run h cfg) = Some err"
      and fits: "\<exists>mid. headlines (fst (run h cfg)) = [] \<or> headlines (fst (run h cfg)) = [PoolOpened (cfg_database_url cfg)] @ mid @ [PoolClosed]
        \<and> (\<forall>ev \<in> set mid. \<exists>ms. ev = Migrated ms)"
    proof (cases rule: run_cases [of h cfg])
      case (no_pool err)
      then show thesis by (intro that [of err]) (auto intro!: exI [of _ "[]"])
    next
      case pool
      show thesis
      proof (cases rule: run_with_pool_cases [of h cfg])
        case (failed err)
        then show thesis using pool by (intro that [of err]) (auto intro!: exI [of _ "headlines (fst (run_with_pool h cfg))"])
      next
        case (early ex ms)
        then show thesis using untold pool by auto
      next
        case (served ex tokens ms)
        then show thesis using unserved pool by auto
      qed
    qed
    have "filter (\<lambda>ev. ev = PoolClosed) mid = []" "filter (\<lambda>ev. \<exists>d. ev = PoolOpened d) mid = []"
      if "\<forall>ev \<in> set mid. \<exists>ms. ev = Migrated ms" for mid using that by (auto simp: filter_empty_conv)
    then have "length (filter (\<lambda>ev. ev = PoolClosed) (headlines (fst (run h cfg))))
        = length (filter (\<lambda>ev. \<exists>d. ev = PoolOpened d) (headlines (fst (run h cfg))))" using fits by auto
    then have "length (filter (\<lambda>ev. ev = PoolClosed) (fst (main h))) = length (filter (\<lambda>ev. \<exists>d. ev = PoolOpened d) (fst (main h)))"
      by (simp only: pools [of "fst (main h)"] evs)
    moreover have "main h = (fst (run h cfg) @ [Logged (error_line ''server stopped'')], 1)"
      using probe Inr err loud(1) by (cases "run h cfg") (simp add: main_def)
    then have "snd (main h) = 1" "last (fst (main h)) = Logged (error_line ''server stopped'')" by simp_all
    ultimately show ?thesis using loud(2) by blast
  qed
qed

section \<open>Witnesses\<close>

definition sample_env :: "string \<Rightarrow> string" where
  "sample_env k = (if k = ''DATABASE_URL'' then ''db'' else if k = ''AUTH_SIGNING_KEY'' then replicate 32 (CHR ''k'')
     else if k = ''ADDR'' then ''0.0.0.0:9000'' else [])"

definition sample_host :: "bool \<Rightarrow> host" where
  "sample_host up = \<lparr>host_args = [''api''], host_env = sample_env, dsn_parses = (\<lambda>_. True), pool_creates = (\<lambda>_. True),
     pool_pings = (\<lambda>_. up), goose_prepares = True, goose_up = Some [], goose_version = Some 3, host_oidc = reference_oidc,
     host_stop = SignalReceived, shuts_down = True, goroutine_runs = [True, True], builds_url = (\<lambda>_. True), answers_probe = (\<lambda>_ _. None)\<rparr>"

lemma sample_host_simps [simp]:
  "host_args (sample_host up) = [''api'']" "host_env (sample_host up) = sample_env" "dsn_parses (sample_host up) = (\<lambda>_. True)"
  "pool_creates (sample_host up) = (\<lambda>_. True)" "pool_pings (sample_host up) = (\<lambda>_. up)" "goose_prepares (sample_host up)"
  "goose_up (sample_host up) = Some []" "goose_version (sample_host up) = Some 3" "host_oidc (sample_host up) = reference_oidc"
  "host_stop (sample_host up) = SignalReceived" "shuts_down (sample_host up)" "goroutine_runs (sample_host up) = [True, True]"
  by (simp_all add: sample_host_def)

lemma sample_config: "\<exists>cfg. load_config sample_env = Inr cfg \<and> length (cfg_signing_key cfg) = 32 \<and> cfg_providers cfg = []
    \<and> cfg_database_url cfg = ''db''"
  by (simp add: load_config_def sample_env_def oidc_providers_def)

lemma sample_serves: "\<exists>l. Serving l \<in> set (fst (main (sample_host True)))"
proof -
  obtain cfg where cfg: "load_config sample_env = Inr cfg" "length (cfg_signing_key cfg) = 32" "cfg_providers cfg = []" "cfg_database_url cfg = ''db''"
    using sample_config by blast
  show ?thesis
    by (simp add: main_def cfg run_def new_pool_def run_with_pool_def migrate_def new_token_issuer_def min_signing_key_bytes_def
        new_exchanger_def serve_until_stopped_def Let_def logged_def)
qed

theorem serves_only_when_ready_witness:
  "\<exists>ms l. headlines (fst (main (sample_host True))) = [PoolOpened ''db'', Migrated ms, Serving l, Stopping shutdown_timeout, PoolClosed]"
proof -
  obtain l where "Serving l \<in> set (fst (main (sample_host True)))" using sample_serves by blast
  from serves_only_when_ready [OF this] show ?thesis by (auto simp: sample_env_def)
qed

theorem failed_start_is_loud_witness: "snd (main (sample_host False)) = 1"
proof -
  obtain cfg where cfg: "load_config sample_env = Inr cfg" using sample_config by blast
  have "\<forall>l. Serving l \<notin> set (fst (main (sample_host False)))" "\<forall>n. Stopping n \<notin> set (fst (main (sample_host False)))"
    by (simp_all add: main_def cfg run_def new_pool_def logged_def)
  then show ?thesis using failed_start_is_loud [of "sample_host False"] by simp
qed

section \<open>The health probe\<close>

lemma env_addr: "env_or getenv ''ADDR'' default_addr = getenv ''ADDR''" if "getenv ''ADDR'' \<noteq> []"
  using that by (simp add: env_or_def)

lemma join_nonempty: "join_host_port host port \<noteq> []"
  by (simp add: join_host_port_def)

text \<open>
  C39. The probe asks the server. With the listen address written for a host (a name, an IPv4 or
  a bracketed IPv6 address, or empty) and a port, the probe of the same environment dials that
  port over loopback, and exits with 0 exactly when it is answered 200 in time, as the
  router answers GET /healthz whatever state the database is in.
\<close>

theorem probe_asks_the_server:
  assumes "getenv ''ADDR'' = join_host_port host port" and "port \<noteq> []"
    and "CHR ''['' \<notin> set host" and "CHR '']'' \<notin> set host"
    and "CHR '':'' \<notin> set port" and "CHR ''['' \<notin> set port" and "CHR '']'' \<notin> set port"
    and "builds (probe_url getenv)" and "chi_documented x"
  shows "probe_url getenv = ''http://127.0.0.1:'' @ port @ ''/healthz''
    \<and> (run_healthcheck getenv builds answer = 0 \<longleftrightarrow> answer healthcheck_timeout (probe_url getenv) = Some 200)
    \<and> resp_status (out_response (serve p x s e \<lparr>call_method = ''GET'', call_path = ''/healthz'', call_escaped = False, call_request = r\<rparr> d)) = Some 200"
proof -
  have "getenv ''ADDR'' \<noteq> []" using assms(1) by (simp add: join_nonempty)
  then have "healthcheck_port getenv = port"
    using split_join [OF assms(3-7)] assms(1,2) by (simp add: healthcheck_port_cases env_addr)
  then have url: "probe_url getenv = ''http://127.0.0.1:'' @ port @ ''/healthz''" by (simp add: probe_url_def join_host_port_def)
  have "resp_status (out_response (serve p x s e \<lparr>call_method = ''GET'', call_path = ''/healthz'', call_escaped = False, call_request = r\<rparr> d)) = Some 200"
    using serve_static(4) [OF assms(9), of "\<lparr>call_method = ''GET'', call_path = ''/healthz'', call_escaped = False, call_request = r\<rparr>" p s e d]
    by (simp add: get_health_def)
  then show ?thesis
    using url assms(8) by (auto simp: run_healthcheck_def Let_def split: option.splits)
qed

theorem probe_asks_the_server_witness:
  "probe_url sample_env = ''http://127.0.0.1:9000/healthz'' \<and> run_healthcheck sample_env (\<lambda>_. True) (\<lambda>_ _. Some 200) = 0"
  using probe_asks_the_server [of sample_env "''0.0.0.0''" "''9000''" "\<lambda>_. True" reference_chi "\<lambda>_ _. Some 200"] reference_chi_documented
  by (simp add: sample_env_def join_host_port_def)

end
