(* ===== verification/Oidctest.thy ===== *)
theory Oidctest
  imports Reference Json
begin

text \<open>
  internal/auth/oidctest/issuer.go: the fake provider the tests sign in with. Its state is the
  table of authorisation codes handed out; the mutex makes each access to it one step. RSA and
  the signing of golang-jwt are the parameter \<open>sl\<close>; SHA-256 and base64 of the PKCE challenge
  are modelled in full. A step that ends a test with Fatalf answers None.
\<close>

section \<open>The provider\<close>

record rsa_key =
  key_private :: "u8 list"
  key_modulus :: "u8 list"
  key_exponent :: nat

record signing_lib =
  sign_rs256 :: "string \<Rightarrow> u8 list \<Rightarrow> map_claims \<Rightarrow> string option"  \<comment> \<open>kid, key, claims\<close>
  sign_none :: "map_claims \<Rightarrow> string option"

definition key_id :: string where
  "key_id = ''oidctest-key-1''"

record token_claims =
  tok_issuer :: string
  tok_audience :: string
  tok_subject :: string
  tok_email :: string
  tok_email_verified :: bool
  tok_name :: string
  tok_picture :: string
  tok_nonce :: string
  tok_issued_at :: nanos
  tok_expiry :: nanos

record pending_code =
  pending_token :: token_claims
  pending_challenge :: string

record test_issuer =
  iss_url :: string
  iss_key :: rsa_key
  iss_foreign :: rsa_key
  iss_codes :: "string \<rightharpoonup> pending_code"

definition new_issuer :: "string \<Rightarrow> rsa_key option \<Rightarrow> rsa_key option \<Rightarrow> test_issuer option" where
  "new_issuer url key foreign =
    (case key of
       None \<Rightarrow> None
     | Some k \<Rightarrow>
        (case foreign of
           None \<Rightarrow> None
         | Some f \<Rightarrow> Some \<lparr>iss_url = url, iss_key = k, iss_foreign = f, iss_codes = Map.empty\<rparr>))"

section \<open>Discovery and keys\<close>

definition discovery_document :: "test_issuer \<Rightarrow> json" where
  "discovery_document i = JObject [
     (''issuer'', JString (iss_url i)),
     (''authorization_endpoint'', JString (iss_url i @ ''/authorize'')),
     (''token_endpoint'', JString (iss_url i @ ''/token'')),
     (''jwks_uri'', JString (iss_url i @ ''/jwks.json'')),
     (''response_types_supported'', JArray [JString ''code'']),
     (''subject_types_supported'', JArray [JString ''public'']),
     (''id_token_signing_alg_values_supported'', JArray [JString ''RS256'']),
     (''scopes_supported'', JArray [JString ''openid'', JString ''email'', JString ''profile''])]"

text \<open>big.Int's Bytes: big-endian, without leading zeros.\<close>

fun big_endian :: "nat \<Rightarrow> u8 list" where
  "big_endian n = (if n = 0 then [] else big_endian (n div 256) @ [of_nat (n mod 256)])"

declare big_endian.simps [simp del]

definition key_set :: "test_issuer \<Rightarrow> json" where
  "key_set i = JObject [(''keys'', JArray [JObject [
     (''kty'', JString ''RSA''), (''use'', JString ''sig''), (''alg'', JString ''RS256''), (''kid'', JString key_id),
     (''n'', JString (b64_encode (key_modulus (iss_key i)))),
     (''e'', JString (b64_encode (big_endian (key_exponent (iss_key i)))))]])]"

section \<open>Tokens\<close>

definition valid_token :: "test_issuer \<Rightarrow> nanos \<Rightarrow> string \<Rightarrow> token_claims" where
  "valid_token i now audience = \<lparr>tok_issuer = iss_url i, tok_audience = audience,
     tok_subject = ''oidctest-subject-1'', tok_email = ''kari.nordmann@example.no'', tok_email_verified = True,
     tok_name = ''Kari Nordmann'', tok_picture = ''https://example.invalid/avatar.png'', tok_nonce = ''test-nonce'',
     tok_issued_at = now, tok_expiry = now + hour\<rparr>"

text \<open>time.Unix is the whole second the moment lies in.\<close>

definition claims_of :: "token_claims \<Rightarrow> map_claims" where
  "claims_of t =
    [(''iss'', CString (tok_issuer t)), (''aud'', CString (tok_audience t)), (''sub'', CString (tok_subject t)),
     (''email'', CString (tok_email t)), (''email_verified'', CBool (tok_email_verified t)),
     (''iat'', CNumber (tok_issued_at t div second)), (''exp'', CNumber (tok_expiry t div second))]
    @ (if tok_name t \<noteq> [] then [(''name'', CString (tok_name t))] else [])
    @ (if tok_picture t \<noteq> [] then [(''picture'', CString (tok_picture t))] else [])
    @ (if tok_nonce t \<noteq> [] then [(''nonce'', CString (tok_nonce t))] else [])"

definition sign_token :: "signing_lib \<Rightarrow> token_claims \<Rightarrow> rsa_key \<Rightarrow> string option" where
  "sign_token sl t k = sign_rs256 sl key_id (key_private k) (claims_of t)"

definition sign :: "signing_lib \<Rightarrow> test_issuer \<Rightarrow> token_claims \<Rightarrow> string option" where
  "sign sl i t = sign_token sl t (iss_key i)"

definition sign_with_foreign_key :: "signing_lib \<Rightarrow> test_issuer \<Rightarrow> token_claims \<Rightarrow> string option" where
  "sign_with_foreign_key sl i t = sign_token sl t (iss_foreign i)"

definition sign_unsecured :: "signing_lib \<Rightarrow> token_claims \<Rightarrow> string option" where
  "sign_unsecured sl t = sign_none sl (claims_of t)"

section \<open>Authorisation codes\<close>

definition pkce_challenge :: "string \<Rightarrow> string" where
  "pkce_challenge verifier = b64_encode (sha256_sum (bytes_of verifier))"

definition issue_code :: "test_issuer \<Rightarrow> token_claims \<Rightarrow> string \<Rightarrow> random_source \<Rightarrow> string option \<times> test_issuer" where
  "issue_code i t verifier random =
    (case rand_read 16 random of
       None \<Rightarrow> (None, i)
     | Some raw \<Rightarrow>
        (let code = ''code-'' @ b64_encode raw in
         (Some code, i\<lparr>iss_codes := (iss_codes i)(code \<mapsto> \<lparr>pending_token = t, pending_challenge = pkce_challenge verifier\<rparr>)\<rparr>)))"

datatype token_answer =
    TokenError int string
  | TokenGranted string  \<comment> \<open>200 with the members \<open>token_members\<close>\<close>

definition token_members :: "string \<Rightarrow> (string \<times> json) list" where
  "token_members jws = [(''access_token'', JString ''fake-provider-access-token''), (''token_type'', JString ''Bearer''),
     (''expires_in'', JNumber ''3600''), (''id_token'', JString jws)]"

record token_form =
  form_parses :: bool
  form_value :: "string \<Rightarrow> string"

definition handle_token :: "signing_lib \<Rightarrow> token_form \<Rightarrow> test_issuer \<Rightarrow> token_answer \<times> test_issuer" where
  "handle_token sl r i =
    (if \<not> form_parses r then (TokenError 400 ''invalid_request'', i)
     else if form_value r ''grant_type'' \<noteq> ''authorization_code'' then (TokenError 400 ''unsupported_grant_type'', i)
     else (let pending = iss_codes i (form_value r ''code'');
               i' = i\<lparr>iss_codes := (iss_codes i)(form_value r ''code'' := None)\<rparr>
       in case pending of
            None \<Rightarrow> (TokenError 400 ''invalid_grant'', i')
          | Some p \<Rightarrow>
              if pkce_challenge (form_value r ''code_verifier'') \<noteq> pending_challenge p then (TokenError 400 ''invalid_grant'', i')
              else (case sign_token sl (pending_token p) (iss_key i) of
                 None \<Rightarrow> (TokenError 500 ''server_error'', i')
               | Some jws \<Rightarrow> (TokenGranted jws, i'))))"

section \<open>The provider as a transition system\<close>

datatype issuer_op = OpIssueCode token_claims string random_source | OpToken token_form

fun issuer_step :: "signing_lib \<Rightarrow> issuer_op \<Rightarrow> test_issuer \<Rightarrow> test_issuer" where
  "issuer_step sl (OpIssueCode t v random) i = snd (issue_code i t v random)"
| "issuer_step sl (OpToken r) i = snd (handle_token sl r i)"

text \<open>No code drawn repeats \<open>k\<close>.\<close>

fun draws_other :: "string \<Rightarrow> issuer_op \<Rightarrow> test_issuer \<Rightarrow> bool" where
  "draws_other k (OpIssueCode t v random) i = (fst (issue_code i t v random) \<noteq> Some k)"
| "draws_other k (OpToken r) i = True"

text \<open>A code that is not pending stays so; the signing key stays what it is.\<close>

interpretation codes: stable_predicate "issuer_step sl" "draws_other k" "\<lambda>i::test_issuer. iss_key i = key" "\<lambda>i. iss_codes i k = None" for sl k key
proof
  fix i :: test_issuer and a assume "iss_key i = key"
  then show "iss_key (issuer_step sl a i) = key"
    by (cases a) (auto simp: issue_code_def handle_token_def Let_def split: option.splits)
next
  fix i :: test_issuer and a assume "iss_codes i k = None" "draws_other k a i"
  then show "iss_codes (issuer_step sl a i) k = None"
    by (cases a) (auto simp: issue_code_def handle_token_def Let_def split: option.splits)
qed

text \<open>What a grant says of the table.\<close>

lemma granted_code:
  assumes "handle_token sl r i = (TokenGranted jws, i')"
  obtains p where "iss_codes i (form_value r ''code'') = Some p" and "pkce_challenge (form_value r ''code_verifier'') = pending_challenge p"
    and "sign_token sl (pending_token p) (iss_key i) = Some jws"
  using assms by (auto simp: handle_token_def Let_def split: if_splits option.splits)

lemma tried_code_gone:
  assumes "handle_token sl r i = (ans, i')" and "form_parses r" and "form_value r ''grant_type'' = ''authorization_code''"
  shows "iss_codes i' (form_value r ''code'') = None"
  using assms by (auto simp: handle_token_def Let_def split: if_splits option.splits)

text \<open>What the published exponent decodes to is the exponent.\<close>

lemma big_endian_value: "foldl (\<lambda>acc b. acc * 256 + unat b) 0 (big_endian n) = n"
proof (induction n rule: big_endian.induct)
  case (1 n)
  then show ?case
    by (cases "n = 0") (subst big_endian.simps, simp add: unat_of_nat)+
qed

text \<open>A provider for the witnesses.\<close>

definition sample_signing :: signing_lib where
  "sample_signing = \<lparr>sign_rs256 = (\<lambda>kid key cs. Some ''jws''), sign_none = (\<lambda>cs. Some ''none'')\<rparr>"

definition test_provider :: test_issuer where
  "test_provider = \<lparr>iss_url = ''https://issuer'', iss_key = \<lparr>key_private = [1], key_modulus = [15], key_exponent = 65537\<rparr>,
     iss_foreign = \<lparr>key_private = [2], key_modulus = [21], key_exponent = 65537\<rparr>, iss_codes = Map.empty\<rparr>"

definition kari_token :: token_claims where
  "kari_token = valid_token test_provider 0 ''client''"

definition sample_code :: string where
  "sample_code = ''code-'' @ b64_encode (replicate 16 0)"

definition sample_issued :: test_issuer where
  "sample_issued = snd (issue_code test_provider kari_token ''verifier'' (Some (\<lambda>_. 0)))"

definition sample_form :: token_form where
  "sample_form = \<lparr>form_parses = True, form_value = (\<lambda>name.
     if name = ''grant_type'' then ''authorization_code'' else if name = ''code'' then sample_code else ''verifier'')\<rparr>"

lemma sample_issue: "issue_code test_provider kari_token ''verifier'' (Some (\<lambda>_. 0)) = (Some sample_code, sample_issued)"
  by (simp add: sample_issued_def sample_code_def issue_code_def rand_read_def Let_def map_replicate_const)

lemma sample_form_fields:
  "form_parses sample_form" "form_value sample_form ''grant_type'' = ''authorization_code''"
  "form_value sample_form ''code'' = sample_code" "form_value sample_form ''code_verifier'' = ''verifier''"
  by (simp_all add: sample_form_def)

section \<open>The properties\<close>

text \<open>
  Codes are single-use. Once a well-formed token request has named a code, with whatever
  PKCE verifier and whatever the answer, no later request is granted a token for that code,
  over any run in which the code is not drawn again.
\<close>

theorem codes_are_single_use:
  assumes "handle_token sl r i = (ans, i')" and "form_parses r" and "form_value r ''grant_type'' = ''authorization_code''"
    and "form_value r' ''code'' = form_value r ''code''"
    and "guarded_run (draws_other (form_value r ''code'')) (issuer_step sl) as i'"
  shows "fst (handle_token sl r' (run_steps (issuer_step sl) as i')) \<noteq> TokenGranted jws"
proof -
  have "iss_codes (run_steps (issuer_step sl) as i') (form_value r ''code'') = None"
    by (rule codes.stable_run [OF refl tried_code_gone [OF assms(1-3)] assms(5)])
  then show ?thesis using assms(4) granted_code by (metis option.distinct(1) prod.collapse)
qed

text \<open>
  PKCE. A code just issued is exchanged, by a well-formed request, exactly with a verifier
  whose S256 challenge is that of the verifier it was issued for; the token granted is the one
  registered with the code, jws with the published key.
\<close>

theorem code_needs_its_verifier:
  assumes "issue_code i t verifier random = (Some code, i1)"
    and "form_parses r" and "form_value r ''grant_type'' = ''authorization_code''" and "form_value r ''code'' = code"
  shows "fst (handle_token sl r i1) = TokenGranted jws \<longleftrightarrow>
    sha256_sum (bytes_of (form_value r ''code_verifier'')) = sha256_sum (bytes_of verifier) \<and> sign sl i t = Some jws"
proof -
  have i1: "iss_codes i1 code = Some \<lparr>pending_token = t, pending_challenge = pkce_challenge verifier\<rparr>" "iss_key i1 = iss_key i"
    using assms(1) by (auto simp: issue_code_def Let_def split: option.splits)
  have inj: "pkce_challenge a = pkce_challenge b \<longleftrightarrow> sha256_sum (bytes_of a) = sha256_sum (bytes_of b)" for a b
    unfolding pkce_challenge_def by (rule b64.encode_eq_iff)
  show ?thesis
    using i1 assms(2-4) by (auto simp: handle_token_def Let_def sign_def inj split: option.splits)
qed

end
