(* ===== verification/Json_Write.thy ===== *)
theory Json_Write
  imports Json
begin

text \<open>
  What the source uses of encoding/json's encoder: writing values, with the escapes it makes
  by default (the three characters HTML gives a meaning and the two line separators among
  them). The reader of Json reads back what is written: \<open>json_value_write\<close>.
\<close>

section \<open>String literals\<close>

definition lower_hex :: "nat \<Rightarrow> char" where
  "lower_hex n = (if n < 10 then char_of (48 + n) else char_of (87 + n))"

definition html_safe :: "char \<Rightarrow> bool" where
  "html_safe c \<longleftrightarrow> 0x20 \<le> byte c \<and> byte c < 0x80 \<and> c \<notin> {CHR 0x22, CHR 0x5C, CHR ''<'', CHR ''>'', CHR ''&''}"

definition ascii_escape :: "char \<Rightarrow> string" where
  "ascii_escape c =
    (if html_safe c then [c]
     else if c = CHR 0x22 \<or> c = CHR 0x5C then [CHR 0x5C, c]
     else (case map_of [(8, CHR ''b''), (12, CHR ''f''), (10, CHR ''n''), (13, CHR ''r''), (9, CHR ''t'')] (byte c) of
        Some d \<Rightarrow> [CHR 0x5C, d]
      | None \<Rightarrow> [CHR 0x5C, CHR ''u'', CHR ''0'', CHR ''0'', lower_hex (byte c div 16), lower_hex (byte c mod 16)]))"

text \<open>What is written for the character a string starts with, and the bytes it has.\<close>

definition line_separator :: string where
  "line_separator = utf8_encode 0x2028"

definition paragraph_separator :: string where
  "paragraph_separator = utf8_encode 0x2029"

definition quote_step :: "string \<Rightarrow> string \<times> nat" where
  "quote_step s =
    (if byte (hd s) < 0x80 then (ascii_escape (hd s), 1)
     else if utf8_size s = 0 then ([CHR 0x5C, CHR ''u'', CHR ''f'', CHR ''f'', CHR ''f'', CHR ''d''], 1)
     else if take 3 s = line_separator then ([CHR 0x5C, CHR ''u'', CHR ''2'', CHR ''0'', CHR ''2'', CHR ''8''], 3)
     else if take 3 s = paragraph_separator then ([CHR 0x5C, CHR ''u'', CHR ''2'', CHR ''0'', CHR ''2'', CHR ''9''], 3)
     else (take (utf8_size s) s, utf8_size s))"

lemma quote_step_pos: "0 < snd (quote_step s)"
  by (simp add: quote_step_def)

function quote_body :: "string \<Rightarrow> string" where
  "quote_body s =
    (if s = [] then []
     else (case quote_step s of (out, n) \<Rightarrow> out @ quote_body (drop n s)))"
  by pat_completeness auto
termination
proof (relation "measure length")
  fix s x y assume "s \<noteq> []" "(x, y) = quote_step s"
  then show "(drop y s, s) \<in> measure length" using quote_step_pos [of s] by (cases "quote_step s") auto
qed simp

declare quote_body.simps [simp del]

definition json_quote :: "string \<Rightarrow> string" where
  "json_quote s = CHR 0x22 # quote_body s @ [CHR 0x22]"

text \<open>A string without invalid bytes.\<close>

function utf8_valid :: "string \<Rightarrow> bool" where
  "utf8_valid s = (if s = [] then True else if utf8_size s = 0 then False else utf8_valid (drop (utf8_size s) s))"
  by pat_completeness auto
termination by (relation "measure length") auto

declare utf8_valid.simps [simp del]

section \<open>Values\<close>

definition comma_separated :: "string list \<Rightarrow> string" where
  "comma_separated xs = (case xs of [] \<Rightarrow> [] | y # ys \<Rightarrow> y @ concat (map (\<lambda>z. CHR '','' # z) ys))"

primrec json_write :: "json \<Rightarrow> string" where
  "json_write JNull = ''null''"
| "json_write (JBool b) = (if b then ''true'' else ''false'')"
| "json_write (JNumber t) = t"
| "json_write (JString s) = json_quote s"
| "json_write (JArray vs) = CHR ''['' # comma_separated (map json_write vs) @ '']''"
| "json_write (JObject ms) = CHR ''{'' # comma_separated (map (\<lambda>(k, w). json_quote k @ CHR '':'' # w) (map (map_prod id json_write) ms)) @ ''}''"

text \<open>Values whose strings are valid UTF-8 and whose numbers are whole.\<close>

primrec json_plain :: "json \<Rightarrow> bool" where
  "json_plain JNull = True"
| "json_plain (JBool b) = True"
| "json_plain (JNumber t) = (\<exists>k. t = decimal k)"
| "json_plain (JString s) = utf8_valid s"
| "json_plain (JArray vs) = list_all id (map json_plain vs)"
| "json_plain (JObject ms) = list_all (\<lambda>(k, ok). utf8_valid k \<and> ok) (map (map_prod id json_plain) ms)"

section \<open>Reading literals back\<close>

lemma literal_step_plain:
  "0x20 \<le> byte c \<Longrightarrow> byte c < 0x80 \<Longrightarrow> c \<noteq> CHR 0x5C \<Longrightarrow> literal_step (c # X) = Some ([c], 1)"
  by (simp add: literal_step_def utf8_size_def)

lemma byte_less: "byte c < 256"
  by (simp add: byte_def)

lemma char_of_byte [simp]: "char_of (byte c) = c"
  by (simp add: byte_def)

lemma byte_inject: "byte c = byte d \<longleftrightarrow> c = d"
  by (metis char_of_byte)

lemma hex_value_lower: "n < 16 \<Longrightarrow> hex_value (lower_hex n) = Some n"
  by (auto simp: hex_value_def lower_hex_def byte_def Let_def of_char_of)

lemma literal_step_control:
  assumes "byte c < 0x80"
  shows "literal_step ([CHR 0x5C, CHR ''u'', CHR ''0'', CHR ''0'', lower_hex (byte c div 16), lower_hex (byte c mod 16)] @ X) = Some ([c], 6)"
proof -
  have d: "byte c div 16 < 16" "byte c mod 16 < 16" using assms by auto
  have "hex_value (CHR ''0'') = Some 0" by (simp add: hex_value_def byte_def)
  then have "hex4 (CHR ''0'' # CHR ''0'' # lower_hex (byte c div 16) # lower_hex (byte c mod 16) # X) = Some (byte c)"
    using hex_value_lower [OF d(1)] hex_value_lower [OF d(2)] by (simp add: hex4_def)
  moreover have "\<not> is_surrogate (byte c)" using assms by (simp add: is_surrogate_def)
  ultimately show ?thesis using assms by (simp add: literal_step_def utf8_encode_def byte_def)
qed

lemma char_numerals:
  "char_of (34::nat) = CHR 0x22" "char_of (92::nat) = CHR 0x5C" "char_of (8::nat) = CHR 0x08" "char_of (12::nat) = CHR 0x0C"
  "char_of (10::nat) = CHR 0x0A" "char_of (13::nat) = CHR 0x0D" "char_of (9::nat) = CHR 0x09" "char_of (48::nat) = CHR ''0''"
  by code_simp+

lemma literal_step_ascii:
  assumes "byte c < 0x80"
  shows "literal_step (ascii_escape c @ X) = Some ([c], length (ascii_escape c))" and "hd (ascii_escape c) \<noteq> CHR 0x22" and "ascii_escape c \<noteq> []"
proof -
  consider "html_safe c" | "\<not> html_safe c" "c = CHR 0x22 \<or> c = CHR 0x5C"
    | "\<not> html_safe c" "c \<noteq> CHR 0x22" "c \<noteq> CHR 0x5C" "byte c \<in> {8, 12, 10, 13, 9}"
    | "\<not> html_safe c" "c \<noteq> CHR 0x22" "c \<noteq> CHR 0x5C" "byte c \<notin> {8, 12, 10, 13, 9}" by blast
  then have "literal_step (ascii_escape c @ X) = Some ([c], length (ascii_escape c)) \<and> hd (ascii_escape c) \<noteq> CHR 0x22 \<and> ascii_escape c \<noteq> []"
  proof cases
    case 1
    then show ?thesis by (auto simp: ascii_escape_def html_safe_def literal_step_plain)
  next
    case 2
    then have "c = CHR 0x22 \<or> c = CHR 0x5C" by simp
    then show ?thesis by (elim disjE) (simp_all add: char_numerals ascii_escape_def html_safe_def literal_step_def simple_escape_def byte_def)
  next
    case 3
    have "byte (CHR 0x08) = 8" "byte (CHR 0x0C) = 12" "byte (CHR 0x0A) = 10" "byte (CHR 0x0D) = 13" "byte (CHR 0x09) = 9"
      by (simp_all add: byte_def)
    then have "c = CHR 0x08 \<or> c = CHR 0x0C \<or> c = CHR 0x0A \<or> c = CHR 0x0D \<or> c = CHR 0x09"
      using 3(4) by (metis byte_inject empty_iff insert_iff)
    then show ?thesis
      by (elim disjE) (simp_all add: char_numerals ascii_escape_def html_safe_def literal_step_def simple_escape_def byte_def)
  next
    case 4
    then have "ascii_escape c = [CHR 0x5C, CHR ''u'', CHR ''0'', CHR ''0'', lower_hex (byte c div 16), lower_hex (byte c mod 16)]"
      by (simp add: ascii_escape_def)
    then show ?thesis using literal_step_control [OF assms, of X] by simp
  qed
  then show "literal_step (ascii_escape c @ X) = Some ([c], length (ascii_escape c))" "hd (ascii_escape c) \<noteq> CHR 0x22" "ascii_escape c \<noteq> []"
    by simp_all
qed

text \<open>Only the bytes of a sequence decide its length.\<close>

lemma utf8_size_le: "utf8_size s \<le> length s"
  by (auto simp: utf8_size_def split: list.splits)

lemma utf8_size_take:
  assumes "utf8_size s \<noteq> 0"
  shows "utf8_size (take (utf8_size s) s @ X) = utf8_size s"
proof -
  obtain a r where s: "s = a # r" using assms by (cases s) (auto simp: utf8_size_def)
  consider "byte a < 0x80" | "0xC2 \<le> byte a" "byte a \<le> 0xDF" | "0xE0 \<le> byte a" "byte a \<le> 0xEF" | "0xF0 \<le> byte a" "byte a \<le> 0xF4"
    using assms s by (auto simp: utf8_size_def split: if_splits)
  then show ?thesis
  proof cases
    case 1
    then show ?thesis by (simp add: s utf8_size_def)
  next
    case 2
    then obtain b r' where r: "r = b # r'" "is_cont b"
      using assms by (cases r) (auto simp: s utf8_size_def split: if_splits)
    then show ?thesis using 2 by (simp add: s utf8_size_def)
  next
    case 3
    then have "(case r of b # c # _ \<Rightarrow> if is_cont b \<and> is_cont c \<and> (byte a = 0xE0 \<longrightarrow> 0xA0 \<le> byte b) \<and> (byte a = 0xED \<longrightarrow> byte b \<le> 0x9F) then 3 else 0 | _ \<Rightarrow> 0) \<noteq> (0::nat)"
      using assms by (simp add: s utf8_size_def)
    then obtain b c r' where r: "r = b # c # r'" "is_cont b" "is_cont c" "byte a = 0xE0 \<longrightarrow> 0xA0 \<le> byte b" "byte a = 0xED \<longrightarrow> byte b \<le> 0x9F"
      by (auto split: list.splits if_splits)
    then have "utf8_size (a # b # c # Y) = 3" for Y using 3 by (simp add: utf8_size_def)
    then show ?thesis by (simp add: s r(1))
  next
    case 4
    then have "(case r of b # c # d # _ \<Rightarrow> if is_cont b \<and> is_cont c \<and> is_cont d \<and> (byte a = 0xF0 \<longrightarrow> 0x90 \<le> byte b) \<and> (byte a = 0xF4 \<longrightarrow> byte b \<le> 0x8F) then 4 else 0 | _ \<Rightarrow> 0) \<noteq> (0::nat)"
      using assms by (simp add: s utf8_size_def)
    then obtain b c d r' where r: "r = b # c # d # r'" "is_cont b" "is_cont c" "is_cont d" "byte a = 0xF0 \<longrightarrow> 0x90 \<le> byte b" "byte a = 0xF4 \<longrightarrow> byte b \<le> 0x8F"
      by (auto split: list.splits if_splits)
    then have "utf8_size (a # b # c # d # Y) = 4" for Y using 4 by (simp add: utf8_size_def)
    then show ?thesis by (simp add: s r(1))
  qed
qed

lemma utf8_size_same: "utf8_size s \<noteq> 0 \<Longrightarrow> take (utf8_size s) s = take (utf8_size s) t \<Longrightarrow> utf8_size t = utf8_size s"
  using utf8_size_take [of s "drop (utf8_size s) t"] by (metis append_take_drop_id)

lemma literal_step_multi:
  assumes "0x80 \<le> byte (hd s)" and "s \<noteq> []" and "utf8_size s \<noteq> 0"
  shows "literal_step (take (utf8_size s) s @ X) = Some (take (utf8_size s) s, utf8_size s)"
proof -
  let ?t = "take (utf8_size s) s"
  obtain c cs where t: "?t = c # cs" and c: "c = hd s" using assms(2,3) by (cases s; cases "utf8_size s") auto
  have "c \<noteq> CHR 0x5C" "\<not> byte c < 0x20" using assms(1) c by (auto simp: byte_def)
  moreover have "utf8_size (c # cs @ X) = utf8_size s" using utf8_size_take [OF assms(3), of X] t by simp
  moreover have "take (utf8_size s) (c # cs @ X) = ?t" using t utf8_size_le [of s] by (metis append_Cons append_take_drop_id length_take min.absorb2 append_eq_conv_conj)
  ultimately show ?thesis using assms(3) unfolding t by (simp add: literal_step_def)
qed

text \<open>The two separators, whole.\<close>

lemma separator_bytes:
  "line_separator = [char_of (0xE2::nat), char_of (0x80::nat), char_of (0xA8::nat)]"
  "paragraph_separator = [char_of (0xE2::nat), char_of (0x80::nat), char_of (0xA9::nat)]"
  by (simp_all add: line_separator_def paragraph_separator_def utf8_encode_def)

lemma byte_char_of [simp]: "n < 256 \<Longrightarrow> byte (char_of n) = n"
  by (simp add: byte_def of_char_of)

lemma separator_size:
  assumes "take 3 s = line_separator \<or> take 3 s = paragraph_separator"
  shows "utf8_size s = 3"
proof -
  have "utf8_size line_separator = 3" "utf8_size paragraph_separator = 3"
    by (simp_all add: separator_bytes utf8_size_def is_cont_def)
  then show ?thesis
    using assms utf8_size_same [of line_separator s] utf8_size_same [of paragraph_separator s]
    by (auto simp: separator_bytes)
qed

lemma literal_step_separator:
  "literal_step ([CHR 0x5C, CHR ''u'', CHR ''2'', CHR ''0'', CHR ''2'', CHR ''8''] @ X) = Some (line_separator, 6)"
  "literal_step ([CHR 0x5C, CHR ''u'', CHR ''2'', CHR ''0'', CHR ''2'', CHR ''9''] @ X) = Some (paragraph_separator, 6)"
  by (simp_all add: literal_step_def hex4_def hex_value_def byte_def is_surrogate_def line_separator_def paragraph_separator_def)

lemma literal_step_quote:
  assumes "quote_step s = (out, n)" and "s \<noteq> []" and "utf8_size s \<noteq> 0"
  shows "literal_step (out @ X) = Some (take (utf8_size s) s, length out) \<and> n = utf8_size s \<and> out \<noteq> [] \<and> hd out \<noteq> CHR 0x22"
proof (cases "byte (hd s) < 0x80")
  case True
  then have "utf8_size s = 1" "take 1 s = [hd s]" using assms(2) by (cases s; simp add: utf8_size_def)+
  then show ?thesis using assms(1) True literal_step_ascii(1) [OF True, of X] literal_step_ascii(2,3) [OF True] by (auto simp: quote_step_def)
next
  case False
  consider "take 3 s = line_separator" | "take 3 s = paragraph_separator" "take 3 s \<noteq> line_separator"
    | "take 3 s \<noteq> line_separator" "take 3 s \<noteq> paragraph_separator" by blast
  then show ?thesis
  proof cases
    case 1
    then show ?thesis using assms False separator_size [of s] literal_step_separator(1) [of X] by (auto simp: quote_step_def)
  next
    case 2
    then show ?thesis using assms False separator_size [of s] literal_step_separator(2) [of X] by (auto simp: quote_step_def)
  next
    case 3
    then have out: "out = take (utf8_size s) s" "n = utf8_size s" using assms(1,3) False by (auto simp: quote_step_def)
    moreover have "hd out = hd s" "out \<noteq> []" using assms(2,3) out(1) by (cases s; cases "utf8_size s"; simp)+
    moreover have "hd s \<noteq> CHR 0x22" using False by (auto simp: byte_def)
    moreover have "literal_step (out @ X) = Some (out, n)" unfolding out by (rule literal_step_multi) (use False assms(2,3) in simp_all)
    moreover have "length out = n" using out utf8_size_le [of s] by simp
    ultimately show ?thesis using out by metis
  qed
qed

lemma json_string_quote: "utf8_valid s \<Longrightarrow> json_string (quote_body s @ CHR 0x22 # rest) = Some (s, rest)"
proof (induction s rule: quote_body.induct)
  case (1 s)
  show ?case
  proof (cases "s = []")
    case True
    then show ?thesis by (simp add: quote_body.simps json_string.simps)
  next
    case False
    obtain out n where q: "quote_step s = (out, n)" by (cases "quote_step s")
    have size: "utf8_size s \<noteq> 0" and tail: "utf8_valid (drop (utf8_size s) s)"
      using "1.prems" False by (simp_all add: utf8_valid.simps [of s] split: if_splits)
    have step: "literal_step (out @ X) = Some (take (utf8_size s) s, length out)" "n = utf8_size s" "out \<noteq> []" "hd out \<noteq> CHR 0x22" for X
      using literal_step_quote [OF q False size, of X] by simp_all
    have "json_string (quote_body (drop n s) @ CHR 0x22 # rest) = Some (drop n s, rest)"
      using "1.IH" [OF False q [symmetric]] tail step(2) by simp
    moreover have "quote_body s = out @ quote_body (drop n s)" using False q by (simp add: quote_body.simps [of s])
    ultimately show ?thesis
      using step by (subst json_string.simps) simp
  qed
qed

section \<open>Reading numbers back\<close>

text \<open>Where a number ends.\<close>

definition number_ends :: "string \<Rightarrow> bool" where
  "number_ends rest \<longleftrightarrow> (case rest of [] \<Rightarrow> True | c # _ \<Rightarrow> \<not> is_digit c \<and> c \<notin> {CHR ''.'', CHR ''e'', CHR ''E''})"

lemma digit_char: "n < 10 \<Longrightarrow> is_digit (char_of (48 + n :: nat))"
  by (simp add: is_digit_def)

lemma decimal_nat_digits: "decimal_nat n \<noteq> [] \<and> (\<forall>c \<in> set (decimal_nat n). is_digit c)"
proof (induction n rule: decimal_nat.induct)
  case (1 n)
  then show ?case by (subst (1 2) decimal_nat.simps) (auto simp: digit_char)
qed

lemma decimal_nat_hd: "hd (decimal_nat n) = CHR ''0'' \<longleftrightarrow> n = 0"
proof (induction n rule: decimal_nat.induct)
  case (1 n)
  show ?case
  proof (cases "n < 10")
    case True
    have "char_of (48 + n) = CHR ''0'' \<longleftrightarrow> byte (char_of (48 + n)) = 48"
      using byte_inject [of "char_of (48 + n)" "CHR ''0''"] by (simp add: byte_def)
    then show ?thesis using True by (subst decimal_nat.simps) simp
  next
    case False
    then show ?thesis using 1 decimal_nat_digits [of "n div 10"] by (subst decimal_nat.simps) (simp add: hd_append)
  qed
qed

lemma decimal_zero [simp]: "decimal_nat 0 = ''0''"
  by (subst decimal_nat.simps) (simp add: char_numerals)

lemma span_digits:
  assumes "\<forall>c \<in> set ds. is_digit c" and "number_ends rest"
  shows "takeWhile is_digit (ds @ rest) = ds" and "dropWhile is_digit (ds @ rest) = rest"
proof -
  have "takeWhile is_digit rest = []" "dropWhile is_digit rest = rest"
    using assms(2) by (cases rest; simp add: number_ends_def)+
  then show "takeWhile is_digit (ds @ rest) = ds" "dropWhile is_digit (ds @ rest) = rest"
    using assms(1) by (simp_all add: takeWhile_append2 dropWhile_append2)
qed

lemma number_integer_decimal: "number_ends rest \<Longrightarrow> number_integer (decimal_nat n @ rest) = Some (decimal_nat n, rest)"
proof (cases "n = 0")
  case False
  assume rest: "number_ends rest"
  obtain c cs where d: "decimal_nat n = c # cs" "c \<noteq> CHR ''0''"
    using decimal_nat_digits [of n] decimal_nat_hd [of n] False by (cases "decimal_nat n") auto
  have "digits1 (decimal_nat n @ rest) = Some (decimal_nat n, rest)"
    using span_digits [of "decimal_nat n" rest] decimal_nat_digits [of n] rest by (simp add: digits1_def Let_def)
  then show ?thesis using d by (simp add: number_integer_def)
qed (simp add: number_integer_def)

lemma decimal_start:
  obtains c cs where "decimal k = c # cs" and "is_digit c \<or> c = CHR ''-''"
proof (cases "k < 0")
  case True
  then show thesis using that by (simp add: decimal_def)
next
  case False
  then show thesis using that decimal_nat_digits [of "nat k"] by (cases "decimal_nat (nat k)") (auto simp: decimal_def)
qed

lemma json_number_decimal:
  assumes "number_ends rest"
  shows "json_number (decimal k @ rest) = Some (decimal k, rest)"
proof -
  have f: "number_fraction rest = Some ([], rest)" and e: "number_exponent rest = Some ([], rest)"
    using assms by (auto simp: number_ends_def number_fraction_def number_exponent_def split: list.splits)
  obtain c cs where d: "decimal_nat (nat k) = c # cs" "is_digit c"
    using decimal_nat_digits [of "nat k"] by (cases "decimal_nat (nat k)") auto
  then have "c \<noteq> CHR ''-''" by (auto simp: is_digit_def byte_def)
  then show ?thesis
    using number_integer_decimal [OF assms, of "nat k"] number_integer_decimal [OF assms, of "nat (- k)"] d f e
    by (auto simp: json_number_def decimal_def)
qed

section \<open>Reading values back\<close>

text \<open>What is written starts neither with white space nor with a closing bracket.\<close>

lemma json_write_start:
  assumes "json_plain v"
  obtains c cs where "json_write v = c # cs" and "\<not> is_ws c" and "c \<noteq> CHR '']''"
proof (cases v)
  case (JNumber t)
  then obtain k where t: "t = decimal k" using assms by auto
  obtain c cs where "decimal k = c # cs" "is_digit c \<or> c = CHR ''-''" by (rule decimal_start)
  moreover have "\<not> is_ws c" "c \<noteq> CHR '']''" using calculation(2) by (auto simp: is_digit_def is_ws_def byte_def)
  ultimately show thesis using JNumber t that [of c cs] by simp
next
  case (JBool b)
  then show thesis using that by (cases b) (auto simp: is_ws_def byte_def)
qed (use that in \<open>auto simp: json_quote_def is_ws_def byte_def\<close>)

lemma comma_separated_simps [simp]:
  "comma_separated [] = []" "comma_separated [x] = x" "comma_separated (x # y # zs) = x @ CHR '','' # comma_separated (y # zs)"
  by (simp_all add: comma_separated_def)

lemma skip_ws_start [simp]: "\<not> is_ws c \<Longrightarrow> skip_ws (c # cs) = c # cs"
  by (simp add: skip_ws_def)

lemma punctuation [simp]:
  "\<not> is_ws (CHR '','')" "\<not> is_ws (CHR '']'')" "\<not> is_ws (CHR ''}'')" "\<not> is_ws (CHR '':'')" "\<not> is_ws (CHR 0x22)"
  "\<not> is_ws (CHR ''{'')" "\<not> is_ws (CHR ''['')"
  "number_ends (CHR '','' # X)" "number_ends (CHR '']'' # X)" "number_ends (CHR ''}'' # X)"
  by (simp_all add: is_ws_def byte_def number_ends_def is_digit_def)

text \<open>A value reads back wherever there is fuel for it.\<close>

definition reads_back :: "json \<Rightarrow> bool" where
  "reads_back v \<longleftrightarrow> (\<forall>n rest. number_ends rest \<longrightarrow> 2 * length (json_write v @ rest) < n \<longrightarrow>
     json_value n (json_write v @ rest) = Some (v, rest))"

lemma reads_backD:
  "reads_back v \<Longrightarrow> number_ends rest \<Longrightarrow> 2 * length (json_write v @ rest) < n \<Longrightarrow> json_value n (json_write v @ rest) = Some (v, rest)"
  by (simp add: reads_back_def)

lemma json_elements_write:
  "vs \<noteq> [] \<Longrightarrow> \<forall>v \<in> set vs. reads_back v \<Longrightarrow> 2 * length (comma_separated (map json_write vs) @ CHR '']'' # rest) + 1 < n \<Longrightarrow>
    json_elements n (comma_separated (map json_write vs) @ CHR '']'' # rest) = Some (vs, rest)"
proof (induction vs arbitrary: n)
  case (Cons v vs)
  obtain m where n: "n = Suc m" using Cons.prems(3) by (cases n) auto
  show ?case
  proof (cases vs)
    case Nil
    have "json_value m (json_write v @ CHR '']'' # rest) = Some (v, CHR '']'' # rest)"
      by (rule reads_backD) (use Cons.prems Nil n in simp_all)
    then show ?thesis using Nil n by (simp add: after_separator_def)
  next
    case (Cons w ws)
    let ?more = "comma_separated (map json_write vs) @ CHR '']'' # rest"
    have s: "comma_separated (map json_write (v # vs)) @ CHR '']'' # rest = json_write v @ CHR '','' # ?more"
      using Cons by simp
    have len: "2 * length (json_write v @ CHR '','' # ?more) < m" using Cons.prems(3) n s by simp
    have "json_value m (json_write v @ CHR '','' # ?more) = Some (v, CHR '','' # ?more)"
      by (rule reads_backD) (use Cons.prems(2) len in simp_all)
    moreover have "json_elements m ?more = Some (vs, rest)"
      using Cons.prems(2) len Cons by (intro Cons.IH) simp_all
    ultimately show ?thesis unfolding s n by (simp add: after_separator_def)
  qed
qed simp

abbreviation write_member :: "string \<times> json \<Rightarrow> string" where
  "write_member m \<equiv> json_quote (fst m) @ CHR '':'' # json_write (snd m)"

lemma member_key_write: "utf8_valid k \<Longrightarrow> member_key (json_quote k @ CHR '':'' # X) = Some (k, X)"
  by (simp add: member_key_def json_quote_def json_string_quote)

lemma json_members_write:
  "ms \<noteq> [] \<Longrightarrow> \<forall>m \<in> set ms. utf8_valid (fst m) \<and> reads_back (snd m) \<Longrightarrow>
    2 * length (comma_separated (map write_member ms) @ CHR ''}'' # rest) + 1 < n \<Longrightarrow>
    json_members n (comma_separated (map write_member ms) @ CHR ''}'' # rest) = Some (ms, rest)"
proof (induction ms arbitrary: n)
  case (Cons m ms)
  obtain k v where m: "m = (k, v)" by (cases m)
  obtain f where n: "n = Suc f" using Cons.prems(3) by (cases n) auto
  show ?case
  proof (cases ms)
    case Nil
    have "json_value f (json_write v @ CHR ''}'' # rest) = Some (v, CHR ''}'' # rest)"
      by (rule reads_backD) (use Cons.prems Nil n m in \<open>simp_all add: json_quote_def\<close>)
    then show ?thesis using Nil n m Cons.prems(2) by (simp add: after_separator_def member_key_write)
  next
    case (Cons w ws)
    let ?more = "comma_separated (map write_member ms) @ CHR ''}'' # rest"
    have s: "comma_separated (map write_member (m # ms)) @ CHR ''}'' # rest = json_quote k @ CHR '':'' # json_write v @ CHR '','' # ?more"
      using Cons m by simp
    have len: "2 * length (json_write v @ CHR '','' # ?more) < f" using Cons.prems(3) n unfolding s by simp
    have "json_value f (json_write v @ CHR '','' # ?more) = Some (v, CHR '','' # ?more)"
      by (rule reads_backD) (use Cons.prems(2) len m in simp_all)
    moreover have "json_members f ?more = Some (ms, rest)"
      using Cons.prems(2) len Cons by (intro Cons.IH) simp_all
    ultimately show ?thesis using Cons.prems(2) m unfolding s n by (simp add: after_separator_def member_key_write)
  qed
qed simp

text \<open>One step of the reader, by the first character.\<close>

lemma json_value_step:
  "json_value (Suc n) (CHR ''{'' # cs) =
    (if take 1 (skip_ws cs) = ''}'' then Some (JObject [], drop 1 (skip_ws cs)) else map_option (\<lambda>(ms, r). (JObject ms, r)) (json_members n cs))"
  "json_value (Suc n) (CHR ''['' # cs) =
    (if take 1 (skip_ws cs) = '']'' then Some (JArray [], drop 1 (skip_ws cs)) else map_option (\<lambda>(vs, r). (JArray vs, r)) (json_elements n cs))"
  "json_value (Suc n) (CHR 0x22 # cs) = map_option (\<lambda>(t, r). (JString t, r)) (json_string cs)"
  "\<not> is_ws c \<Longrightarrow> c \<notin> {CHR ''{'', CHR ''['', CHR 0x22} \<Longrightarrow> json_value (Suc n) (c # cs) = json_literal (c # cs)"
  by simp_all

lemma reads_backI:
  assumes "\<And>n rest. number_ends rest \<Longrightarrow> 2 * length (json_write v @ rest) \<le> n \<Longrightarrow> json_value (Suc n) (json_write v @ rest) = Some (v, rest)"
  shows "reads_back v"
  unfolding reads_back_def
proof (intro allI impI)
  fix n rest assume "number_ends rest" "2 * length (json_write v @ rest) < n"
  then show "json_value n (json_write v @ rest) = Some (v, rest)" using assms [of rest "n - 1"] by (cases n) (simp_all del: json_value.simps)
qed

lemma reads_back_number: "reads_back (JNumber (decimal k))"
proof (rule reads_backI)
  fix n rest assume rest: "number_ends rest"
  obtain c cs where d: "decimal k = c # cs" and c: "is_digit c \<or> c = CHR ''-''" by (rule decimal_start)
  have "\<not> is_ws c" "c \<notin> {CHR ''{'', CHR ''['', CHR 0x22, CHR ''t'', CHR ''f'', CHR ''n''}"
    using c by (auto simp: is_digit_def is_ws_def byte_def)
  then have "json_value (Suc n) (c # cs @ rest) = map_option (\<lambda>(t, r). (JNumber t, r)) (json_number (c # cs @ rest))"
    by (subst json_value_step(4)) (auto simp: json_literal_def has_prefix_def)
  then show "json_value (Suc n) (json_write (JNumber (decimal k)) @ rest) = Some (JNumber (decimal k), rest)"
    using json_number_decimal [OF rest, of k] d by (simp del: json_value.simps)
qed

lemma plain_reads_back: "json_plain v \<Longrightarrow> reads_back v"
proof (induction v)
  case (JNumber t)
  then show ?case using reads_back_number by auto
next
  case (JString s)
  then show ?case
    by (intro reads_backI) (simp add: json_quote_def json_value_step json_string_quote del: json_value.simps)
next
  case (JArray vs)
  show ?case
  proof (rule reads_backI)
    fix n rest assume "number_ends rest" and len: "2 * length (json_write (JArray vs) @ rest) \<le> n"
    show "json_value (Suc n) (json_write (JArray vs) @ rest) = Some (JArray vs, rest)"
    proof (cases vs)
      case Nil
      then show ?thesis by (simp add: json_value_step del: json_value.simps)
    next
      case (Cons w ws)
      have readable: "\<forall>v \<in> set vs. reads_back v" using JArray by (auto simp: list_all_iff)
      have "json_plain w" using JArray.prems Cons by simp
      then obtain c cs where "json_write w = c # cs" "\<not> is_ws c" "c \<noteq> CHR '']''" by (rule json_write_start)
      then have "take 1 (skip_ws (comma_separated (map json_write vs) @ CHR '']'' # rest)) \<noteq> '']''"
        using Cons by (cases ws) simp_all
      moreover have "json_elements n (comma_separated (map json_write vs) @ CHR '']'' # rest) = Some (vs, rest)"
        using Cons len readable by (intro json_elements_write) simp_all
      ultimately show ?thesis by (simp add: json_value_step del: json_value.simps)
    qed
  qed
next
  case (JObject ms)
  have members: "map (\<lambda>(k, w). json_quote k @ CHR '':'' # w) (map (map_prod id json_write) ms) = map write_member ms"
    by auto
  show ?case
  proof (rule reads_backI)
    fix n rest assume "number_ends rest" and len: "2 * length (json_write (JObject ms) @ rest) \<le> n"
    show "json_value (Suc n) (json_write (JObject ms) @ rest) = Some (JObject ms, rest)"
    proof (cases ms)
      case Nil
      then show ?thesis by (simp add: json_value_step del: json_value.simps)
    next
      case (Cons m ms')
      have readable: "\<forall>m \<in> set ms. utf8_valid (fst m) \<and> reads_back (snd m)"
        using JObject by (fastforce simp: list_all_iff)
      have "take 1 (skip_ws (comma_separated (map write_member ms) @ CHR ''}'' # rest)) \<noteq> ''}''"
        using Cons by (cases ms') (simp_all add: json_quote_def)
      moreover have "json_members n (comma_separated (map write_member ms) @ CHR ''}'' # rest) = Some (ms, rest)"
        using Cons len readable unfolding json_write.simps members by (intro json_members_write) simp_all
      ultimately show ?thesis unfolding json_write.simps members by (simp add: json_value_step del: json_value.simps)
    qed
  qed
qed (auto intro!: reads_backI simp: json_value_step json_literal_def has_prefix_def is_ws_def byte_def simp del: json_value.simps)

text \<open>Reading what was written: alone, or followed by the line end of an Encoder.\<close>

lemma json_write_decode:
  assumes "json_plain v" and "json_depth v \<le> 10000" and "number_ends rest"
  shows "json_decode (json_write v @ rest) = Some v"
    and "skip_ws rest = [] \<Longrightarrow> json_unmarshal (json_write v @ rest) = Some v"
  using reads_backD [OF plain_reads_back [OF assms(1)] assms(3), of "Suc (2 * length (json_write v @ rest))"] assms(2)
  by (simp_all add: json_decode_def json_unmarshal_def del: json_value.simps)

section \<open>Plain text and fields\<close>

lemma utf8_valid_ascii: "\<forall>c \<in> set s. byte c < 0x80 \<Longrightarrow> utf8_valid s"
  by (induction s) (simp_all add: utf8_valid.simps utf8_size_def)

text \<open>A field whose name one member has, whatever the order of the members.\<close>

lemma string_field_set:
  "\<forall>m \<in> set ms. fold_name (fst m) = f \<longrightarrow> snd m = JString s \<Longrightarrow>
    string_field f ms acc = Some (if \<exists>m \<in> set ms. fold_name (fst m) = f then s else acc)"
  by (induction ms arbitrary: acc) (auto, force+)

lemma bool_field_set:
  "\<forall>m \<in> set ms. fold_name (fst m) = f \<longrightarrow> snd m = JBool b \<Longrightarrow>
    bool_field f ms acc = Some (if \<exists>m \<in> set ms. fold_name (fst m) = f then b else acc)"
  by (induction ms arbitrary: acc) (auto, force+)

lemma fold_max_le: "fold max xs a \<le> (n :: nat) \<longleftrightarrow> a \<le> n \<and> (\<forall>x \<in> set xs. x \<le> n)"
  by (induction xs arbitrary: a) auto

lemma json_depth_object: "json_depth (JObject ms) \<le> Suc n \<longleftrightarrow> (\<forall>m \<in> set ms. json_depth (snd m) \<le> n)"
  by (auto simp: fold_max_le)

end
