(* ===== verification/Oidc_Sign_In.thy ===== *)
theory Oidc_Sign_In
  imports Oidctest Exchange Json_Write "HOL-Library.List_Lexorder" "HOL-Library.Char_ord"
begin

text \<open>
  The test provider and the code exchange together: what Exchanger.Exchange
  (internal/auth/exchange.go) answers when the provider it talks to is the Issuer of
  internal/auth/oidctest. The two sides meet in third-party code, which signs on one side and
  fetches and verifies on the other; \<open>libraries_agree\<close> is what its documentation promises of the
  pair, and \<open>posted_to\<close> is the token request x/oauth2 makes.
\<close>

section \<open>The libraries between the two sides\<close>

text \<open>golang-jwt signs the JSON encoding of the claims, which sorts the members of a map.\<close>

fun claim_json :: "claim \<Rightarrow> json" where
  "claim_json (CString s) = JString s"
| "claim_json (CNumber n) = JNumber (decimal n)"
| "claim_json (CBool b) = JBool b"
| "claim_json CNull = JNull"

definition payload_of :: "map_claims \<Rightarrow> string" where
  "payload_of cs = json_write (JObject (map (\<lambda>(k, c). (k, claim_json c)) (sort_key fst cs)))"

definition string_claim_of :: "map_claims \<Rightarrow> string \<Rightarrow> string" where
  "string_claim_of cs k = (case map_of cs k of Some (CString s) \<Rightarrow> s | _ \<Rightarrow> [])"

definition number_claim_of :: "map_claims \<Rightarrow> string \<Rightarrow> int" where
  "number_claim_of cs k = (case map_of cs k of Some (CNumber n) \<Rightarrow> n | _ \<Rightarrow> 0)"

text \<open>go-oidc's Verify once the signature is good: issuer, audience and expiry.\<close>

definition checked_token :: "discovered \<Rightarrow> string \<Rightarrow> nanos \<Rightarrow> map_claims \<Rightarrow> id_token option" where
  "checked_token p client now cs =
    (if issuer_matches (disc_issuer p) (string_claim_of cs ''iss'') \<and> string_claim_of cs ''aud'' = client
        \<and> now \<le> number_claim_of cs ''exp'' * second
     then Some \<lparr>idt_issuer = string_claim_of cs ''iss'', idt_audience = [string_claim_of cs ''aud''],
        idt_subject = string_claim_of cs ''sub'', idt_nonce = string_claim_of cs ''nonce'',
        idt_expiry = number_claim_of cs ''exp'' * second, idt_payload = payload_of cs\<rparr>
     else None)"

text \<open>Discovery reads the provider's document.\<close>

definition discovered_at :: "test_issuer \<Rightarrow> discovered" where
  "discovered_at i =
    (case discovery_document i of
       JObject ms \<Rightarrow> \<lparr>disc_issuer = (case map_of ms ''issuer'' of Some (JString s) \<Rightarrow> s | _ \<Rightarrow> []),
         disc_endpoint = (case map_of ms ''token_endpoint'' of Some (JString s) \<Rightarrow> s | _ \<Rightarrow> [])\<rparr>
     | _ \<Rightarrow> \<lparr>disc_issuer = [], disc_endpoint = []\<rparr>)"

text \<open>
  A token signed under the published key and its id is checked; a token signed under another
  key, or not signed, is refused; discovery finds the provider under its URL.
\<close>

definition libraries_agree :: "signing_lib \<Rightarrow> oidc_lib \<Rightarrow> test_issuer \<Rightarrow> bool" where
  "libraries_agree sl ol i \<longleftrightarrow>
    (\<forall>n. oidc_new_provider ol n (iss_url i) = Some (discovered_at i))
    \<and> (\<forall>kid key cs raw client now. sign_rs256 sl kid key cs = Some raw \<longrightarrow> raw \<noteq> []
        \<and> oidc_verify ol (discovered_at i) client now raw =
            (if kid = key_id \<and> key = key_private (iss_key i) then checked_token (discovered_at i) client now cs else None))
    \<and> (\<forall>cs raw client now. sign_none sl cs = Some raw \<longrightarrow> oidc_verify ol (discovered_at i) client now raw = None)"

text \<open>x/oauth2's Exchange: the form it posts to the token URL, and the members of a 200 answer.\<close>

definition posted_form :: "string \<Rightarrow> string \<Rightarrow> token_form" where
  "posted_form code verifier = \<lparr>form_parses = True, form_value = (\<lambda>name.
     if name = ''grant_type'' then ''authorization_code'' else if name = ''code'' then code
     else if name = ''code_verifier'' then verifier else [])\<rparr>"

definition posted_to :: "signing_lib \<Rightarrow> test_issuer \<Rightarrow> oauth_lib" where
  "posted_to sl i cfg code verifier =
    (if oauth_token_url cfg \<noteq> iss_url i @ ''/token'' then None
     else (case fst (handle_token sl (posted_form code verifier) i) of
        TokenGranted jws \<Rightarrow> Some (map_of (token_members jws))
      | TokenError status code \<Rightarrow> None))"

section \<open>What arrives\<close>

lemma discovered_at_fields [simp]: "disc_issuer (discovered_at i) = iss_url i" "disc_endpoint (discovered_at i) = iss_url i @ ''/token''"
  by (simp_all add: discovered_at_def discovery_document_def)

lemma claims_of_lookup:
  "string_claim_of (claims_of t) ''iss'' = tok_issuer t" "string_claim_of (claims_of t) ''aud'' = tok_audience t"
  "string_claim_of (claims_of t) ''sub'' = tok_subject t" "string_claim_of (claims_of t) ''nonce'' = tok_nonce t"
  "number_claim_of (claims_of t) ''exp'' = tok_expiry t div second"
  by (simp_all add: string_claim_of_def number_claim_of_def claims_of_def)

text \<open>Tokens whose strings are valid UTF-8; json.Marshal would replace the bytes of others.\<close>

definition utf8_token :: "token_claims \<Rightarrow> bool" where
  "utf8_token t \<longleftrightarrow> list_all utf8_valid [tok_issuer t, tok_audience t, tok_subject t, tok_email t, tok_name t, tok_picture t, tok_nonce t]"

lemma payload_members:
  assumes "utf8_token t"
  obtains ms where "json_unmarshal (payload_of (claims_of t)) = Some (JObject ms)"
    and "set ms = (\<lambda>(k, c). (k, claim_json c)) ` set (claims_of t)"
proof -
  let ?ms = "map (\<lambda>(k, c). (k, claim_json c)) (sort_key fst (claims_of t))"
  have set: "set ?ms = (\<lambda>(k, c). (k, claim_json c)) ` set (claims_of t)" by simp
  have keys: "utf8_valid k" if "k \<in> {''iss'', ''aud'', ''sub'', ''email'', ''email_verified'', ''iat'', ''exp'', ''name'', ''picture'', ''nonce''}" for k
    using that by (intro utf8_valid_ascii) (auto simp: byte_def)
  have "json_plain (JObject ?ms)"
    using assms keys by (auto simp: list_all_iff claims_of_def utf8_token_def simp del: set_map)
  moreover have "json_depth (claim_json c) = 0" for c by (cases c) simp_all
  then have "json_depth (JObject ?ms) \<le> Suc 0" unfolding json_depth_object by auto
  then have "json_depth (JObject ?ms) \<le> 10000" by linarith
  ultimately have "json_unmarshal (payload_of (claims_of t)) = Some (JObject ?ms)"
    using json_write_decode(2) [of "JObject ?ms" "[]"] by (simp add: payload_of_def number_ends_def skip_ws_def)
  then show thesis using set by (rule that)
qed

lemma payload_claims:
  assumes "utf8_token t"
  shows "read_id_claims (payload_of (claims_of t)) = Some \<lparr>claim_email = tok_email t, claim_email_verified = tok_email_verified t,
    claim_name = tok_name t, claim_picture = tok_picture t\<rparr>"
proof -
  obtain ms where ms: "json_unmarshal (payload_of (claims_of t)) = Some (JObject ms)"
    "set ms = (\<lambda>(k, c). (k, claim_json c)) ` set (claims_of t)" using assms by (rule payload_members)
  have "string_field ''email'' ms [] = Some (tok_email t)"
    by (subst string_field_set [where s = "tok_email t"]) (auto simp: ms(2) claims_of_def fold_name_def lower_byte_def)
  moreover have "string_field ''name'' ms [] = Some (tok_name t)"
    by (cases "tok_name t = []"; subst string_field_set [where s = "tok_name t"])
      (auto simp: ms(2) claims_of_def fold_name_def lower_byte_def)
  moreover have "string_field ''picture'' ms [] = Some (tok_picture t)"
    by (cases "tok_picture t = []"; subst string_field_set [where s = "tok_picture t"])
      (auto simp: ms(2) claims_of_def fold_name_def lower_byte_def)
  moreover have "bool_field ''email_verified'' ms False = Some (tok_email_verified t)"
    by (subst bool_field_set [where b = "tok_email_verified t"]) (auto simp: ms(2) claims_of_def fold_name_def lower_byte_def)
  ultimately show ?thesis by (simp add: read_id_claims_def ms(1) struct_members_def)
qed

section \<open>Signing in with the test provider\<close>

text \<open>The exchanger of a server configured with the test provider alone.\<close>

definition client_of :: "test_issuer \<Rightarrow> string \<Rightarrow> string \<Rightarrow> string \<Rightarrow> exchange_config" where
  "client_of i name client secret = \<lparr>ec_provider = \<lparr>provider_name = name, provider_issuer = iss_url i, provider_client_id = client\<rparr>,
     ec_client_secret = secret\<rparr>"

lemma client_exchanger:
  assumes "libraries_agree sl ol i" and "new_exchanger ol [client_of i name client secret] = Inr ex"
  shows "map_of (providers (ex_verifier ex)) name = Some (discovered_at i, client)"
    and "\<exists>e. map_of (ex_configs ex) name = Some e \<and> oauth_token_url (entry_oauth e) = iss_url i @ ''/token''"
proof -
  note x = new_exchanger_Inr [OF assms(2)]
  have disc: "oidc_new_provider ol n (iss_url i) = Some (discovered_at i)" for n using assms(1) by (simp add: libraries_agree_def)
  show "map_of (providers (ex_verifier ex)) name = Some (discovered_at i, client)"
    using x(1) disc by (simp add: new_verifier_Inr verifier_entry_def client_of_def)
  show "\<exists>e. map_of (ex_configs ex) name = Some e \<and> oauth_token_url (entry_oauth e) = iss_url i @ ''/token''"
    using x(2) disc by (simp add: exchange_entry_of_def client_of_def)
qed

lemma verify_signed:
  assumes "libraries_agree sl ol i" and "utf8_token t" and "sign sl i t = Some raw"
    and "map_of (providers v) name = Some (discovered_at i, client)"
  shows "verify ol v now name raw nonce =
    (if \<not> issuer_matches (iss_url i) (tok_issuer t) \<or> tok_audience t \<noteq> client \<or> tok_expiry t div second * second < now
       then Inl ErrInvalidToken
     else if nonce = [] \<or> tok_nonce t \<noteq> nonce then Inl ErrNonceMismatch
     else if tok_subject t = [] then Inl ErrMissingSubject
     else Inr \<lparr>id_provider = name, id_subject = tok_subject t, id_email = trim_space (tok_email t),
       id_email_verified = tok_email_verified t, id_name = trim_space (tok_name t), id_picture = tok_picture t\<rparr>)"
proof -
  have "oidc_verify ol (discovered_at i) client now raw = checked_token (discovered_at i) client now (claims_of t)"
    using assms(1,3) by (simp add: libraries_agree_def sign_def sign_token_def)
  then show ?thesis
    by (simp add: verify_def assms(4) checked_token_def claims_of_lookup payload_claims [OF assms(2)] not_le)
qed

text \<open>The two sides of Jwt's reference library: a token carries the key id where Jwt has the method.\<close>

definition agreeing_signing :: signing_lib where
  "agreeing_signing = \<lparr>sign_rs256 = ref_sign, sign_none = ref_sign ''none'' []\<rparr>"

definition agreeing_oidc :: "test_issuer \<Rightarrow> oidc_lib" where
  "agreeing_oidc i = \<lparr>oidc_new_provider = (\<lambda>n url. if url = iss_url i then Some (discovered_at i) else None),
     oidc_verify = (\<lambda>p client now raw.
       case ref_split raw of
         None \<Rightarrow> None
       | Some (kid, k, cs) \<Rightarrow> if kid = key_id \<and> k = hex_encode (key_private (iss_key i)) then checked_token p client now cs else None)\<rparr>"

lemma libraries_do_agree: "libraries_agree agreeing_signing (agreeing_oidc i) i"
proof -
  have "raw \<noteq> []" if "ref_sign a k cs = Some raw" for a k cs raw using that by (cases a) (auto simp: ref_sign_def)
  then show ?thesis
    by (auto simp: libraries_agree_def agreeing_signing_def agreeing_oidc_def ref_split_sign hex.encode_eq_iff key_id_def)
qed

lemma kari_utf8: "utf8_token kari_token"
  unfolding utf8_token_def list_all_iff
  by (intro ballI utf8_valid_ascii) (auto simp: kari_token_def valid_token_def test_provider_def byte_def)

lemma kari_trims:
  "trim_space ''kari.nordmann@example.no'' = ''kari.nordmann@example.no''" "trim_space ''Kari Nordmann'' = ''Kari Nordmann''"
  by (rule trim_space_printable; simp add: printable_def)+

lemma kari_exchanger:
  obtains ex where "new_exchanger (agreeing_oidc test_provider) [client_of test_provider ''test'' ''client'' ''s''] = Inr ex"
  using that by (simp add: new_exchanger_def new_verifier_def client_of_def agreeing_oidc_def test_provider_def)

lemma kari_signed: obtains raw where "sign agreeing_signing test_provider kari_token = Some raw"
  using that by (simp add: sign_def sign_token_def agreeing_signing_def ref_sign_def)

text \<open>
  What the exchanger makes of a code of the provider: another PKCE verifier gets no token, and
  with the right one the token is verified.
\<close>

lemma exchange_at_test_provider:
  assumes "libraries_agree sl ol i" and "new_exchanger ol [client_of i name client secret] = Inr ex"
    and "issue_code i t verifier random = (Some code, i1)" and "sign sl i t = Some raw"
    and "req_provider req = name" and "req_code req = code"
  shows "exchange ol (posted_to sl i1) ex now req =
    (if sha256_sum (bytes_of (req_code_verifier req)) \<noteq> sha256_sum (bytes_of verifier) then Inl ErrExchangeFailed
     else verify ol (ex_verifier ex) now name raw (req_nonce req))"
proof -
  obtain e where e: "map_of (ex_configs ex) name = Some e" "oauth_token_url (entry_oauth e) = iss_url i @ ''/token''"
    using client_exchanger(2) [OF assms(1,2)] by blast
  have i1: "iss_url i1 = iss_url i" using assms(3) by (auto simp: issue_code_def Let_def split: option.splits)
  have form: "form_parses (posted_form code v)" "form_value (posted_form code v) ''grant_type'' = ''authorization_code''"
    "form_value (posted_form code v) ''code'' = code" "form_value (posted_form code v) ''code_verifier'' = v" for v
    by (simp_all add: posted_form_def)
  have granted: "fst (handle_token sl (posted_form code v) i1) = TokenGranted jws
      \<longleftrightarrow> sha256_sum (bytes_of v) = sha256_sum (bytes_of verifier) \<and> jws = raw" for v jws
    using code_needs_its_verifier [OF assms(3) form(1-3) [of v], of sl jws] assms(4) by (auto simp: form(4))
  have post: "posted_to sl i1 ((entry_oauth e)\<lparr>oauth_redirect_url := uri\<rparr>) code v =
      (if sha256_sum (bytes_of v) \<noteq> sha256_sum (bytes_of verifier) then None else Some (map_of (token_members raw)))" for uri v
  proof (cases "sha256_sum (bytes_of v) = sha256_sum (bytes_of verifier)")
    case True
    then have "fst (handle_token sl (posted_form code v) i1) = TokenGranted raw" using granted by blast
    then show ?thesis using True by (simp add: posted_to_def e(2) i1)
  next
    case False
    then have "fst (handle_token sl (posted_form code v) i1) \<noteq> TokenGranted jws" for jws using granted by blast
    then obtain st c where "fst (handle_token sl (posted_form code v) i1) = TokenError st c" by (meson token_answer.exhaust)
    then show ?thesis using False by (simp add: posted_to_def e(2) i1)
  qed
  have raw: "raw \<noteq> []" using assms(1,4) by (auto simp: libraries_agree_def sign_def sign_token_def)
  show ?thesis
  proof (cases "sha256_sum (bytes_of (req_code_verifier req)) = sha256_sum (bytes_of verifier)")
    case True
    then have "posted_to sl i1 ((entry_oauth e)\<lparr>oauth_redirect_url := req_redirect_uri req\<rparr>) code (req_code_verifier req)
      = Some (map_of (token_members raw))" unfolding post by simp
    moreover have "map_of (token_members raw) ''id_token'' = Some (JString raw)" by (simp add: token_members_def)
    ultimately show ?thesis using True raw by (simp add: exchange_def assms(5,6) e(1))
  next
    case False
    then have "posted_to sl i1 ((entry_oauth e)\<lparr>oauth_redirect_url := req_redirect_uri req\<rparr>) code (req_code_verifier req) = None"
      unfolding post by simp
    then show ?thesis using False by (simp add: exchange_def assms(5,6) e(1))
  qed
qed

text \<open>
  C18. Signing in, from the code to the identity. A server configured with the test provider
  redeems a code the provider issued with exactly one of five answers, decided by the PKCE
  verifier, then by issuer, audience and expiry, then by the nonce, then by the subject; when all are
  good the identity is the one registered with the code.
\<close>

theorem test_provider_signs_in:
  assumes "libraries_agree sl ol i" and "new_exchanger ol [client_of i name client secret] = Inr ex"
    and "issue_code i t verifier random = (Some code, i1)" and "sign sl i t = Some raw" and "utf8_token t"
    and "req_provider req = name" and "req_code req = code"
  shows "exchange ol (posted_to sl i1) ex now req =
    (if sha256_sum (bytes_of (req_code_verifier req)) \<noteq> sha256_sum (bytes_of verifier) then Inl ErrExchangeFailed
     else if \<not> issuer_matches (iss_url i) (tok_issuer t) \<or> tok_audience t \<noteq> client \<or> tok_expiry t div second * second < now
       then Inl ErrInvalidToken
     else if req_nonce req = [] \<or> tok_nonce t \<noteq> req_nonce req then Inl ErrNonceMismatch
     else if tok_subject t = [] then Inl ErrMissingSubject
     else Inr \<lparr>id_provider = name, id_subject = tok_subject t, id_email = trim_space (tok_email t),
       id_email_verified = tok_email_verified t, id_name = trim_space (tok_name t), id_picture = tok_picture t\<rparr>)"
  by (simp only: exchange_at_test_provider [OF assms(1-4,6,7)] verify_signed [OF assms(1,5,4) client_exchanger(1) [OF assms(1,2)]])

theorem test_provider_signs_in_witness:
  "\<exists>ex. new_exchanger (agreeing_oidc test_provider) [client_of test_provider ''test'' ''client'' ''s''] = Inr ex
    \<and> exchange (agreeing_oidc test_provider) (posted_to agreeing_signing sample_issued) ex 7
        \<lparr>req_provider = ''test'', req_code = sample_code, req_code_verifier = ''verifier'', req_redirect_uri = ''u'', req_nonce = ''test-nonce''\<rparr>
      = Inr \<lparr>id_provider = ''test'', id_subject = ''oidctest-subject-1'', id_email = ''kari.nordmann@example.no'',
          id_email_verified = True, id_name = ''Kari Nordmann'', id_picture = ''https://example.invalid/avatar.png''\<rparr>"
proof -
  let ?req = "\<lparr>req_provider = ''test'', req_code = sample_code, req_code_verifier = ''verifier'', req_redirect_uri = ''u'', req_nonce = ''test-nonce''\<rparr>"
  obtain ex where ex: "new_exchanger (agreeing_oidc test_provider) [client_of test_provider ''test'' ''client'' ''s''] = Inr ex"
    by (rule kari_exchanger)
  obtain raw where raw: "sign agreeing_signing test_provider kari_token = Some raw" by (rule kari_signed)
  show ?thesis
    using ex test_provider_signs_in [OF libraries_do_agree ex sample_issue raw kari_utf8, of ?req 7]
    by (simp add: kari_token_def valid_token_def issuer_matches_def test_provider_def hour_def second_def minute_def kari_trims)
qed

text \<open>
  Forged tokens. A token the test provider signs with its unpublished key, or does not sign
  at all, is refused by a server configured with the provider, whatever it claims.
\<close>

lemma forged_tokens_are_refused:
  assumes "libraries_agree sl ol i" and "new_exchanger ol [client_of i name client secret] = Inr ex"
    and "key_private (iss_foreign i) \<noteq> key_private (iss_key i)"
    and "sign_with_foreign_key sl i t = Some raw \<or> sign_unsecured sl t = Some raw"
  shows "verify ol (ex_verifier ex) now name raw nonce = Inl ErrInvalidToken"
proof -
  have "oidc_verify ol (discovered_at i) client now raw = None"
    using assms(1,3,4) by (auto simp: libraries_agree_def sign_with_foreign_key_def sign_token_def sign_unsecured_def)
  then show ?thesis by (simp add: verify_def client_exchanger(1) [OF assms(1,2)])
qed

end
