(* ===== verification/First_Visit.thy ===== *)
theory First_Visit
  imports Service_Theorems Oidc_Sign_In
begin

text \<open>
  A first sign-in from end to end: the test provider of internal/auth/oidctest, the code exchange, the
  accounts, the sessions and the handlers together. When nothing fails and the identity is
  new, the code of a good token signs its user in, and the access token of the answer works.
\<close>

section \<open>A sign-in where nothing fails\<close>

lemma revocation_keeps_users:
  assumes "faultless e"
  obtains d' where "revoke_by_token e tok d = (Inr (), d')" and "users d' = users d"
    and "token_hash ` set (refresh_tokens d') = token_hash ` set (refresh_tokens d)"
    and "token_id ` set (refresh_tokens d') = token_id ` set (refresh_tokens d)"
proof (cases "get_refresh_token_by_hash (hash_refresh_token tok) d")
  case (Inl err)
  then have "err = NoRows" by (auto simp: get_refresh_token_by_hash_def one_row_def split: option.splits)
  with Inl show thesis
    using faultlessD [OF assms] by (intro that [of d]) (simp_all add: revoke_by_token_def query_def)
next
  case (Inr x)
  let ?P = "\<lambda>r. token_family r = token_family x \<and> revoked_at r = None" and ?t = "db_now e RevokeRefreshTokenFamily"
  have run: "revoke_by_token e tok d = (Inr (), d\<lparr>refresh_tokens := update_where ?P (mark_revoked ?t) (refresh_tokens d)\<rparr>)"
    using Inr faultlessD [OF assms]
    by (simp add: revoke_by_token_def query_def revoke_refresh_token_family_def revoke_where_def Let_def)
  show thesis
    by (rule that [OF run])
      (use arg_cong [OF revoked_hash.keys_same, of set ?P ?t "refresh_tokens d"]
        arg_cong [OF revoked_id.keys_same, of set ?P ?t "refresh_tokens d"] in simp_all)
qed

lemma faultless_sign_in:
  assumes e: "faultless e" and L: "libs_documented (pf_libs p)" and fresh: "fresh_draws e rand d" and wf: "accounts_wf (pf_pg p) d"
    and pr: "provision (pf_pg p) (pf_libs p) e i d = (Inr user, logs, d1)"
  shows "resp_status (out_response (complete_sign_in p s e provider r i d)) = Some 200"
proof -
  have "refresh_tokens d1 = refresh_tokens d" using provision_tokens [of "pf_pg p" "pf_libs p" e i d] pr by simp
  then have fresh1: "fresh_draws e rand d1" using fresh by (simp add: fresh_draws_def)
  have "user \<in> set (users d1)" using provision_owner [OF pr wf] by (simp add: owns_identity_def)
  then have user: "user_id user \<in> user_id ` set (users d1)" by simp
  obtain d2 where rv: "(if refresh_cookie r \<noteq> [] then revoke_by_token e (refresh_cookie r) d1 else (Inr (), d1)) = (Inr (), d2)"
    and d2: "fresh_draws e rand d2" "user_id user \<in> user_id ` set (users d2)"
  proof (cases "refresh_cookie r = []")
    case False
    obtain d2 where "revoke_by_token e (refresh_cookie r) d1 = (Inr (), d2)" "users d2 = users d1"
      "token_hash ` set (refresh_tokens d2) = token_hash ` set (refresh_tokens d1)"
      "token_id ` set (refresh_tokens d2) = token_id ` set (refresh_tokens d1)" by (rule revocation_keeps_users [OF e])
    then show thesis using False fresh1 user by (intro that [of d2]) (simp_all add: fresh_draws_def)
  qed (use that [of d1] fresh1 user in simp)
  obtain ses d3 where "issue (pf_libs p) (srv_tokens s) e (user_id user) d2 = (Inr ses, d3)"
    using mint_faultless [OF e L d2] by (metis issue_def)
  then show ?thesis using pr rv by (simp add: complete_sign_in_def write_session_user)
qed

section \<open>The first visit\<close>

text \<open>The JSON body a client posts, which the handler reads as it was meant.\<close>

definition posted_callback :: "string \<Rightarrow> string \<Rightarrow> string \<Rightarrow> string \<Rightarrow> json" where
  "posted_callback code verifier nonce uri = JObject [(''code'', JString code), (''code_verifier'', JString verifier),
     (''nonce'', JString nonce), (''redirect_uri'', JString uri)]"

lemma posted_callback_reads:
  assumes "list_all utf8_valid [code, verifier, nonce, uri]" and "length (json_write (posted_callback code verifier nonce uri)) \<le> max_auth_body"
  shows "read_callback_body (json_write (posted_callback code verifier nonce uri))
    = Some \<lparr>body_code = code, body_code_verifier = verifier, body_nonce = nonce, body_redirect_uri = uri\<rparr>"
proof -
  let ?v = "posted_callback code verifier nonce uri"
  have "utf8_valid ''code''" "utf8_valid ''code_verifier''" "utf8_valid ''nonce''" "utf8_valid ''redirect_uri''"
    by (rule utf8_valid_ascii, simp add: byte_def)+
  then have "json_plain ?v" using assms(1) by (simp add: posted_callback_def)
  moreover have "json_depth ?v \<le> 10000" by (simp add: posted_callback_def)
  ultimately have "json_decode (json_write ?v) = Some ?v"
    using json_write_decode(1) [of ?v "[]"] by (simp add: number_ends_def)
  then have "read_callback_body (json_write ?v) = callback_of ?v" using assms(2) by (simp add: read_callback_body_def json_decode_unlimited)
  also have "callback_of ?v = Some \<lparr>body_code = code, body_code_verifier = verifier, body_nonce = nonce, body_redirect_uri = uri\<rparr>"
    by (simp add: callback_of_def posted_callback_def struct_members_def fold_name_def lower_byte_def)
  finally show ?thesis .
qed

text \<open>An identity nobody has, whose address no account holds as verified, and fresh row ids.\<close>

definition first_visit :: "pg \<Rightarrow> env \<Rightarrow> identity \<Rightarrow> db \<Rightarrow> bool" where
  "first_visit g e i d \<longleftrightarrow> \<not> list_ex (is_identity (id_provider i) (id_subject i)) (identities d)
    \<and> (\<forall>v \<in> set (users d). \<not> (id_email_verified i \<and> email_verified v \<and> same_email g (email v) (id_email i)))
    \<and> row_id e UsersTable \<notin> user_id ` set (users d) \<and> row_id e IdentitiesTable \<notin> identity_id ` set (identities d)"

text \<open>The identity a token of the test provider asserts, and the tokens that are accepted.\<close>

definition asserted_by :: "string \<Rightarrow> token_claims \<Rightarrow> identity" where
  "asserted_by name t = \<lparr>id_provider = name, id_subject = tok_subject t, id_email = trim_space (tok_email t),
     id_email_verified = tok_email_verified t, id_name = trim_space (tok_name t), id_picture = tok_picture t\<rparr>"

definition good_token :: "test_issuer \<Rightarrow> string \<Rightarrow> nanos \<Rightarrow> token_claims \<Rightarrow> bool" where
  "good_token i client now t \<longleftrightarrow> utf8_token t \<and> issuer_matches (iss_url i) (tok_issuer t) \<and> tok_audience t = client
    \<and> now \<le> tok_expiry t div second * second \<and> tok_nonce t \<noteq> [] \<and> tok_subject t \<noteq> []"

lemma redeemed_token:
  assumes "libraries_agree sl ol i" and "new_exchanger ol [client_of i name client secret] = Inr ex"
    and "issue_code i t verifier random = (Some code, i1)" and "sign sl i t = Some raw" and "good_token i client now t"
  shows "exchange ol (posted_to sl i1) ex now \<lparr>req_provider = name, req_code = code, req_code_verifier = verifier,
      req_redirect_uri = uri, req_nonce = tok_nonce t\<rparr> = Inr (asserted_by name t)"
  using exchange_at_test_provider [OF assms(1-4)] verify_signed [OF assms(1) _ assms(4) client_exchanger(1) [OF assms(1,2)]] assms(5)
  by (simp add: good_token_def asserted_by_def)

text \<open>
  C19. A first visit, from end to end. When no statement fails and the drawn ids and secrets are
  new, a request that posts the code, the PKCE verifier and the nonce of a good token of the
  configured provider is answered 200 with an account that has the address the token asserts;
  and the access token of that answer, presented to GetMe within its fifteen minutes and after
  any calls in between, is answered 200 with the same account and address.
\<close>

theorem first_visit_signs_in:
  assumes "libraries_agree sl (pf_oidc p) i" and "new_exchanger (pf_oidc p) [client_of i name client secret] = Inr (srv_exchanger s)"
    and "issue_code i t verifier random = (Some code, i1)" and "sign sl i t = Some raw" and "pf_oauth p = posted_to sl i1"
    and "good_token i client (go_now e VerifyClock) t" and "verifier \<noteq> []" and "uri \<noteq> []"
    and "read_callback_body (request_body r)
      = Some \<lparr>body_code = code, body_code_verifier = verifier, body_nonce = tok_nonce t, body_redirect_uri = uri\<rparr>"
    and "faultless e" and "libs_documented (pf_libs p)" and "fresh_draws e rand d" and "accounts_wf (pf_pg p) d"
    and "first_visit (pf_pg p) e (asserted_by name t) d" and "pf_email_marshals p (trim_space (tok_email t))"
    and "0 < (go_now e AccessClock + access_token_ttl) div second"
    and "go_now e' ParseClock div second < (go_now e AccessClock + access_token_ttl) div second" and "fault_at e' GetUserByID = NoFault"
  shows "\<exists>b m. resp_status (out_response (auth_callback p s e name r d)) = Some 200
    \<and> resp_body (out_response (auth_callback p s e name r d)) = Some (SessionBody b)
    \<and> api_email (api_session_user b) = trim_space (tok_email t)
    \<and> resp_status (out_response (get_me p s e' (r'\<lparr>authorization := ''Bearer '' @ api_access_token b\<rparr>)
        (run_steps (server_step p x s) as (out_db (auth_callback p s e name r d))))) = Some 200
    \<and> resp_body (out_response (get_me p s e' (r'\<lparr>authorization := ''Bearer '' @ api_access_token b\<rparr>)
        (run_steps (server_step p x s) as (out_db (auth_callback p s e name r d))))) = Some (UserBody m)
    \<and> api_id m = api_id (api_session_user b) \<and> api_email m = trim_space (tok_email t)"
proof -
  let ?i = "asserted_by name t" and ?cb = "auth_callback p s e name r d"
  have "code \<noteq> []" using assms(3) by (auto simp: issue_code_def Let_def split: option.splits)
  then have cb: "?cb = complete_sign_in p s e name r ?i d"
    using redeemed_token [OF assms(1-4,6), of uri] assms(5,6,7,8,9) by (simp add: auth_callback_def good_token_def)
  obtain u logs d1 where pr: "provision (pf_pg p) (pf_libs p) e ?i d = (Inr u, logs, d1)" and "email u = id_email ?i"
    using first_sign_in_creates [OF assms(10), of ?i d "pf_pg p" "pf_libs p"] assms(14) unfolding first_visit_def by blast
  then have mail: "email u = trim_space (tok_email t)" by (simp add: asserted_by_def)
  have ok: "resp_status (out_response (complete_sign_in p s e name r ?i d)) = Some 200"
    by (rule faultless_sign_in [OF assms(10-13) pr])
  from ok obtain user logs' d1' d2 ses where pr': "provision (pf_pg p) (pf_libs p) e ?i d = (Inr user, logs', d1')"
    and rv: "if refresh_cookie r = [] then d2 = d1' else revoke_by_token e (refresh_cookie r) d1' = (Inr (), d2)"
    and iss: "issue (pf_libs p) (srv_tokens s) e (user_id user) d2 = (Inr ses, out_db (complete_sign_in p s e name r ?i d))"
    and body: "resp_body (out_response (complete_sign_in p s e name r ?i d)) = (if pf_email_marshals p (email user) then
       Some (SessionBody \<lparr>api_access_token = access_jwt (session_access ses),
         api_expires_in = round_seconds (access_expires_at (session_access ses) - go_now e BodyClock),
         api_session_user = api_user_of user\<rparr>) else None)" by (rule complete_sign_in_200)
  have user: "user = u" using pr pr' by simp
  note st = complete_sign_in_state [OF pr' assms(13) rv iss]
  let ?d = "run_steps (server_step p x s) as (out_db ?cb)"
  have wf: "accounts_wf (pf_pg p) ?d" unfolding cb by (rule account.inv_run [OF st(3)]) simp
  have live: "user_core user \<in> user_core ` set (users ?d)"
    unfolding cb by (rule account.stable_run [OF st(3)]) (use st(1) in simp_all)
  obtain v where "user_core v = user_core user"
    "resp_status (out_response (get_me p s e' (r'\<lparr>authorization := ''Bearer '' @ access_jwt (session_access ses)\<rparr>) ?d)) = Some 200"
    "resp_body (out_response (get_me p s e' (r'\<lparr>authorization := ''Bearer '' @ access_jwt (session_access ses)\<rparr>) ?d))
      = (if pf_email_marshals p (email user) then Some (UserBody (api_user_of v)) else None)"
    by (rule get_me_own_token [OF assms(11) wf live st(2,4) assms(16-18), of "r'\<lparr>authorization := ''Bearer '' @ access_jwt (session_access ses)\<rparr>"])
      simp_all
  then show ?thesis
    using ok cb body user mail assms(15) by (auto simp: api_user_of_def user_core_def)
qed

section \<open>A first visit in full\<close>

text \<open>The user of \<open>kari_token\<close> arrives, 20 microseconds into the hour of the token.\<close>

definition kari_platform :: platform where
  "kari_platform = sample_platform\<lparr>pf_oidc := agreeing_oidc test_provider, pf_oauth := posted_to agreeing_signing sample_issued\<rparr>"

definition kari_callback :: request where
  "kari_callback = \<lparr>request_cookies = [], authorization = [],
     request_body = json_write (posted_callback ''code-AAAAAAAAAAAAAAAAAAAAAA'' ''verifier'' ''test-nonce'' ''https://app'')\<rparr>"

lemma sample_code_text: "sample_code = ''code-AAAAAAAAAAAAAAAAAAAAAA''"
  unfolding sample_code_def by code_simp

lemma kari_callback_body: "read_callback_body (request_body kari_callback)
    = Some \<lparr>body_code = sample_code, body_code_verifier = ''verifier'', body_nonce = ''test-nonce'', body_redirect_uri = ''https://app''\<rparr>"
proof -
  have size: "length (json_write (posted_callback ''code-AAAAAAAAAAAAAAAAAAAAAA'' ''verifier'' ''test-nonce'' ''https://app'')) \<le> max_auth_body"
    by code_simp
  have ascii: "list_all utf8_valid [''code-AAAAAAAAAAAAAAAAAAAAAA'', ''verifier'', ''test-nonce'', ''https://app'']"
    unfolding list_all_iff by (intro ballI utf8_valid_ascii) (auto simp: byte_def)
  show ?thesis using posted_callback_reads [OF ascii size] by (simp add: kari_callback_def sample_code_text)
qed

theorem first_visit_signs_in_witness:
  "\<exists>(ex :: exchanger) b m. new_exchanger (agreeing_oidc test_provider) [client_of test_provider ''test'' ''client'' ''s''] = Inr ex
    \<and> resp_body (out_response (auth_callback kari_platform (sample_server ex) arrival ''test'' kari_callback start_db)) = Some (SessionBody b)
    \<and> resp_body (out_response (get_me kari_platform (sample_server ex) (calm_env 30 1 7)
        (bare_request\<lparr>authorization := ''Bearer '' @ api_access_token b\<rparr>)
        (out_db (auth_callback kari_platform (sample_server ex) arrival ''test'' kari_callback start_db)))) = Some (UserBody m)
    \<and> api_email m = ''kari.nordmann@example.no''"
proof -
  obtain ex where ex: "new_exchanger (agreeing_oidc test_provider) [client_of test_provider ''test'' ''client'' ''s''] = Inr ex"
    by (rule kari_exchanger)
  obtain raw where raw: "sign agreeing_signing test_provider kari_token = Some raw" by (rule kari_signed)
  have p: "pf_oidc kari_platform = agreeing_oidc test_provider" "pf_oauth kari_platform = posted_to agreeing_signing sample_issued"
    "pf_libs kari_platform = reference_libs" "pf_pg kari_platform = sample_pg" "pf_email_marshals kari_platform = (\<lambda>_. True)"
    by (simp_all add: kari_platform_def)
  have t: "tok_nonce kari_token = ''test-nonce''" "tok_email kari_token = ''kari.nordmann@example.no''"
    by (simp_all add: kari_token_def valid_token_def)
  have good: "good_token test_provider ''client'' (go_now arrival VerifyClock) kari_token"
    using kari_utf8 by (simp add: good_token_def kari_token_def valid_token_def issuer_matches_def test_provider_def
        hour_def second_def minute_def)
  have wf: "accounts_wf sample_pg start_db" by (simp add: accounts_wf_def verified_emails_def sample_db_def sample_user_def)
  have other: "\<not> same_email sample_pg ''ada@example.org'' ''kari.nordmann@example.no''" unfolding same_email_def sample_pg_def by code_simp
  have new: "first_visit sample_pg arrival (asserted_by ''test'' kari_token) start_db"
    using other by (simp add: first_visit_def sample_db_def sample_user_def asserted_by_def t kari_trims)
  show ?thesis
    using first_visit_signs_in [of agreeing_signing kari_platform test_provider "''test''" "''client''" "''s''" "sample_server ex" kari_token
        "''verifier''" "Some (\<lambda>_. 0)" sample_code sample_issued raw arrival "''https://app''" kari_callback "\<lambda>_. 0" start_db
        "calm_env 30 1 7" bare_request reference_chi "[]"] ex libraries_do_agree sample_issue raw good kari_callback_body sample_fresh wf new reference_libs_documented
    by (fastforce simp: p t kari_trims access_token_ttl_def minute_def second_def)
qed

end
