(* ===== verification/Wire.thy ===== *)
theory Wire
  imports Http Json_Write
begin

text \<open>
  The bytes of a response body: the JSON documents the generated structs of
  internal/transport/http/openapi/openapi.gen.go encode to, members in the order of the fields,
  those with omitempty left out when nil. A time is written as RFC 3339 in the local zone;
  \<open>zone t\<close> is its offset from UTC in minutes at \<open>t\<close>.
\<close>

section \<open>Times (time.Time's MarshalJSON)\<close>

primrec pad :: "nat \<Rightarrow> nat \<Rightarrow> string" where
  "pad 0 n = []"
| "pad (Suc k) n = pad k (n div 10) @ [char_of (48 + n mod 10)]"

text \<open>
  Year, month and day of a day counted from 1970-01-01. Inside, years begin with March and are
  counted in eras of 400; \<open>doe\<close>, \<open>yoe\<close> and \<open>doy\<close> are the day and the year of the era and the day of
  the year.
\<close>

definition year_of_era :: "int \<Rightarrow> int" where
  "year_of_era doe = (doe - doe div 1460 + doe div 36524 - doe div 146096) div 365"

definition civil_month :: "int \<Rightarrow> int \<Rightarrow> int \<Rightarrow> int \<times> nat \<times> nat" where
  "civil_month year doy mp =
    (if mp < 10 then (year, nat (mp + 3), nat (doy - (153 * mp + 2) div 5 + 1))
     else (year + 1, nat (mp - 9), nat (doy - (153 * mp + 2) div 5 + 1)))"

definition civil_year :: "int \<Rightarrow> int \<Rightarrow> int \<times> nat \<times> nat" where
  "civil_year year doy = civil_month year doy ((5 * doy + 2) div 153)"

definition civil_era :: "int \<Rightarrow> int \<Rightarrow> int \<Rightarrow> int \<times> nat \<times> nat" where
  "civil_era era doe yoe = civil_year (yoe + era * 400) (doe - (365 * yoe + yoe div 4 - yoe div 100))"

definition civil :: "int \<Rightarrow> int \<times> nat \<times> nat" where
  "civil d = civil_era ((d + 719468) div 146097) ((d + 719468) mod 146097) (year_of_era ((d + 719468) mod 146097))"

definition fraction :: "nat \<Rightarrow> string" where
  "fraction micros = (if micros = 0 then [] else CHR ''.'' # rev (dropWhile (\<lambda>c. c = CHR ''0'') (rev (pad 6 micros))))"

definition offset_text :: "int \<Rightarrow> string" where
  "offset_text m = (if m = 0 then ''Z''
     else (if m < 0 then CHR ''-'' else CHR ''+'') # pad 2 (nat \<bar>m\<bar> div 60) @ CHR '':'' # pad 2 (nat \<bar>m\<bar> mod 60))"

definition rfc3339 :: "int \<Rightarrow> micros \<Rightarrow> string" where
  "rfc3339 m t =
    (let local = t + m * 60000000; secs = local div 1000000; (year, month, day) = civil (secs div 86400); s = nat (secs mod 86400)
     in pad 4 (nat year) @ CHR ''-'' # pad 2 month @ CHR ''-'' # pad 2 day @ CHR ''T'' # pad 2 (s div 3600)
        @ CHR '':'' # pad 2 (s div 60 mod 60) @ CHR '':'' # pad 2 (s mod 60) @ fraction (nat (local mod 1000000)) @ offset_text m)"

section \<open>The documents\<close>

definition omit_empty :: "string \<Rightarrow> string option \<Rightarrow> (string \<times> json) list" where
  "omit_empty k v = (case v of None \<Rightarrow> [] | Some s \<Rightarrow> [(k, JString s)])"

definition user_json :: "libs \<Rightarrow> (micros \<Rightarrow> int) \<Rightarrow> api_user \<Rightarrow> json" where
  "user_json L zone u = JObject (omit_empty ''avatar_url'' (api_avatar_url u)
     @ [(''created_at'', JString (rfc3339 (zone (api_created_at u)) (api_created_at u))),
        (''display_name'', JString (api_display_name u)), (''email'', JString (api_email u)),
        (''id'', JString (uuid_string L (api_id u)))])"

definition session_json :: "libs \<Rightarrow> (micros \<Rightarrow> int) \<Rightarrow> api_session \<Rightarrow> json" where
  "session_json L zone b = JObject [(''access_token'', JString (api_access_token b)),
     (''expires_in'', JNumber (decimal (api_expires_in b))), (''user'', user_json L zone (api_session_user b))]"

definition problem_json :: "problem \<Rightarrow> json" where
  "problem_json b = JObject (omit_empty ''detail'' (problem_detail b) @ omit_empty ''instance'' (problem_instance b)
     @ [(''status'', JNumber (decimal (problem_status b))), (''title'', JString (problem_title b))]
     @ omit_empty ''type'' (problem_type b))"

definition health_json :: "string \<Rightarrow> json" where
  "health_json s = JObject [(''status'', JString s)]"

text \<open>Encoder.Encode ends every document with a newline; http.Error writes its text as it is.\<close>

fun body_bytes :: "libs \<Rightarrow> (micros \<Rightarrow> int) \<Rightarrow> body \<Rightarrow> string" where
  "body_bytes L zone (ProblemBody b) = json_write (problem_json b) @ [CHR 0x0A]"
| "body_bytes L zone (SessionBody b) = json_write (session_json L zone b) @ [CHR 0x0A]"
| "body_bytes L zone (UserBody b) = json_write (user_json L zone b) @ [CHR 0x0A]"
| "body_bytes L zone (HealthBody s) = json_write (health_json s) @ [CHR 0x0A]"
| "body_bytes L zone (TextBody s) = s"

section \<open>Facts\<close>

text \<open>Leap days, the ends of years and days before 1970.\<close>

lemma civil_samples:
  "civil 0 = (1970, 1, 1)" "civil (- 1) = (1969, 12, 31)" "civil 11016 = (2000, 2, 29)" "civil 19782 = (2024, 2, 29)"
  "civil 19783 = (2024, 3, 1)" "civil 47540 = (2100, 2, 28)" "civil 47541 = (2100, 3, 1)"
  by (simp_all add: civil_def civil_era_def civil_year_def civil_month_def year_of_era_def)

text \<open>The digits, and padding evaluated.\<close>

lemma digit_chars:
  "char_of (48 :: nat) = CHR ''0''" "char_of (49 :: nat) = CHR ''1''" "char_of (50 :: nat) = CHR ''2''" "char_of (51 :: nat) = CHR ''3''"
  "char_of (52 :: nat) = CHR ''4''" "char_of (53 :: nat) = CHR ''5''" "char_of (54 :: nat) = CHR ''6''" "char_of (55 :: nat) = CHR ''7''"
  "char_of (56 :: nat) = CHR ''8''" "char_of (57 :: nat) = CHR ''9''"
  using char_of_byte [of "CHR ''0''"] char_of_byte [of "CHR ''1''"] char_of_byte [of "CHR ''2''"] char_of_byte [of "CHR ''3''"]
    char_of_byte [of "CHR ''4''"] char_of_byte [of "CHR ''5''"] char_of_byte [of "CHR ''6''"] char_of_byte [of "CHR ''7''"]
    char_of_byte [of "CHR ''8''"] char_of_byte [of "CHR ''9''"]
  by (simp_all add: byte_def)

lemma pad_numeral: "pad (numeral k) n = pad (pred_numeral k) (n div 10) @ [char_of (48 + n mod 10)]" "pad 1 n = [char_of (48 + n mod 10)]"
  by (simp_all only: numeral_eq_Suc [of k] One_nat_def pad.simps append_Nil)

lemma time_text_samples:
  "pad 4 987 = ''0987''" "fraction 123400 = ''.1234''" "fraction 7 = ''.000007''" "fraction 0 = []"
  "offset_text 0 = ''Z''" "offset_text 120 = ''+02:00''" "offset_text (- 210) = ''-03:30''"
  by (simp_all add: fraction_def offset_text_def pad_numeral digit_chars)

lemma pad_ascii: "c \<in> set (pad k n) \<Longrightarrow> byte c < 0x80"
  by (induction k arbitrary: n) auto

lemma rfc3339_ascii: "utf8_valid (rfc3339 m t)"
proof (rule utf8_valid_ascii)
  have f: "byte c < 0x80" if "c \<in> set (fraction n)" for c n
  proof -
    have "set (rev (dropWhile (\<lambda>c. c = CHR ''0'') (rev (pad 6 n)))) \<subseteq> set (pad 6 n)"
      by (auto dest: set_dropWhileD)
    then have "c = CHR ''.'' \<or> c \<in> set (pad 6 n)" using that by (auto simp: fraction_def split: if_splits)
    then show ?thesis using pad_ascii by (auto simp: byte_def)
  qed
  have o: "byte c < 0x80" if "c \<in> set (offset_text m)" for c
  proof -
    have "c \<in> {CHR ''Z'', CHR ''-'', CHR ''+'', CHR '':''} \<or> (\<exists>n. c \<in> set (pad 2 n))"
      using that by (auto simp: offset_text_def split: if_splits)
    then show ?thesis using pad_ascii by (auto simp: byte_def)
  qed
  have "c \<in> {CHR ''-'', CHR '':'', CHR ''T''} \<or> (\<exists>k n. c \<in> set (pad k n)) \<or> (\<exists>n. c \<in> set (fraction n)) \<or> c \<in> set (offset_text m)"
    if "c \<in> set (rfc3339 m t)" for c
    using that by (auto simp: rfc3339_def Let_def split: prod.splits)
  then show "\<forall>c \<in> set (rfc3339 m t). byte c < 0x80" using pad_ascii f o by (fastforce simp: byte_def)
qed

lemma user_json_plain:
  assumes "utf8_valid (api_display_name u)" and "utf8_valid (api_email u)" and "utf8_valid (uuid_string L (api_id u))"
    and "\<forall>a. api_avatar_url u = Some a \<longrightarrow> utf8_valid a"
  shows "json_plain (user_json L zone u)" and "json_depth (user_json L zone u) = 1"
proof -
  have keys: "utf8_valid ''avatar_url''" "utf8_valid ''created_at''" "utf8_valid ''display_name''" "utf8_valid ''email''" "utf8_valid ''id''"
    by (rule utf8_valid_ascii, simp add: byte_def)+
  show "json_plain (user_json L zone u)"
    using assms keys rfc3339_ascii by (auto simp: user_json_def omit_empty_def split: option.split)
  show "json_depth (user_json L zone u) = 1" by (simp add: user_json_def omit_empty_def split: option.split)
qed

lemma session_json_plain:
  assumes "json_plain (user_json L zone (api_session_user b))" and "json_depth (user_json L zone (api_session_user b)) = 1"
    and "utf8_valid (api_access_token b)"
  shows "json_plain (session_json L zone b)" and "json_depth (session_json L zone b) = 2"
proof -
  have keys: "utf8_valid ''access_token''" "utf8_valid ''expires_in''" "utf8_valid ''user''"
    by (rule utf8_valid_ascii, simp add: byte_def)+
  show "json_plain (session_json L zone b)" using assms(1,3) keys by (auto simp: session_json_def)
  show "json_depth (session_json L zone b) = 2" using assms(2) by (simp add: session_json_def)
qed

text \<open>Reading one document with the newline after it.\<close>

lemma document_reads_back:
  assumes "json_plain v" and "json_depth v \<le> 10000"
  shows "json_unmarshal (json_write v @ [CHR 0x0A]) = Some v"
  by (rule json_write_decode(2)) (use assms in \<open>simp_all add: number_ends_def is_digit_def byte_def skip_ws_def is_ws_def\<close>)

text \<open>The other two documents.\<close>

lemma problem_body_reads_back:
  assumes "utf8_valid (problem_title b)"
    and "\<forall>s. problem_detail b = Some s \<or> problem_instance b = Some s \<or> problem_type b = Some s \<longrightarrow> utf8_valid s"
  shows "json_unmarshal (body_bytes L zone (ProblemBody b)) = Some (problem_json b)"
proof -
  have keys: "utf8_valid ''detail''" "utf8_valid ''instance''" "utf8_valid ''status''" "utf8_valid ''title''" "utf8_valid ''type''"
    by (rule utf8_valid_ascii, simp add: byte_def)+
  have "json_plain (problem_json b)" using assms keys by (auto simp: problem_json_def omit_empty_def split: option.splits)
  moreover have "json_depth (problem_json b) = 1" by (simp add: problem_json_def omit_empty_def split: option.split)
  ultimately show ?thesis using document_reads_back [of "problem_json b"] by simp
qed

lemma health_body_reads_back: "json_unmarshal (body_bytes L zone (HealthBody health_status_ok)) = Some (JObject [(''status'', JString ''ok'')])"
proof -
  have "utf8_valid ''status''" "utf8_valid ''ok''" by (rule utf8_valid_ascii, simp add: byte_def)+
  then show ?thesis using document_reads_back [of "health_json health_status_ok"] by (simp add: health_json_def health_status_ok_def)
qed

section \<open>The property\<close>

text \<open>
  C20. What a client reads. A client that decodes the body of a session reads the access token,
  the lifetime and the account the server meant, byte for byte, for any valid UTF-8; the avatar
  is a member exactly when the account has one.
\<close>

theorem session_body_reads_back:
  assumes "utf8_valid (api_access_token b)" and "api_session_user b = u" and "utf8_valid (api_display_name u)" and "utf8_valid (api_email u)"
    and "utf8_valid (uuid_string L (api_id u))" and "\<forall>a. api_avatar_url u = Some a \<longrightarrow> utf8_valid a"
  shows "\<exists>ms us. json_unmarshal (body_bytes L zone (SessionBody b)) = Some (JObject ms)
    \<and> string_field ''access_token'' ms [] = Some (api_access_token b)
    \<and> map_of ms ''expires_in'' = Some (JNumber (decimal (api_expires_in b)))
    \<and> map_of ms ''user'' = Some (JObject us)
    \<and> string_field ''id'' us [] = Some (uuid_string L (api_id u)) \<and> string_field ''email'' us [] = Some (api_email u)
    \<and> string_field ''display_name'' us [] = Some (api_display_name u)
    \<and> string_field ''created_at'' us [] = Some (rfc3339 (zone (api_created_at u)) (api_created_at u))
    \<and> map_of us ''avatar_url'' = map_option JString (api_avatar_url u)"
proof -
  note plain = user_json_plain [OF assms(3-6), of zone]
  note s = session_json_plain [of L zone b, unfolded assms(2), OF plain assms(1)]
  have doc: "json_unmarshal (body_bytes L zone (SessionBody b)) = Some (session_json L zone b)"
    using document_reads_back [OF s(1)] s(2) by simp
  let ?us = "omit_empty ''avatar_url'' (api_avatar_url u)
     @ [(''created_at'', JString (rfc3339 (zone (api_created_at u)) (api_created_at u))),
        (''display_name'', JString (api_display_name u)), (''email'', JString (api_email u)),
        (''id'', JString (uuid_string L (api_id u)))]"
  let ?ms = "[(''access_token'', JString (api_access_token b)), (''expires_in'', JNumber (decimal (api_expires_in b))),
     (''user'', JObject ?us)]"
  have "session_json L zone b = JObject ?ms" by (simp add: session_json_def user_json_def assms(2))
  moreover have "string_field ''access_token'' ?ms [] = Some (api_access_token b)" by (simp add: fold_name_def lower_byte_def)
  moreover have "string_field ''id'' ?us [] = Some (uuid_string L (api_id u))" "string_field ''email'' ?us [] = Some (api_email u)"
    "string_field ''display_name'' ?us [] = Some (api_display_name u)"
    "string_field ''created_at'' ?us [] = Some (rfc3339 (zone (api_created_at u)) (api_created_at u))"
    by (simp_all add: omit_empty_def fold_name_def lower_byte_def split: option.split)
  moreover have "map_of ?us ''avatar_url'' = map_option JString (api_avatar_url u)" by (simp add: omit_empty_def split: option.split)
  ultimately show ?thesis using doc by (intro exI [of _ ?ms] exI [of _ ?us]) simp
qed

theorem session_body_reads_back_witness:
  "\<exists>ms us. json_unmarshal (body_bytes \<lparr>jwt = reference_jwt, uuid_string = (\<lambda>_. ''u''), uuid_parse = (\<lambda>_. None)\<rparr> (\<lambda>_. 60)
      (SessionBody \<lparr>api_access_token = ''jws'', api_expires_in = 900, api_session_user = \<lparr>api_avatar_url = None, api_created_at = 0,
        api_display_name = [char_of (0xC3 :: nat), char_of (0x85 :: nat), CHR ''<''], api_email = ''a@b'', api_id = 1\<rparr>\<rparr>)) = Some (JObject ms)
    \<and> string_field ''access_token'' ms [] = Some ''jws'' \<and> map_of ms ''expires_in'' = Some (JNumber (decimal 900))
    \<and> map_of ms ''user'' = Some (JObject us)
    \<and> string_field ''display_name'' us [] = Some [char_of (0xC3 :: nat), char_of (0x85 :: nat), CHR ''<'']"
proof -
  have ascii: "utf8_valid ''jws''" "utf8_valid ''u''" "utf8_valid ''a@b''" "utf8_valid ''<''"
    by (rule utf8_valid_ascii, simp add: byte_def)+
  have "utf8_valid [char_of (0xC3 :: nat), char_of (0x85 :: nat), CHR ''<'']"
    using ascii(4) by (simp add: utf8_valid.simps [of "_ # _ # _"] utf8_size_def is_cont_def)
  then show ?thesis
    using session_body_reads_back [of "\<lparr>api_access_token = ''jws'', api_expires_in = 900, api_session_user = \<lparr>api_avatar_url = None, api_created_at = 0,
        api_display_name = [char_of (0xC3 :: nat), char_of (0x85 :: nat), CHR ''<''], api_email = ''a@b'', api_id = 1\<rparr>\<rparr>" _
        "\<lparr>jwt = reference_jwt, uuid_string = (\<lambda>_. ''u''), uuid_parse = (\<lambda>_. None)\<rparr>" "\<lambda>_. 60", OF _ refl] ascii
    by fastforce
qed

end
