(* ===== verification/Join_Races.thy ===== *)
theory Join_Races
  imports Accounts
begin

text \<open>
  Sign-ins at the same time (internal/auth/accounts.go over internal/store/accounts.sql.go).
  Accounts treats a Provision as one step; here its statements interleave with those of other
  connections, as Postgres runs them under READ COMMITTED: every statement sees what is
  committed when it starts and what its own transaction wrote; an INSERT whose unique key an
  open transaction has inserted waits for that transaction, and fails if it commits; a profile
  UPDATE locks its row until the end. Any transaction may be rolled back at any point, by an error
  (a violated key among them) or a lost connection.
\<close>

section \<open>Transactions\<close>

text \<open>
  Where a provisioning stands. \<open>Refreshing i u rs\<close> has the user \<open>u\<close> it read and the identity row it
  may have inserted; \<open>Ready i u us rs upd\<close> has everything to commit: the user and the identity row
  it inserted, if any, and the time of its profile update, if any.
\<close>

datatype worker =
    Free
  | Looking identity
  | Unknown identity
  | Decided identity "user_row option"
  | Opened identity user_row
  | Refreshing identity user_row "identity_row list"
  | Ready identity user_row "user_row list" "identity_row list" "micros option"

datatype how = Returned | Joined | Created

record join_state =
  base :: db
  workers :: "nat \<Rightarrow> worker"
  joins :: "(identity \<times> user_row \<times> how) list"  \<comment> \<open>the committed sign-ins\<close>

fun pending_users :: "worker \<Rightarrow> user_row list" where
  "pending_users (Opened i u) = [u]"
| "pending_users (Ready i u us rs upd) = us"
| "pending_users Free = []"
| "pending_users (Looking i) = []"
| "pending_users (Unknown i) = []"
| "pending_users (Decided i c) = []"
| "pending_users (Refreshing i u rs) = []"

fun pending_identities :: "worker \<Rightarrow> identity_row list" where
  "pending_identities (Refreshing i u rs) = rs"
| "pending_identities (Ready i u us rs upd) = rs"
| "pending_identities Free = []"
| "pending_identities (Looking i) = []"
| "pending_identities (Unknown i) = []"
| "pending_identities (Decided i c) = []"
| "pending_identities (Opened i u) = []"

fun locks :: "worker \<Rightarrow> uuid set" where
  "locks (Ready i u us rs (Some now)) = {user_id u}"
| "locks w = {}"

definition set_worker :: "nat \<Rightarrow> worker \<Rightarrow> join_state \<Rightarrow> join_state" where
  "set_worker t w s = s\<lparr>workers := (workers s)(t := w)\<rparr>"

definition inserting :: "db \<Rightarrow> user_row list \<Rightarrow> identity_row list \<Rightarrow> db" where
  "inserting d us rs = d\<lparr>users := users d @ us, identities := identities d @ rs\<rparr>"

text \<open>Two sets of inserted rows that no unique key sets against each other.\<close>

definition verified_of :: "pg \<Rightarrow> user_row list \<Rightarrow> string set" where
  "verified_of g us = (\<lambda>u. citext_fold g (email u)) ` {u \<in> set us. email_verified u}"

definition compatible :: "pg \<Rightarrow> user_row list \<Rightarrow> identity_row list \<Rightarrow> user_row list \<Rightarrow> identity_row list \<Rightarrow> bool" where
  "compatible g us rs us' rs' \<longleftrightarrow> user_id ` set us \<inter> user_id ` set us' = {}
    \<and> verified_of g us \<inter> verified_of g us' = {}
    \<and> identity_id ` set rs \<inter> identity_id ` set rs' = {} \<and> identity_key ` set rs \<inter> identity_key ` set rs' = {}"

definition unclaimed :: "pg \<Rightarrow> join_state \<Rightarrow> nat \<Rightarrow> user_row list \<Rightarrow> identity_row list \<Rightarrow> bool" where
  "unclaimed g s t us rs \<longleftrightarrow> (\<forall>t'. t' \<noteq> t \<longrightarrow>
     compatible g us rs (pending_users (workers s t')) (pending_identities (workers s t')))"

section \<open>The steps\<close>

definition identity_params :: "identity \<Rightarrow> user_row \<Rightarrow> create_identity_params" where
  "identity_params i u = \<lparr>link_user = user_id u, link_provider = id_provider i, link_subject = id_subject i\<rparr>"

definition user_params :: "identity \<Rightarrow> create_user_params" where
  "user_params i = \<lparr>new_display_name = display_name_of i, new_email = id_email i,
     new_email_verified = (id_email_verified i \<and> \<not> is_private_relay (id_email i)), new_avatar_url = optional (id_picture i)\<rparr>"

definition updated :: "identity \<Rightarrow> user_row \<Rightarrow> micros option \<Rightarrow> db \<Rightarrow> db" where
  "updated i u upd d = (case upd of None \<Rightarrow> d
     | Some now \<Rightarrow> snd (update_user_profile now (user_id u) (display_name_of i) (optional (id_picture i)) d))"

definition how_of :: "user_row list \<Rightarrow> identity_row list \<Rightarrow> how" where
  "how_of us rs = (if us \<noteq> [] then Created else if rs \<noteq> [] then Joined else Returned)"

inductive join_step :: "pg \<Rightarrow> join_state \<Rightarrow> join_state \<Rightarrow> bool" for g where
  begin_join: "workers s t = Free \<Longrightarrow> join_step g s (set_worker t (Looking i) s)"
| known: "workers s t = Looking i \<Longrightarrow> get_user_by_identity (id_provider i) (id_subject i) (base s) = Inr u \<Longrightarrow>
    join_step g s (set_worker t (Refreshing i u []) s)"
| unknown: "workers s t = Looking i \<Longrightarrow> get_user_by_identity (id_provider i) (id_subject i) (base s) = Inl NoRows \<Longrightarrow>
    join_step g s (set_worker t (Unknown i) s)"
| decide: "workers s t = Unknown i \<Longrightarrow> link_target g e i \<lparr>world_db = base s, world_log = l\<rparr> = (Inr c, w) \<Longrightarrow>
    join_step g s (set_worker t (Decided i c) s)"
| open_account: "workers s t = Decided i None \<Longrightarrow> create_user g now k (user_params i) (base s) = (Inr u, d') \<Longrightarrow>
    unclaimed g s t [u] [] \<Longrightarrow> join_step g s (set_worker t (Opened i u) s)"
| first_identity: "workers s t = Opened i u \<Longrightarrow> create_identity now k (identity_params i u) (inserting (base s) [u] []) = (Inr r, d') \<Longrightarrow>
    unclaimed g s t [u] [r] \<Longrightarrow> join_step g s (set_worker t (Ready i u [u] [r] None) s)"
| link_identity: "workers s t = Decided i (Some u) \<Longrightarrow> create_identity now k (identity_params i u) (base s) = (Inr r, d') \<Longrightarrow>
    unclaimed g s t [] [r] \<Longrightarrow> join_step g s (set_worker t (Refreshing i u [r]) s)"
| keep_profile: "workers s t = Refreshing i u rs \<Longrightarrow> profile_current i u \<Longrightarrow>
    join_step g s (set_worker t (Ready i u [] rs None) s)"
| update_profile: "workers s t = Refreshing i u rs \<Longrightarrow> \<not> profile_current i u \<Longrightarrow>
    update_user_profile now (user_id u) (display_name_of i) (optional (id_picture i)) (base s) = (Inr v, d') \<Longrightarrow>
    \<forall>t'. t' \<noteq> t \<longrightarrow> user_id u \<notin> locks (workers s t') \<Longrightarrow>
    join_step g s (set_worker t (Ready i v [] rs (Some now)) s)"
| commit_join: "workers s t = Ready i u us rs upd \<Longrightarrow>
    join_step g s (set_worker t Free (s\<lparr>base := inserting (updated i u upd (base s)) us rs, joins := joins s @ [(i, u, how_of us rs)]\<rparr>))"
| roll_back: "join_step g s (set_worker t Free s)"

section \<open>The invariant\<close>

text \<open>The rule a link obeyed still holds of the account, whatever its profile says by now.\<close>

definition linkable :: "pg \<Rightarrow> db \<Rightarrow> identity \<Rightarrow> uuid \<Rightarrow> bool" where
  "linkable g d i k \<longleftrightarrow> (\<exists>v \<in> set (users d). user_id v = k \<and> may_link g i v)"

definition owner_row :: "identity_row list \<Rightarrow> identity \<Rightarrow> uuid \<Rightarrow> bool" where
  "owner_row rs i k \<longleftrightarrow> (\<exists>r \<in> set rs. identity_key r = (id_provider i, id_subject i) \<and> identity_user r = k)"

fun claims :: "pg \<Rightarrow> db \<Rightarrow> worker \<Rightarrow> bool" where
  "claims g d (Decided i (Some u)) = linkable g d i (user_id u)"
| "claims g d (Refreshing i u rs) = (owner_row (identities d @ rs) i (user_id u) \<and> (rs \<noteq> [] \<longrightarrow> linkable g d i (user_id u)))"
| "claims g d (Ready i u us rs upd) = (owner_row (identities d @ rs) i (user_id u)
     \<and> (us = [] \<and> rs \<noteq> [] \<longrightarrow> linkable g d i (user_id u)))"
| "claims g d w = True"

definition worker_ok :: "pg \<Rightarrow> db \<Rightarrow> worker \<Rightarrow> bool" where
  "worker_ok g d w \<longleftrightarrow> accounts_wf g (inserting d (pending_users w) (pending_identities w)) \<and> claims g d w"

definition join_ok :: "pg \<Rightarrow> db \<Rightarrow> identity \<times> user_row \<times> how \<Rightarrow> bool" where
  "join_ok g d = (\<lambda>(i, u, h). owner_row (identities d) i (user_id u) \<and> (h = Joined \<longrightarrow> linkable g d i (user_id u)))"

definition joins_ok :: "pg \<Rightarrow> join_state \<Rightarrow> bool" where
  "joins_ok g s \<longleftrightarrow> accounts_wf g (base s) \<and> (\<forall>t. worker_ok g (base s) (workers s t))
    \<and> (\<forall>t. unclaimed g s t (pending_users (workers s t)) (pending_identities (workers s t)))
    \<and> (\<forall>j \<in> set (joins s). join_ok g (base s) j)"

section \<open>What changes leave alone\<close>

lemma inserting_simps [simp]:
  "users (inserting d us rs) = users d @ us" "identities (inserting d us rs) = identities d @ rs"
  "refresh_tokens (inserting d us rs) = refresh_tokens d" "inserting d [] [] = d"
  by (simp_all add: inserting_def)

lemma set_worker_simps [simp]:
  "base (set_worker t w s) = base s" "joins (set_worker t w s) = joins s"
  "workers (set_worker t w s) t' = (if t' = t then w else workers s t')"
  by (simp_all add: set_worker_def)

text \<open>The constraints and the link rule read nothing of a user but its core.\<close>

lemma core_parts:
  "map user_id us = map fst (map user_core us)"
  "map (\<lambda>u. citext_fold g (email u)) (filter email_verified us)
    = map (\<lambda>c. citext_fold g (fst (snd c))) (filter (\<lambda>c. fst (snd (snd c))) (map user_core us))"
  by (induction us) (simp_all add: user_core_def)

lemma wf_core:
  assumes "map user_core (users d) = map user_core (users d')" and "identities d = identities d'"
  shows "accounts_wf g d \<longleftrightarrow> accounts_wf g d'"
proof -
  have ids: "map user_id (users d) = map user_id (users d')" by (simp only: core_parts(1) assms(1))
  have "verified_emails g d = verified_emails g d'" by (simp only: verified_emails_def core_parts(2) assms(1))
  moreover have "user_id ` set (users d) = user_id ` set (users d')" using arg_cong [OF ids, of set] by simp
  ultimately show ?thesis by (simp add: accounts_wf_def ids assms(2))
qed

definition grows :: "db \<Rightarrow> db \<Rightarrow> bool" where
  "grows d d' \<longleftrightarrow> user_core ` set (users d) \<subseteq> user_core ` set (users d') \<and> set (identities d) \<subseteq> set (identities d')"

lemma linkable_grows:
  assumes "grows d d'" and "linkable g d i k"
  shows "linkable g d' i k"
proof -
  obtain v where v: "v \<in> set (users d)" "user_id v = k" "may_link g i v" using assms(2) by (auto simp: linkable_def)
  then obtain v' where "v' \<in> set (users d')" "user_core v = user_core v'" using assms(1) by (auto simp: grows_def)
  then show ?thesis using v by (auto simp: linkable_def may_link_def user_core_def)
qed

lemma owner_row_mono: "owner_row rs i k \<Longrightarrow> set rs \<subseteq> set rs' \<Longrightarrow> owner_row rs' i k"
  by (auto simp: owner_row_def)

lemma claims_grows:
  assumes "grows d d'" and "claims g d w"
  shows "claims g d' w"
proof -
  have more: "owner_row (identities d' @ rs) i k" if "owner_row (identities d @ rs) i k" for rs i k
    by (rule owner_row_mono [OF that]) (use assms(1) in \<open>auto simp: grows_def\<close>)
  note link = linkable_grows [OF assms(1)]
  show ?thesis
  proof (cases w)
    case (Decided i c)
    then show ?thesis using assms(2) link by (cases c) simp_all
  next
    case (Refreshing i u rs)
    then show ?thesis using assms(2) link more by simp
  next
    case (Ready i u us rs upd)
    then show ?thesis using assms(2) link more by simp
  qed simp_all
qed

lemma join_ok_grows: "grows d d' \<Longrightarrow> join_ok g d j \<Longrightarrow> join_ok g d' j"
  using linkable_grows [of d d' g] owner_row_mono by (fastforce simp: join_ok_def grows_def)

lemma updated_core [simp]:
  "map user_core (users (updated i u upd d)) = map user_core (users d)" "identities (updated i u upd d) = identities d"
proof -
  let ?s = "\<lambda>now. update_user_profile now (user_id u) (display_name_of i) (optional (id_picture i)) d"
  have "map user_core (users (snd (?s now))) = map user_core (users d) \<and> identities (snd (?s now)) = identities d" for now
  proof (cases "fst (?s now)")
    case (Inl err)
    then show ?thesis by (auto simp: update_user_profile_def split: option.splits)
  next
    case (Inr v)
    then have "?s now = (Inr v, snd (?s now))" by (metis prod.collapse)
    from update_profile_core [OF this] show ?thesis by simp
  qed
  then show "map user_core (users (updated i u upd d)) = map user_core (users d)" "identities (updated i u upd d) = identities d"
    by (simp_all add: updated_def split: option.split)
qed

section \<open>Rows of several transactions\<close>

lemma compatible_sym: "compatible g us rs us' rs' \<longleftrightarrow> compatible g us' rs' us rs"
  by (auto simp: compatible_def)

lemma compatible_none [simp]: "compatible g [] [] us rs" "compatible g us rs [] []"
  by (simp_all add: compatible_def verified_of_def)

lemma unclaimed_none [simp]: "unclaimed g s t [] []"
  by (simp add: unclaimed_def)

lemma wf_inserting:
  "accounts_wf g (inserting d us rs) \<longleftrightarrow> distinct (map user_id (users d) @ map user_id us)
    \<and> distinct (verified_emails g d @ map (\<lambda>u. citext_fold g (email u)) (filter email_verified us))
    \<and> distinct (map identity_id (identities d) @ map identity_id rs) \<and> distinct (map identity_key (identities d) @ map identity_key rs)
    \<and> (\<forall>i \<in> set (identities d) \<union> set rs. identity_user i \<in> user_id ` set (users d) \<union> user_id ` set us)"
  by (simp add: accounts_wf_def verified_emails_def image_Un ball_Un conj_assoc)

lemma distinct_append_both:
  "distinct (xs @ ys) \<Longrightarrow> distinct (xs @ zs) \<Longrightarrow> set ys \<inter> set zs = {} \<Longrightarrow> distinct ((xs @ ys) @ zs)"
  by auto

lemma references_both:
  "\<forall>i \<in> I \<union> R. f i \<in> A \<union> U \<Longrightarrow> \<forall>i \<in> I \<union> R'. f i \<in> A \<union> U' \<Longrightarrow> \<forall>i \<in> (I \<union> R) \<union> R'. f i \<in> (A \<union> U) \<union> U'"
  by blast

lemma wf_inserting_both:
  assumes "accounts_wf g (inserting d us rs)" and "accounts_wf g (inserting d us' rs')" and "compatible g us rs us' rs'"
  shows "accounts_wf g (inserting (inserting d us rs) us' rs')"
proof -
  have parts: "users (inserting d us rs) = users d @ us" "identities (inserting d us rs) = identities d @ rs"
    "verified_emails g (inserting d us rs) = verified_emails g d @ map (\<lambda>u. citext_fold g (email u)) (filter email_verified us)"
    by (simp_all add: verified_emails_def)
  note a = assms(1,2) [unfolded wf_inserting]
  have c: "set (map user_id us) \<inter> set (map user_id us') = {}" "set (map identity_id rs) \<inter> set (map identity_id rs') = {}"
    "set (map identity_key rs) \<inter> set (map identity_key rs') = {}"
    "set (map (\<lambda>u. citext_fold g (email u)) (filter email_verified us)) \<inter> set (map (\<lambda>u. citext_fold g (email u)) (filter email_verified us')) = {}"
    using assms(3) by (simp_all add: compatible_def verified_of_def)
  note both = distinct_append_both [OF _ _ c(1)] distinct_append_both [OF _ _ c(2)] distinct_append_both [OF _ _ c(3)] distinct_append_both [OF _ _ c(4)]
  have "\<forall>i \<in> set (identities d @ rs) \<union> set rs'. identity_user i \<in> user_id ` set (users d @ us) \<union> user_id ` set us'"
    unfolding set_append image_Un
    by (rule references_both [OF a(1) [THEN conjunct2, THEN conjunct2, THEN conjunct2, THEN conjunct2]
        a(2) [THEN conjunct2, THEN conjunct2, THEN conjunct2, THEN conjunct2]])
  then show ?thesis unfolding wf_inserting [of g "inserting d us rs"] parts map_append using a by (intro conjI both) simp_all
qed

text \<open>A step of one worker.\<close>

lemma set_worker_ok:
  assumes "joins_ok g s" and "worker_ok g (base s) w" and "unclaimed g s t (pending_users w) (pending_identities w)"
  shows "joins_ok g (set_worker t w s)"
  using assms by (auto simp: joins_ok_def unclaimed_def compatible_sym)

section \<open>Every step keeps the invariant\<close>

lemma linkable_of: "u \<in> set (users d) \<Longrightarrow> may_link g i u \<Longrightarrow> linkable g d i (user_id u)"
  by (auto simp: linkable_def)

lemma known_owner:
  assumes "get_user_by_identity (id_provider i) (id_subject i) d = Inr u"
  shows "owner_row (identities d) i (user_id u)"
  using get_user_by_identity_Inr [OF assms]
  by (auto simp: owns_identity_def owner_row_def list_ex_iff is_identity_def identity_key_def)

lemma new_identity_owner: "create_identity now k (identity_params i u) d = (Inr r, d') \<Longrightarrow> owner_row (rs @ [r]) i (user_id u)"
  by (auto simp: create_identity_Inr owner_row_def identity_key_def identity_params_def)

lemma join_commit_ok:
  assumes "joins_ok g s" and "workers s t = Ready i u us rs upd"
  shows "joins_ok g (set_worker t Free (s\<lparr>base := inserting (updated i u upd (base s)) us rs, joins := joins s @ [(i, u, how_of us rs)]\<rparr>))"
proof -
  let ?b = "inserting (base s) us rs" and ?b' = "inserting (updated i u upd (base s)) us rs"
  have core: "map user_core (users (inserting ?b us' rs')) = map user_core (users (inserting ?b' us' rs'))"
    "identities (inserting ?b us' rs') = identities (inserting ?b' us' rs')" for us' rs' by simp_all
  have up: "grows (base s) ?b'"
  proof -
    have "user_core ` set (users (updated i u upd (base s))) = user_core ` set (users (base s))"
      using arg_cong [OF updated_core(1) [of i u upd "base s"], of set] by (simp only: set_map)
    then show ?thesis by (simp add: grows_def image_Un)
  qed
  have mine: "worker_ok g (base s) (Ready i u us rs upd)" using assms by (metis joins_ok_def)
  then have "accounts_wf g ?b'" using wf_core [OF core(1) [of "[]"] core(2) [of _ "[]"], of g] by (simp add: worker_ok_def)
  moreover have "worker_ok g ?b' (workers s t')" if "t' \<noteq> t" for t'
  proof -
    have "worker_ok g (base s) (workers s t')" using assms(1) by (simp add: joins_ok_def)
    moreover have "unclaimed g s t us rs" using assms by (simp add: joins_ok_def) (metis pending_identities.simps(2) pending_users.simps(2))
    then have "compatible g us rs (pending_users (workers s t')) (pending_identities (workers s t'))" using that by (simp add: unclaimed_def)
    ultimately have "accounts_wf g (inserting ?b (pending_users (workers s t')) (pending_identities (workers s t')))"
      using wf_inserting_both [of g "base s" us rs] mine by (simp add: worker_ok_def)
    then have "accounts_wf g (inserting ?b' (pending_users (workers s t')) (pending_identities (workers s t')))"
      using wf_core [OF core] by blast
    then show ?thesis using claims_grows [OF up] \<open>worker_ok g (base s) (workers s t')\<close> by (simp add: worker_ok_def)
  qed
  moreover have "join_ok g ?b' (i, u, how_of us rs)"
    using mine linkable_grows [OF up] by (auto simp: worker_ok_def join_ok_def how_of_def owner_row_def split: if_splits)
  ultimately show ?thesis
    using assms(1) join_ok_grows [OF up]
    by (auto simp: joins_ok_def worker_ok_def [of _ _ Free] unclaimed_def)
qed

lemma join_step_ok:
  assumes "joins_ok g s" and "join_step g s s'"
  shows "joins_ok g s'"
  using assms(2)
proof cases
  have wf: "accounts_wf g (base s)" and worker: "worker_ok g (base s) (workers s t)"
    and own: "unclaimed g s t (pending_users (workers s t)) (pending_identities (workers s t))" for t
    using assms(1) by (simp_all add: joins_ok_def)
  note step = set_worker_ok [OF assms(1)]
  {
    case (begin_join t i)
    then show ?thesis using wf by (auto intro!: step simp: worker_ok_def)
  next
    case (known t i u)
    then show ?thesis using wf known_owner by (auto intro!: step simp: worker_ok_def)
  next
    case (unknown t i)
    then show ?thesis using wf by (auto intro!: step simp: worker_ok_def)
  next
    case (decide t i e l c w)
    then show ?thesis using wf link_target_Inr [OF decide(3)]
      by (cases c) (auto intro!: step linkable_of simp: worker_ok_def)
  next
    case (open_account t i now k u d')
    have "d' = inserting (base s) [u] []" using open_account(3) by (auto simp: create_user_Inr inserting_def)
    then show ?thesis using open_account create_user_wf [OF wf, of now k "user_params i"]
      by (auto intro!: step simp: worker_ok_def)
  next
    case (first_identity t i u now k r d')
    have view: "accounts_wf g (inserting (base s) [u] [])" using worker [of t] first_identity(2) by (simp add: worker_ok_def)
    have "d' = inserting (base s) [u] [r]" using first_identity(3) by (auto simp: create_identity_Inr inserting_def)
    then show ?thesis using first_identity create_identity_wf [OF view, of now k "identity_params i u"] new_identity_owner [OF first_identity(3)]
      by (auto intro!: step simp: worker_ok_def)
  next
    case (link_identity t i u now k r d')
    have "d' = inserting (base s) [] [r]" using link_identity(3) by (auto simp: create_identity_Inr inserting_def)
    then show ?thesis using link_identity worker [of t] create_identity_wf [OF wf, of now k "identity_params i u"] new_identity_owner [OF link_identity(3)]
      by (auto intro!: step simp: worker_ok_def)
  next
    case (keep_profile t i u rs)
    then show ?thesis using worker [of t] own [of t] by (auto intro!: step simp: worker_ok_def)
  next
    case (update_profile t i u rs now v d')
    have "user_id v = user_id u" using update_profile_core [OF update_profile(4)] by simp
    then show ?thesis using update_profile(1,2) worker [of t] own [of t] by (auto intro!: step simp: worker_ok_def)
  next
    case (commit_join t i u us rs upd)
    then show ?thesis using join_commit_ok [OF assms(1)] by simp
  next
    case (roll_back t)
    then show ?thesis using wf by (auto intro!: step simp: worker_ok_def)
  }
qed

interpretation joining: kept_by_steps "join_step g" "joins_ok g" for g
  by unfold_locales (rule join_step_ok)

section \<open>One sign-in at a time\<close>

definition solo :: "db \<Rightarrow> (identity \<times> user_row \<times> how) list \<Rightarrow> join_state" where
  "solo d js = \<lparr>base = d, workers = (\<lambda>_. Free), joins = js\<rparr>"

abbreviation busy :: "worker \<Rightarrow> db \<Rightarrow> (identity \<times> user_row \<times> how) list \<Rightarrow> join_state" where
  "busy w d js \<equiv> set_worker 0 w (solo d js)"

lemma solo_simps [simp]: "base (solo d js) = d" "workers (solo d js) t = Free" "joins (solo d js) = js"
  by (simp_all add: solo_def)

lemma busy_again: "set_worker 0 w' (busy w d js) = busy w' d js"
  by (simp add: set_worker_def)

lemma busy_unclaimed [simp]: "unclaimed g (busy w d js) 0 us rs"
  by (simp add: unclaimed_def)

lemma busy_commit:
  "join_step g (busy (Ready i u us rs upd) d js) (solo (inserting (updated i u upd d) us rs) (js @ [(i, u, how_of us rs)]))"
proof -
  have "set_worker 0 Free ((busy (Ready i u us rs upd) d js)\<lparr>base := inserting (updated i u upd d) us rs, joins := js @ [(i, u, how_of us rs)]\<rparr>)
      = solo (inserting (updated i u upd d) us rs) (js @ [(i, u, how_of us rs)])"
    by (simp add: set_worker_def solo_def fun_eq_iff)
  then show ?thesis using join_step.commit_join [of "busy (Ready i u us rs upd) d js" 0 i u us rs upd g] by simp
qed

lemma finish_join:
  assumes "u = v \<and> d2 = inserting d [] rs \<and> profile_current i v \<or>
    update_user_profile now (user_id v) (display_name_of i) (optional (id_picture i)) (inserting d [] rs) = (Inr u, d2) \<and> \<not> profile_current i v"
  shows "(join_step g)\<^sup>*\<^sup>* (busy (Refreshing i v rs) d js) (solo d2 (js @ [(i, u, how_of [] rs)]))"
  using assms
proof (elim disjE conjE)
  assume a: "u = v" "d2 = inserting d [] rs" "profile_current i v"
  have "join_step g (busy (Refreshing i v rs) d js) (busy (Ready i v [] rs None) d js)"
    using join_step.keep_profile [of "busy (Refreshing i v rs) d js" 0 i v rs g] a(3) by (simp add: busy_again)
  then show ?thesis using busy_commit [of g i v "[]" rs None d js] a(1,2) by (auto simp: updated_def)
next
  let ?upd = "update_user_profile now (user_id v) (display_name_of i) (optional (id_picture i))"
  assume a: "?upd (inserting d [] rs) = (Inr u, d2)" "\<not> profile_current i v"
  then obtain d1 where d1: "?upd d = (Inr u, d1)" "d2 = inserting d1 [] rs" by (auto simp: update_user_profile_Inr inserting_def)
  have same: "user_id u = user_id v" using update_profile_core [OF d1(1)] by simp
  have "join_step g (busy (Refreshing i v rs) d js) (busy (Ready i u [] rs (Some now)) d js)"
    using join_step.update_profile [of "busy (Refreshing i v rs) d js" 0 i v rs now u d1 g] a(2) d1(1) by (simp add: busy_again)
  moreover have "updated i u (Some now) d = d1" using d1(1) by (simp add: updated_def same)
  ultimately show ?thesis using busy_commit [of g i u "[]" rs "Some now" d js] d1(2) by auto
qed

text \<open>How a sign-in came by its account, told from the rows it added.\<close>

definition how_changed :: "db \<Rightarrow> db \<Rightarrow> how" where
  "how_changed d d' = how_of (drop (length (users d)) (users d')) (drop (length (identities d)) (identities d'))"

lemma update_profile_length: "update_user_profile now k n a d = (Inr u, d') \<Longrightarrow> length (users d') = length (users d) \<and> identities d' = identities d"
  using update_profile_core [of now k n a d u d'] by (metis length_map)

lemma provision_tx_joins:
  assumes "provision_tx g L e i w = (Inr u, w')"
  shows "(join_step g)\<^sup>*\<^sup>* (solo (world_db w) js) (solo (world_db w') (js @ [(i, u, how_changed (world_db w) (world_db w'))]))"
proof -
  let ?d = "world_db w"
  note step = converse_rtranclp_into_rtranclp [of "join_step g"]
  have look: "join_step g (solo ?d js) (busy (Looking i) ?d js)"
    using join_step.begin_join [of "solo ?d js" 0 g i] by simp
  have world: "w = \<lparr>world_db = ?d, world_log = world_log w\<rparr>" by simp
  have undecided: "join_step g (busy (Looking i) ?d js) (busy (Unknown i) ?d js)"
    if "\<forall>v. \<not> owns_identity ?d (id_provider i) (id_subject i) v"
    using join_step.unknown [of "busy (Looking i) ?d js" 0 i g] that by (simp add: busy_again get_user_by_identity_None)
  have decided: "join_step g (busy (Unknown i) ?d js) (busy (Decided i c) ?d js)" if "link_target g e i w = (Inr c, w1)" for c w1
    using join_step.decide [of "busy (Unknown i) ?d js" 0 i g e "world_log w" c w1] that world by (simp add: busy_again)
  show ?thesis
    using assms
  proof (cases rule: provision_tx_Inr)
    case (returning v)
    have 1: "join_step g (busy (Looking i) ?d js) (busy (Refreshing i v []) ?d js)"
      using join_step.known [of "busy (Looking i) ?d js" 0 i v g] returning(3) by (simp add: busy_again)
    have 2: "(join_step g)\<^sup>*\<^sup>* (busy (Refreshing i v []) ?d js) (solo (world_db w') (js @ [(i, u, how_of [] [])]))"
      by (rule finish_join [of u v _ _ _ _ "db_now e BeginTx"]) (use returning(2) in simp)
    have "how_changed ?d (world_db w') = how_of [] []"
      using returning(2) by (auto simp: how_changed_def dest!: update_profile_length)
    then show ?thesis using 2 by (simp only:) (rule step [OF look step [OF 1]])
  next
    case (linked v r d1)
    have d1: "d1 = inserting ?d [] [r]" using linked(4) by (auto simp: create_identity_Inr inserting_def)
    have 1: "join_step g (busy (Decided i (Some v)) ?d js) (busy (Refreshing i v [r]) ?d js)"
      using join_step.link_identity [of "busy (Decided i (Some v)) ?d js" 0 i v "db_now e BeginTx" "row_id e IdentitiesTable" r d1 g] linked(4)
      by (simp add: busy_again identity_params_def)
    have 2: "(join_step g)\<^sup>*\<^sup>* (busy (Refreshing i v [r]) ?d js) (solo (world_db w') (js @ [(i, u, how_of [] [r])]))"
      by (rule finish_join [of u v _ _ _ _ "db_now e BeginTx"]) (use linked(5) d1 in simp)
    have "how_changed ?d (world_db w') = how_of [] [r]"
      using linked(5) d1 by (auto simp: how_changed_def dest!: update_profile_length)
    then show ?thesis using 2 by (simp only:) (rule step [OF look step [OF undecided [OF linked(1)] step [OF decided [OF linked(7)] step [OF 1]]]])
  next
    case (created r d1)
    have d1: "d1 = inserting ?d [u] []" using created(3) by (auto simp: create_user_Inr inserting_def)
    have w': "world_db w' = inserting ?d [u] [r]" using created(4) d1 by (auto simp: create_identity_Inr inserting_def)
    obtain w1 where "link_target g e i w = (Inr None, w1)" using created(5) by blast
    note dec = decided [OF this]
    have 1: "join_step g (busy (Decided i None) ?d js) (busy (Opened i u) ?d js)"
      using join_step.open_account [of "busy (Decided i None) ?d js" 0 i g "db_now e BeginTx" "row_id e UsersTable" u d1] created(3)
      by (simp add: busy_again user_params_def)
    have 2: "join_step g (busy (Opened i u) ?d js) (busy (Ready i u [u] [r] None) ?d js)"
      using join_step.first_identity [of "busy (Opened i u) ?d js" 0 i u "db_now e BeginTx" "row_id e IdentitiesTable" r _ g] created(4) d1
      by (simp add: busy_again identity_params_def)
    have 3: "join_step g (busy (Ready i u [u] [r] None) ?d js) (solo (world_db w') (js @ [(i, u, how_of [u] [r])]))"
      using busy_commit [of g i u "[u]" "[r]" None ?d js] w' by (simp add: updated_def)
    have "how_changed ?d (world_db w') = how_of [u] [r]" using w' by (simp add: how_changed_def)
    then show ?thesis using 3
      by (simp only:) (rule step [OF look step [OF undecided [OF created(1)] step [OF dec step [OF 1 step [OF 2 step [OF _ rtranclp.rtrancl_refl]]]]]])
  qed
qed

end
