(* ===== verification/Join_Theorems.thy ===== *)
theory Join_Theorems
  imports Join_Races Account_Theorems
begin

text \<open>
  What holds however sign-ins interleave: one account per identity, links only where both sides
  verified the address; and that the provisionings of Accounts are among the interleaved runs.
\<close>

lemma solo_ok: "joins_ok g (solo d []) \<longleftrightarrow> accounts_wf g d"
  by (auto simp: joins_ok_def worker_ok_def)

lemma provision_joins:
  assumes "provision g L e i d = (r, logs, d')"
  obtains js' where "(join_step g)\<^sup>*\<^sup>* (solo d js) (solo d' (js @ js'))" and "\<And>u. r = Inr u \<Longrightarrow> js' = [(i, u, how_changed d d')]"
  using provision_outcome [OF assms]
proof (elim disjE conjE exE)
  fix err assume "d' = d" "r = Inl err"
  then show thesis by (intro that [of "[]"]) simp_all
next
  fix u w assume tx: "provision_tx g L e i \<lparr>world_db = d, world_log = []\<rparr> = (Inr u, w)" "d' = world_db w" "r = Inr u"
  then show thesis using provision_tx_joins [OF tx(1), of js] by (intro that [of "[(i, u, how_changed d d')]"]) simp_all
next
  fix u w cause assume tx: "provision_tx g L e i \<lparr>world_db = d, world_log = []\<rparr> = (Inr u, w)" "d' = world_db w"
    "r = Inl (AccountDbFailure ''committing provisioning'' cause)"
  then show thesis using provision_tx_joins [OF tx(1), of js] by (intro that [of "[(i, u, how_changed d d')]"]) simp_all
qed

text \<open>One identity row, one owner.\<close>

lemma owner_row_unique:
  assumes "accounts_wf g d" and "owner_row (identities d) i k" and "owner_row (identities d) i' k'"
    and "id_provider i' = id_provider i" and "id_subject i' = id_subject i"
  shows "k = k'"
proof -
  obtain r r' where r: "r \<in> set (identities d)" "identity_key r = (id_provider i, id_subject i)" "identity_user r = k"
    and r': "r' \<in> set (identities d)" "identity_key r' = (id_provider i, id_subject i)" "identity_user r' = k'"
    using assms(2-5) by (auto simp: owner_row_def)
  have "r = r'" using assms(1) r(1,2) r'(1,2) by (auto simp: accounts_wf_def intro: distinct_key_unique)
  then show ?thesis using r(3) r'(3) by simp
qed

text \<open>
  C7. One person, one account. However the statements of any number of sign-ins interleave, and
  whichever are rolled back, two sign-ins that commit with the same provider and subject are the
  same account, ids, identities and verified addresses stay unique, and the account is the one the
  identity belongs to for good.
\<close>

theorem simultaneous_sign_ins_share_account:
  assumes "joins_ok g s" and "(join_step g)\<^sup>*\<^sup>* s s'" and "(i, u, h) \<in> set (joins s')" and "(i', u', h') \<in> set (joins s')"
    and "id_provider i' = id_provider i" and "id_subject i' = id_subject i"
  shows "user_id u = user_id u' \<and> accounts_wf g (base s')
    \<and> (\<exists>r \<in> set (identities (base s')). is_identity (id_provider i) (id_subject i) r \<and> identity_user r = user_id u)"
proof -
  have ok: "joins_ok g s'" by (rule joining.kept_reachable [OF assms(2,1)])
  then have wf: "accounts_wf g (base s')" and own: "owner_row (identities (base s')) i (user_id u)" "owner_row (identities (base s')) i' (user_id u')"
    using assms(3,4) by (auto simp: joins_ok_def join_ok_def)
  then show ?thesis
    using owner_row_unique [OF wf own assms(5,6)] by (auto simp: owner_row_def is_identity_def identity_key_def)
qed

theorem simultaneous_sign_ins_share_account_witness:
  "\<exists>s'. (join_step sample_pg)\<^sup>*\<^sup>* (solo empty_db []) s' \<and> length (joins s') = 2
    \<and> user_id (fst (snd (joins s' ! 0))) = user_id (fst (snd (joins s' ! 1)))"
proof -
  let ?i = "sample_identity ''google''" and ?i' = "sample_identity ''google''\<lparr>id_email := ''other'', id_name := ''Eve''\<rparr>"
  obtain h where 1: "(join_step sample_pg)\<^sup>*\<^sup>* (solo empty_db []) (solo ada_db [(?i, ada, h)])"
    by (rule provision_joins [OF sample_created, of "[]"]) simp
  obtain u' d2 h' where 2: "(join_step sample_pg)\<^sup>*\<^sup>* (solo ada_db [(?i, ada, h)]) (solo d2 [(?i, ada, h), (?i', u', h')])"
    by (rule provision_joins [OF sample_returns, of "[(?i, ada, h)]"]) simp
  have "joins_ok sample_pg (solo empty_db [])" by (simp add: solo_ok accounts_wf_def verified_emails_def empty_db_def)
  from simultaneous_sign_ins_share_account [OF this rtranclp_trans [OF 1 2], of ?i ada h ?i' u' h']
  have "user_id ada = user_id u'" by (simp add: sample_identity_def)
  then show ?thesis
    by (intro exI [of _ "solo d2 [(?i, ada, h), (?i', u', h')]"]) (use rtranclp_trans [OF 1 2] in simp)
qed

text \<open>
  C8. Links under interleaving. A sign-in that commits by joining its identity to an account
  that was there, whatever other sign-ins did in between, carries a verified address that is no
  private relay, and the account is live, with that very address verified.
\<close>

theorem simultaneous_links_are_verified:
  assumes "joins_ok g s" and "(join_step g)\<^sup>*\<^sup>* s s'" and "(i, u, Joined) \<in> set (joins s')"
  shows "\<exists>v \<in> set (users (base s')). user_id v = user_id u \<and> id_email_verified i \<and> \<not> is_private_relay (id_email i)
    \<and> email_verified v \<and> same_email g (email v) (id_email i) \<and> user_deleted_at v = None"
proof -
  have "joins_ok g s'" by (rule joining.kept_reachable [OF assms(2,1)])
  then have "linkable g (base s') i (user_id u)" using assms(3) by (auto simp: joins_ok_def join_ok_def)
  then show ?thesis by (auto simp: linkable_def may_link_def)
qed

theorem simultaneous_links_are_verified_witness:
  "\<exists>s'. (join_step sample_pg)\<^sup>*\<^sup>* (solo ada_db []) s' \<and> (sample_identity ''apple'', ada, Joined) \<in> set (joins s')
    \<and> (\<exists>v \<in> set (users (base s')). user_id v = 1 \<and> email_verified v)"
proof -
  let ?d' = "ada_db\<lparr>identities := [ada_link ''google'' 1 5, ada_link ''apple'' 2 6]\<rparr>"
  have how: "how_changed ada_db ?d' = Joined" by (simp add: how_changed_def how_of_def ada_db_def)
  obtain js' where run: "(join_step sample_pg)\<^sup>*\<^sup>* (solo ada_db []) (solo ?d' js')" "js' = [(sample_identity ''apple'', ada, Joined)]"
    by (rule provision_joins [OF sample_linked, of "[]"]) (simp add: how)
  have "joins_ok sample_pg (solo ada_db [])" by (simp add: solo_ok ada_wf)
  from simultaneous_links_are_verified [OF this run(1), of "sample_identity ''apple''" ada] run
  show ?thesis by (intro exI [of _ "solo ?d' js'"]) (auto simp: ada_def)
qed

text \<open>
  C36. One sign-in at a time. Every Provision of Accounts, with any faults, is a run of the
  interleaved statements from the same database to the same database, which commits its sign-in
  when it answers with an account.
\<close>

theorem provisions_are_join_runs:
  assumes "provision g L e i d = (r, logs, d')"
  shows "\<exists>js'. (join_step g)\<^sup>*\<^sup>* (solo d js) (solo d' (js @ js')) \<and> (\<forall>u. r = Inr u \<longrightarrow> js' = [(i, u, how_changed d d')])"
  by (rule provision_joins [OF assms, of js]) blast

theorem provisions_are_join_runs_witness:
  "\<exists>js'. (join_step sample_pg)\<^sup>*\<^sup>* (solo empty_db []) (solo ada_db js') \<and> js' = [(sample_identity ''google'', ada, Created)]"
proof -
  have "how_changed empty_db ada_db = Created" by (simp add: how_changed_def how_of_def ada_db_def empty_db_def)
  then show ?thesis using provisions_are_join_runs [OF sample_created, of "[]"] by auto
qed

end
