(* ===== verification/Locks.thy ===== *)
theory Locks
  imports Races Join_Theorems
begin

text \<open>
  Who waits for whom among the interleaved transactions of Races and Join_Races, and that somebody can
  always go on. Postgres makes a statement wait for a transaction that has locked a row the
  statement changes, or inserted a unique key the statement inserts; a circle of such waits is a
  deadlock, which it ends by aborting one of the transactions with an error.
\<close>

section \<open>Waiting in order\<close>

text \<open>
  The shape of both arguments: whoever waits stands higher than the one it waits for, except among
  contenders. Then only contenders can wait in a circle.
\<close>

locale lock_order =
  fixes waits :: "'s \<Rightarrow> nat \<Rightarrow> nat \<Rightarrow> bool"
    and rank :: "'s \<Rightarrow> nat \<Rightarrow> nat"
    and contends :: "'s \<Rightarrow> nat \<Rightarrow> bool"
  assumes order: "waits s t t' \<Longrightarrow> rank s t' < rank s t \<or> contends s t \<and> rank s t' \<le> rank s t"
begin

lemma rank_falls: "(waits s)\<^sup>*\<^sup>* t t' \<Longrightarrow> rank s t' \<le> rank s t"
  by (induction rule: rtranclp_induct) (auto dest: order)

lemma circle_contends:
  assumes "(waits s)\<^sup>+\<^sup>+ t t"
  shows "contends s t"
proof -
  obtain u where u: "waits s t u" "(waits s)\<^sup>*\<^sup>* u t" using assms by (meson tranclpD)
  then have "\<not> rank s u < rank s t" using rank_falls [OF u(2)] by simp
  then show ?thesis using order [OF u(1)] by blast
qed

text \<open>Among finitely many, somebody waits for nobody, or some wait in a circle.\<close>

lemma somebody_free:
  assumes "finite A" and "t0 \<in> A" and "\<And>t t'. waits s t t' \<Longrightarrow> t' \<in> A"
  shows "(\<exists>t \<in> A. \<forall>t'. \<not> waits s t t') \<or> (\<exists>t. (waits s)\<^sup>+\<^sup>+ t t)"
proof (rule disjCI)
  assume "\<not> (\<exists>t. (waits s)\<^sup>+\<^sup>+ t t)"
  then have none: "\<not> (waits s)\<^sup>+\<^sup>+ t t" for t by blast
  define r where "r = {(t', t). t \<in> A \<and> waits s t t'}"
  have "(waits s)\<^sup>+\<^sup>+ t t'" if "(t', t) \<in> r\<^sup>+" for t t'
    using that by (induction rule: trancl.induct) (auto simp: r_def intro: tranclp_into_tranclp2)
  then have acyclic: "acyclic r" using none by (auto simp: acyclic_def)
  have "finite r"
    by (rule finite_subset [of _ "A \<times> A"]) (use assms in \<open>auto simp: r_def\<close>)
  then have wf: "wf r" by (rule finite_acyclic_wf) (rule acyclic)
  from assms(2) obtain t where t: "t \<in> A" "\<And>t'. (t', t) \<in> r \<Longrightarrow> t' \<notin> A" by (rule wfE_min [OF wf]) (rule that)
  have "\<not> waits s t t'" for t'
  proof
    assume w: "waits s t t'"
    then have "(t', t) \<in> r" using t(1) by (simp add: r_def)
    then show False using t(2) assms(3) [OF w] by blast
  qed
  then show "\<exists>t \<in> A. \<forall>t'. \<not> waits s t t'" using t(1) by blast
qed

end

section \<open>Rotations and revocations\<close>

text \<open>
  An UPDATE that consumes waits for whoever holds a row that it saw or would now see pass; an INSERT of a new
  token may wait for any other; a sweep waits for the row it has come to.
\<close>

definition waits_for :: "store_state \<Rightarrow> nat \<Rightarrow> nat \<Rightarrow> bool" where
  "waits_for s t t' \<longleftrightarrow> t \<noteq> t' \<and>
    (case backends s t of
       Searching now h snap \<Rightarrow> (\<exists>r \<in> set snap \<union> set (committed s). token_id r \<in> token_id ` set snap
         \<and> consumable now h snap r \<and> token_id r \<in> holds (backends s t'))
     | Holding now r \<Rightarrow> pending (backends s t') \<noteq> []
     | Sweeping now (x # todo) marked \<Rightarrow> token_id x \<in> holds (backends s t')
     | _ \<Rightarrow> False)"

fun backend_rank :: "backend \<Rightarrow> nat" where
  "backend_rank (Minted now r n) = 0"
| "backend_rank (Holding now r) = 1"
| "backend_rank (Sweeping now todo marked) = (if marked = [] then 3 else 2)"
| "backend_rank (Searching now h snap) = 3"
| "backend_rank Idle = 0"

fun half_swept :: "backend \<Rightarrow> bool" where
  "half_swept (Sweeping now todo marked) = (todo \<noteq> [] \<and> marked \<noteq> [])"
| "half_swept b = False"

interpretation token_locks: lock_order waits_for "\<lambda>s t. backend_rank (backends s t)" "\<lambda>s t. half_swept (backends s t)"
proof
  fix s t t' assume w: "waits_for s t t'"
  show "backend_rank (backends s t') < backend_rank (backends s t)
    \<or> half_swept (backends s t) \<and> backend_rank (backends s t') \<le> backend_rank (backends s t)"
    using w by (cases "backends s t"; cases "backends s t'") (auto simp: waits_for_def split: list.splits if_splits)
qed

text \<open>A connection goes on: its transaction takes the next of its steps, and is not rolled back.\<close>

definition goes_on :: "store_state \<Rightarrow> nat \<Rightarrow> bool" where
  "goes_on s t \<longleftrightarrow>
    (case backends s t of
       Idle \<Rightarrow> False
     | Searching now h snap \<Rightarrow> (\<exists>r. race_step s (set_backend t (Holding now r) s))
     | Holding now r \<Rightarrow> (\<exists>n. race_step s (set_backend t (Minted now r n) s))
     | Minted now r n \<Rightarrow> (\<exists>rows. n \<in> set rows \<and> race_step s (set_backend t Idle
         (s\<lparr>committed := rows, rotations := rotations s @ [(token_hash r, token_family r)]\<rparr>)))
     | Sweeping now [] marked \<Rightarrow> race_step s (set_backend t Idle (s\<lparr>committed := sweep now marked (committed s)\<rparr>))
     | Sweeping now (x # todo) marked \<Rightarrow> (\<exists>marked'. race_step s (set_backend t (Sweeping now todo marked') s)))"

text \<open>The UPDATE whose row is gone by now answers no row.\<close>

definition finds_nothing :: "store_state \<Rightarrow> nat \<Rightarrow> bool" where
  "finds_nothing s t \<longleftrightarrow> (\<exists>now h snap. backends s t = Searching now h snap
    \<and> (\<forall>r \<in> set (committed s). token_id r \<in> token_id ` set snap \<longrightarrow> \<not> consumable now h snap r))"

lemma not_waiting_unlocked: "(\<forall>t'. \<not> waits_for s t t') \<Longrightarrow> backends s t = Sweeping now (x # todo) marked \<Longrightarrow> unlocked_for s t (token_id x)"
  by (auto simp: waits_for_def unlocked_for_def)

lemma free_goes_on:
  assumes "\<forall>t'. \<not> waits_for s t t'" and "backends s t \<noteq> Idle" and "unused_keys s i h"
  shows "goes_on s t \<or> finds_nothing s t"
proof (cases "backends s t")
  case (Searching now k snap)
  show ?thesis
  proof (cases "finds_nothing s t")
    case False
    then obtain r where r: "r \<in> set (committed s)" "token_id r \<in> token_id ` set snap" "consumable now k snap r"
      using Searching by (auto simp: finds_nothing_def)
    have "unlocked_for s t (token_id r)"
      unfolding unlocked_for_def
    proof (intro allI impI notI)
      fix t' assume "t' \<noteq> t" "token_id r \<in> holds (backends s t')"
      then have "waits_for s t t'" using Searching r by (auto simp: waits_for_def intro!: bexI [of _ r])
      then show False using assms(1) by blast
    qed
    then show ?thesis using race_step.consume [OF Searching r] Searching by (auto simp: goes_on_def)
  qed simp
next
  case (Holding now r)
  have "race_step s (set_backend t (Minted now r (new_row now i \<lparr>param_user = token_user r, param_family = token_family r,
      param_hash = h, param_expires = 0\<rparr>)) s)"
    by (rule race_step.mint [OF Holding]) (use assms(3) in simp_all)
  then show ?thesis using Holding by (auto simp: goes_on_def)
next
  case (Minted now r n)
  then show ?thesis using race_step.commit [OF Minted] by (force simp: goes_on_def)
next
  case (Sweeping now todo marked)
  show ?thesis
  proof (cases todo)
    case Nil
    then show ?thesis using Sweeping race_step.sweep_commit [of s t now marked] by (simp add: goes_on_def)
  next
    case (Cons x rest)
    then show ?thesis
      using Sweeping race_step.sweep_row [of s t now x rest marked] not_waiting_unlocked [OF assms(1)]
      by (auto simp: goes_on_def intro: exI)
  qed
qed (use assms(2) in simp)

text \<open>
  C10. Somebody goes on. Whatever rotations, revocations and sign-ins are under way, one of them
  can take its next step without waiting, or its UPDATE answers that there is no row; the only
  exception are revocations that have each marked a row and wait for one another in a circle, and a
  rotation is never part of such a circle.
\<close>

theorem rotations_never_deadlock:
  assumes "finite {t. backends s t \<noteq> Idle}" and "backends s t0 \<noteq> Idle" and "unused_keys s i h"
  shows "((\<exists>t. (\<forall>t'. \<not> waits_for s t t') \<and> (goes_on s t \<or> finds_nothing s t)) \<or> (\<exists>t. (waits_for s)\<^sup>+\<^sup>+ t t))
    \<and> (\<forall>t. (waits_for s)\<^sup>+\<^sup>+ t t \<longrightarrow> half_swept (backends s t))"
proof -
  have "backends s t' \<noteq> Idle" if "waits_for s t t'" for t t'
    using that by (cases "backends s t'") (auto simp: waits_for_def split: backend.splits list.splits)
  then have "(\<exists>t \<in> {t. backends s t \<noteq> Idle}. \<forall>t'. \<not> waits_for s t t') \<or> (\<exists>t. (waits_for s)\<^sup>+\<^sup>+ t t)"
    by (intro token_locks.somebody_free [OF assms(1), of t0]) (use assms(2) in auto)
  then show ?thesis using free_goes_on [OF _ _ assms(3)] token_locks.circle_contends by blast
qed

theorem rotations_never_deadlock_witness:
  "\<exists>t. (\<forall>t'. \<not> waits_for race_won t t') \<and> (goes_on race_won t \<or> finds_nothing race_won t)"
proof -
  have busy: "{t. backends race_won t \<noteq> Idle} = {1}" by (auto simp: race_won_def)
  have fin: "finite {t. backends race_won t \<noteq> Idle}" unfolding busy by simp
  have keys: "unused_keys race_won 9 ''x''"
    by (simp add: unused_keys_def race_won_def race_row_def race_next_def)
  have "\<not> half_swept (backends race_won t)" for t by (simp add: race_won_def)
  then show ?thesis using rotations_never_deadlock [OF fin _ keys, of 1] by (auto simp: race_won_def)
qed

text \<open>Revocations do wait in a circle when they come to the same two rows in different orders.\<close>

definition second_row :: refresh_token where
  "second_row = race_row\<lparr>token_id := 4, token_hash := ''k''\<rparr>"

definition crossed :: store_state where
  "crossed = \<lparr>committed = [race_row, second_row],
     backends = (\<lambda>_. Idle)(0 := Sweeping 20 [second_row] [2], 1 := Sweeping 20 [race_row] [4]), rotations = []\<rparr>"

lemma crossed_reachable: "race_step\<^sup>*\<^sup>* \<lparr>committed = [race_row, second_row], backends = (\<lambda>_. Idle), rotations = []\<rparr> crossed"
proof -
  let ?s0 = "\<lparr>committed = [race_row, second_row], backends = (\<lambda>_. Idle), rotations = []\<rparr> :: store_state"
  let ?s1 = "set_backend 0 (Sweeping 20 [race_row, second_row] []) ?s0"
  let ?s2 = "set_backend 1 (Sweeping 20 [second_row, race_row] []) ?s1"
  let ?s3 = "set_backend 0 (Sweeping 20 [second_row] [2]) ?s2"
  let ?s4 = "set_backend 1 (Sweeping 20 [race_row] [4]) ?s3"
  have 1: "race_step ?s0 ?s1"
    by (rule race_step.sweep_start [of _ _ _ "\<lambda>_. True"]) (simp_all add: race_row_def second_row_def)
  have 2: "race_step ?s1 ?s2"
    by (rule race_step.sweep_start [of _ _ _ "\<lambda>_. True"]) (simp_all add: race_row_def second_row_def)
  have 3: "race_step ?s2 ?s3"
    using race_step.sweep_row [of ?s2 0 20 race_row "[second_row]" "[]"] by (simp add: race_row_def second_row_def unlocked_for_def set_backend_def)
  have 4: "race_step ?s3 ?s4"
    using race_step.sweep_row [of ?s3 1 20 second_row "[race_row]" "[]"] by (simp add: race_row_def second_row_def unlocked_for_def set_backend_def)
  have eq: "?s4 = crossed" by (simp add: crossed_def set_backend_def fun_eq_iff)
  note step = converse_rtranclp_into_rtranclp [of race_step]
  show ?thesis using step [OF 1 step [OF 2 step [OF 3 step [OF 4 rtranclp.rtrancl_refl]]]] unfolding eq .
qed

lemma crossed_circle: "(waits_for crossed)\<^sup>+\<^sup>+ 0 0"
proof -
  have "waits_for crossed 0 1" "waits_for crossed 1 0"
    by (simp_all add: waits_for_def crossed_def race_row_def second_row_def)
  then show ?thesis by (rule tranclp.trancl_into_trancl [OF tranclp.r_into_trancl])
qed

section \<open>Sign-ins\<close>

text \<open>
  An INSERT may wait for any transaction that has inserted into the same table, the profile UPDATE
  for the one that changed the same user.
\<close>

definition join_waits :: "join_state \<Rightarrow> nat \<Rightarrow> nat \<Rightarrow> bool" where
  "join_waits s t t' \<longleftrightarrow> t \<noteq> t' \<and>
    (case workers s t of
       Decided i None \<Rightarrow> pending_users (workers s t') \<noteq> []
     | Decided i (Some u) \<Rightarrow> pending_identities (workers s t') \<noteq> []
     | Opened i u \<Rightarrow> pending_identities (workers s t') \<noteq> []
     | Refreshing i u rs \<Rightarrow> user_id u \<in> locks (workers s t')
     | _ \<Rightarrow> False)"

fun worker_rank :: "worker \<Rightarrow> nat" where
  "worker_rank (Ready i u us rs upd) = 0"
| "worker_rank (Refreshing i u rs) = 1"
| "worker_rank (Opened i u) = 2"
| "worker_rank w = 3"

lemma locks_Ready: "k \<in> locks w \<Longrightarrow> \<exists>i u us rs upd. w = Ready i u us rs upd"
  by (cases w) simp_all

interpretation join_locks: lock_order join_waits "\<lambda>s t. worker_rank (workers s t)" "\<lambda>s t. False"
proof
  fix s t t' assume "join_waits s t t'"
  then show "worker_rank (workers s t') < worker_rank (workers s t) \<or> False \<and> worker_rank (workers s t') \<le> worker_rank (workers s t)"
    by (cases "workers s t'") (auto simp: join_waits_def split: worker.splits option.splits)
qed

text \<open>
  The next statement of a provisioning takes it on; or it is an INSERT or UPDATE that the
  committed tables refuse whatever time and id it draws, which ends the sign-in with an error.
\<close>

definition moves_on :: "pg \<Rightarrow> join_state \<Rightarrow> nat \<Rightarrow> bool" where
  "moves_on g s t \<longleftrightarrow> (\<exists>s'. join_step g s s' \<and> workers s' t \<noteq> workers s t \<and> (workers s' t = Free \<longrightarrow> length (joins s) < length (joins s')))"

definition refused :: "pg \<Rightarrow> join_state \<Rightarrow> nat \<Rightarrow> bool" where
  "refused g s t \<longleftrightarrow>
    (case workers s t of
       Decided i None \<Rightarrow> \<forall>now k. \<exists>err. fst (create_user g now k (user_params i) (base s)) = Inl err
     | Decided i (Some u) \<Rightarrow> \<forall>now k. \<exists>err. fst (create_identity now k (identity_params i u) (base s)) = Inl err
     | Opened i u \<Rightarrow> \<forall>now k. \<exists>err. fst (create_identity now k (identity_params i u) (inserting (base s) [u] [])) = Inl err
     | Refreshing i u rs \<Rightarrow> \<forall>now. \<exists>err. fst (update_user_profile now (user_id u) (display_name_of i) (optional (id_picture i)) (base s)) = Inl err
     | _ \<Rightarrow> False)"

lemma moves_onI: "join_step g s (set_worker t w s) \<Longrightarrow> w \<noteq> workers s t \<Longrightarrow> w \<noteq> Free \<Longrightarrow> moves_on g s t"
  by (auto simp: moves_on_def intro!: exI [of _ "set_worker t w s"])

lemma calm_link_target: "\<exists>c w'. link_target g (calm_env t b k) i w = (Inr c, w')"
proof (cases "get_verified_user_by_email g (id_email i) (world_db w)")
  case (Inl err)
  then have "err = NoRows" by (auto simp: get_verified_user_by_email_def one_row_def split: option.splits)
  then show ?thesis using Inl by (simp add: link_target_def run_sql_def query_def)
qed (simp add: link_target_def run_sql_def query_def)

lemma free_moves_on:
  assumes "joins_ok g s" and "\<forall>t'. \<not> join_waits s t t'" and "workers s t \<noteq> Free"
  shows "moves_on g s t \<or> refused g s t"
proof (cases "workers s t")
  case (Looking i)
  show ?thesis
  proof (cases "get_user_by_identity (id_provider i) (id_subject i) (base s)")
    case (Inl err)
    then have "err = NoRows" by (auto simp: get_user_by_identity_def one_row_def split: option.splits)
    then show ?thesis using moves_onI [OF join_step.unknown [OF Looking]] Inl Looking by simp
  next
    case (Inr u)
    then show ?thesis using moves_onI [OF join_step.known [OF Looking Inr]] Looking by simp
  qed
next
  case (Unknown i)
  obtain c w where c: "link_target g (calm_env 0 0 0) i \<lparr>world_db = base s, world_log = []\<rparr> = (Inr c, w)"
    using calm_link_target by blast
  have "moves_on g s t" by (rule moves_onI [OF join_step.decide [OF Unknown c]]) (simp_all add: Unknown)
  then show ?thesis ..
next
  case (Decided i c)
  show ?thesis
  proof (cases c)
    case None
    show ?thesis
    proof (cases "refused g s t")
      case False
      then obtain now k u d' where u: "create_user g now k (user_params i) (base s) = (Inr u, d')"
        using Decided None by (auto simp: refused_def) (metis prod.exhaust_sel sum.exhaust_sel)
      have "unclaimed g s t [u] []"
        using assms(2) Decided None by (auto simp: join_waits_def unclaimed_def compatible_def verified_of_def)
      then show ?thesis using moves_onI [OF join_step.open_account [OF _ u]] Decided None by simp
    qed simp
  next
    case (Some u)
    show ?thesis
    proof (cases "refused g s t")
      case False
      then obtain now k r d' where r: "create_identity now k (identity_params i u) (base s) = (Inr r, d')"
        using Decided Some by (auto simp: refused_def) (metis prod.exhaust_sel sum.exhaust_sel)
      have "unclaimed g s t [] [r]"
        using assms(2) Decided Some by (auto simp: join_waits_def unclaimed_def compatible_def verified_of_def)
      then show ?thesis using moves_onI [OF join_step.link_identity [OF _ r]] Decided Some by simp
    qed simp
  qed
next
  case (Opened i u)
  show ?thesis
  proof (cases "refused g s t")
    case False
    then obtain now k r d' where r: "create_identity now k (identity_params i u) (inserting (base s) [u] []) = (Inr r, d')"
      using Opened by (auto simp: refused_def) (metis prod.exhaust_sel sum.exhaust_sel)
    have "unclaimed g s t [u] []" using assms(1) Opened by (auto simp: joins_ok_def) (metis pending_users.simps(1) pending_identities.simps(7))
    then have "unclaimed g s t [u] [r]"
      using assms(2) Opened by (auto simp: join_waits_def unclaimed_def compatible_def)
    then show ?thesis using moves_onI [OF join_step.first_identity [OF Opened r]] Opened by simp
  qed simp
next
  case (Refreshing i u rs)
  show ?thesis
  proof (cases "profile_current i u \<or> refused g s t")
    case True
    then show ?thesis using moves_onI [OF join_step.keep_profile [OF Refreshing]] Refreshing by auto
  next
    case False
    then obtain now v d' where v: "update_user_profile now (user_id u) (display_name_of i) (optional (id_picture i)) (base s) = (Inr v, d')"
      using Refreshing by (auto simp: refused_def) (metis prod.exhaust_sel sum.exhaust_sel)
    have "\<forall>t'. t' \<noteq> t \<longrightarrow> user_id u \<notin> locks (workers s t')" using assms(2) Refreshing by (auto simp: join_waits_def)
    then show ?thesis using moves_onI [OF join_step.update_profile [OF Refreshing _ v]] False Refreshing by simp
  qed
next
  case (Ready i u us rs upd)
  then show ?thesis
    using join_step.commit_join [OF Ready, of g] unfolding moves_on_def by (intro disjI1 exI conjI) (assumption, simp_all)
qed (use assms(3) in simp)

text \<open>
  C9. Sign-ins never deadlock. Whatever provisionings are under way, none wait for one another in
  a circle: some provisioning waits for nobody, and its next statement takes it on or is refused.
\<close>

theorem sign_ins_never_deadlock:
  assumes "joins_ok g s" and "(join_step g)\<^sup>*\<^sup>* s s'" and "finite {t. workers s' t \<noteq> Free}" and "workers s' t0 \<noteq> Free"
  shows "(\<exists>t. workers s' t \<noteq> Free \<and> (\<forall>t'. \<not> join_waits s' t t') \<and> (moves_on g s' t \<or> refused g s' t))
    \<and> (\<nexists>t. (join_waits s')\<^sup>+\<^sup>+ t t)"
proof -
  have ok: "joins_ok g s'" by (rule joining.kept_reachable [OF assms(2,1)])
  have none: "\<not> (join_waits s')\<^sup>+\<^sup>+ t t" for t using join_locks.circle_contends by blast
  have "workers s' t' \<noteq> Free" if "join_waits s' t t'" for t t'
    using that by (cases "workers s' t'") (auto simp: join_waits_def split: worker.splits option.splits)
  then have "\<exists>t \<in> {t. workers s' t \<noteq> Free}. \<forall>t'. \<not> join_waits s' t t'"
    using join_locks.somebody_free [OF assms(3), of t0 s'] assms(4) none by auto
  then show ?thesis using free_moves_on [OF ok] none by blast
qed

theorem sign_ins_never_deadlock_witness:
  "\<exists>s. (join_step sample_pg)\<^sup>*\<^sup>* (solo empty_db []) s \<and> (\<exists>t. workers s t \<noteq> Free \<and> (moves_on sample_pg s t \<or> refused sample_pg s t))"
proof -
  let ?s = "set_worker 1 (Looking (sample_identity ''apple'')) (set_worker 0 (Looking (sample_identity ''google'')) (solo empty_db []))"
  have run: "(join_step sample_pg)\<^sup>*\<^sup>* (solo empty_db []) ?s"
    by (rule rtranclp.rtrancl_into_rtrancl [OF r_into_rtranclp]; rule join_step.begin_join) simp_all
  have "{t. workers ?s t \<noteq> Free} = {0, 1}" by auto
  then have fin: "finite {t. workers ?s t \<noteq> Free}" by simp
  have ok: "joins_ok sample_pg (solo empty_db [])" by (simp add: solo_ok accounts_wf_def verified_emails_def empty_db_def)
  have "workers ?s 0 \<noteq> Free" by simp
  note now = sign_ins_never_deadlock [OF ok run fin this, THEN conjunct1]
  from now obtain t where "workers ?s t \<noteq> Free" "moves_on sample_pg ?s t \<or> refused sample_pg ?s t" by (elim conjE exE) (rule that)
  then have "\<exists>t. workers ?s t \<noteq> Free \<and> (moves_on sample_pg ?s t \<or> refused sample_pg ?s t)" by (intro exI conjI)
  then show ?thesis by (intro exI [of _ ?s] conjI run)
qed

end
