(* ===== verification/Oidctest_Http.thy ===== *)
theory Oidctest_Http
  imports Oidctest Json_Write "HOL-Library.List_Lexorder" "HOL-Library.Char_ord"
begin

text \<open>
  The HTTP side of the test provider (internal/auth/oidctest/issuer.go): its three paths and the
  bytes it answers. Its bodies are Go maps, whose members encoding/json sorts.
\<close>

section \<open>Answers\<close>

fun sorted_json :: "json \<Rightarrow> json" where
  "sorted_json (JObject ms) = JObject (sort_key fst (map (\<lambda>(k, v). (k, sorted_json v)) ms))"
| "sorted_json (JArray vs) = JArray (map sorted_json vs)"
| "sorted_json v = v"

record issuer_answer =
  ans_status :: int
  ans_type :: string
  ans_body :: string

definition write_json :: "json \<Rightarrow> issuer_answer" where
  "write_json v = \<lparr>ans_status = 200, ans_type = ''application/json'', ans_body = json_write (sorted_json v) @ [CHR 0x0A]\<rparr>"

definition write_token_error :: "int \<Rightarrow> string \<Rightarrow> issuer_answer" where
  "write_token_error status code = (write_json (JObject [(''error'', JString code)]))\<lparr>ans_status := status\<rparr>"

fun answer_bytes :: "token_answer \<Rightarrow> issuer_answer" where
  "answer_bytes (TokenError status code) = write_token_error status code"
| "answer_bytes (TokenGranted jws) = write_json (JObject (token_members jws))"

text \<open>The mux: exact paths, whatever the method; None is a path that it does not have.\<close>

definition issuer_serve :: "signing_lib \<Rightarrow> string \<Rightarrow> token_form \<Rightarrow> test_issuer \<Rightarrow> issuer_answer option \<times> test_issuer" where
  "issuer_serve sl path form i =
    (if path = ''/.well-known/openid-configuration'' then (Some (write_json (discovery_document i)), i)
     else if path = ''/jwks.json'' then (Some (write_json (key_set i)), i)
     else if path = ''/token'' then map_prod (Some \<circ> answer_bytes) id (handle_token sl form i)
     else (None, i))"

section \<open>Reading the answers\<close>

text \<open>Sorting keeps the members, so that a lookup by name does not see it.\<close>

lemma map_of_sort_key: "distinct (map fst ms) \<Longrightarrow> map_of (sort_key fst ms) = map_of ms"
  by (subst map_of_inject_set) (simp_all add: distinct_map)

lemma sorted_plain: "json_plain v \<Longrightarrow> json_plain (sorted_json v)"
  by (induction v) (fastforce simp: list_all_iff)+

lemma sorted_depth: "json_depth v \<le> n \<Longrightarrow> json_depth (sorted_json v) \<le> n"
proof (induction v arbitrary: n)
  case (JObject ms)
  then obtain m where "n = Suc m" by (cases n) simp_all
  then show ?case using JObject.IH JObject.prems
    unfolding sorted_json.simps by (fastforce simp: json_depth_object simp del: json_depth.simps)
next
  case (JArray vs)
  then show ?case by (cases n) (simp_all add: fold_max_le)
qed simp_all

lemma written_answer_reads:
  assumes "json_plain v" and "json_depth v \<le> 10000"
  shows "json_unmarshal (ans_body (write_json v)) = Some (sorted_json v)"
proof -
  have line_end: "number_ends [CHR 0x0A]" "skip_ws [CHR 0x0A] = []"
    by (simp_all add: number_ends_def skip_ws_def is_ws_def byte_def is_digit_def)
  then show ?thesis
    using json_write_decode(2) [OF sorted_plain [OF assms(1)] sorted_depth [OF assms(2)]] by (simp add: write_json_def)
qed

text \<open>A client that looks up a member of a decoded answer finds the one the provider meant.\<close>

definition member_of :: "string \<Rightarrow> issuer_answer \<Rightarrow> json option" where
  "member_of k a = (case json_unmarshal (ans_body a) of Some (JObject ms) \<Rightarrow> map_of ms k | _ \<Rightarrow> None)"

lemma member_of_answer:
  assumes "json_plain (JObject ms)" and "json_depth (JObject ms) \<le> 10000" and "distinct (map fst ms)"
  shows "member_of k (write_json (JObject ms)) = map_option sorted_json (map_of ms k)"
proof -
  have "distinct (map fst (map (\<lambda>(k, v). (k, sorted_json v)) ms))"
    using assms(3) by (simp add: comp_def split_beta)
  then show ?thesis
    using written_answer_reads [OF assms(1,2)] by (simp add: member_of_def map_of_sort_key map_of_map)
qed

lemma utf8_valid_append: "utf8_valid s \<Longrightarrow> utf8_valid t \<Longrightarrow> utf8_valid (s @ t)"
proof (induction s rule: utf8_valid.induct)
  case (1 s)
  show ?case
  proof (cases "s = []")
    case False
    then have size: "utf8_size s \<noteq> 0" "utf8_valid (drop (utf8_size s) s)"
      using 1(2) by (simp_all add: utf8_valid.simps [of s] split: if_splits)
    have "utf8_size (s @ t) = utf8_size s"
      using size(1) utf8_size_le [of s] by (intro utf8_size_same) simp_all
    then show ?thesis
      using False size 1(1) [OF False size] 1(3) utf8_size_le [of s] by (simp add: utf8_valid.simps [of "s @ t"])
  qed (use 1 in simp)
qed

text \<open>What go-oidc needs of the discovery document, oauth2 of a grant, and both of a refusal.\<close>

lemma discovery_answer_reads:
  assumes "utf8_valid (iss_url i)"
  shows "member_of ''issuer'' (write_json (discovery_document i)) = Some (JString (iss_url i))"
    and "member_of ''token_endpoint'' (write_json (discovery_document i)) = Some (JString (iss_url i @ ''/token''))"
    and "member_of ''jwks_uri'' (write_json (discovery_document i)) = Some (JString (iss_url i @ ''/jwks.json''))"
  using assms unfolding discovery_document_def
  by (subst member_of_answer; simp add: utf8_valid_append utf8_valid_ascii byte_def)+

lemma granted_answer_reads:
  assumes "utf8_valid jws"
  shows "member_of ''id_token'' (answer_bytes (TokenGranted jws)) = Some (JString jws)"
proof -
  have "''3600'' = decimal 3600" by code_simp
  then have "json_plain (JObject (token_members jws))"
    using assms by (auto simp: token_members_def utf8_valid_ascii byte_def)
  then show ?thesis
    by (simp add: member_of_answer) (simp add: token_members_def member_of_answer)
qed

lemma refused_answer_reads:
  assumes "utf8_valid code"
  shows "member_of ''error'' (answer_bytes (TokenError status code)) = Some (JString code)"
    and "ans_status (answer_bytes (TokenError status code)) = status"
  using member_of_answer [of "[(''error'', JString code)]" "''error''"] assms
  by (simp_all add: write_token_error_def member_of_def utf8_valid_ascii byte_def)

end
