(* ===== verification/Testdb.thy ===== *)
theory Testdb
  imports Json_Write
begin

text \<open>
  internal/dbtest/dbtest.go: the empty database every test gets. Its state is the base server,
  resolved once per test binary, and the databases on it. What happens outside (the
  environment, Docker, whether Postgres is reached, and net/url's rewriting of a DSN's path) is the
  record \<open>test_host\<close>; Fatalf, which ends the test, is the answer None.
\<close>

section \<open>The base server\<close>

record test_host =
  th_database_url :: string
  th_container :: "string \<rightharpoonup> string"  \<comment> \<open>the image to the connection string, with sslmode=disable\<close>
  th_connects :: "string \<Rightarrow> bool"
  th_with_path :: "string \<Rightarrow> string \<Rightarrow> string option"

record cluster =
  base_dsn :: "string option option"  \<comment> \<open>what once.Do resolved, when it has run\<close>
  databases :: "string list"

definition postgres_image :: string where
  "postgres_image = ''postgres:16-alpine''"

definition start_container :: "test_host \<Rightarrow> string option" where
  "start_container h = th_container h postgres_image"

definition base_of :: "test_host \<Rightarrow> cluster \<Rightarrow> string option \<times> cluster" where
  "base_of h c =
    (case base_dsn c of
       Some r \<Rightarrow> (r, c)
     | None \<Rightarrow>
        (let r = (if th_database_url h \<noteq> [] then Some (th_database_url h) else start_container h)
         in (r, c\<lparr>base_dsn := Some r\<rparr>)))"

section \<open>A database per test\<close>

definition database_name :: "nanos \<Rightarrow> string" where
  "database_name now = ''test_'' @ decimal now"

text \<open>CREATE DATABASE, which fails for a name that is taken, and DROP DATABASE IF EXISTS.\<close>

definition create_database :: "string \<Rightarrow> cluster \<Rightarrow> cluster option" where
  "create_database name c = (if name \<in> set (databases c) then None else Some (c\<lparr>databases := databases c @ [name]\<rparr>))"

definition drop_database :: "string \<Rightarrow> cluster \<Rightarrow> cluster" where
  "drop_database name c = c\<lparr>databases := filter (\<lambda>n. n \<noteq> name) (databases c)\<rparr>"

definition for_database :: "test_host \<Rightarrow> string \<Rightarrow> string \<Rightarrow> string option" where
  "for_database h dsn database = th_with_path h dsn (CHR ''/'' # database)"

text \<open>The cleanup of a test; a server that is not reached is only logged.\<close>

definition drop_test_database :: "test_host \<Rightarrow> string \<Rightarrow> string \<Rightarrow> cluster \<Rightarrow> cluster" where
  "drop_test_database h dsn name c = (if \<not> th_connects h dsn then c else drop_database name c)"

text \<open>The DSN of a new database, with the cleanup it registered (the base DSN and the name).\<close>

definition new_test_database :: "test_host \<Rightarrow> nanos \<Rightarrow> cluster \<Rightarrow> string option \<times> (string \<times> string) option \<times> cluster" where
  "new_test_database h now c =
    (case base_of h c of
       (None, c1) \<Rightarrow> (None, None, c1)
     | (Some dsn, c1) \<Rightarrow>
        (if \<not> th_connects h dsn then (None, None, c1)
         else (case create_database (database_name now) c1 of
            None \<Rightarrow> (None, None, c1)
          | Some c2 \<Rightarrow> (for_database h dsn (database_name now), Some (dsn, database_name now), c2))))"

section \<open>Runs of tests\<close>

datatype test_op = OpNewDatabase nanos | OpCleanup string string

fun test_step :: "test_host \<Rightarrow> test_op \<Rightarrow> cluster \<Rightarrow> cluster" where
  "test_step h (OpNewDatabase now) c = snd (snd (new_test_database h now c))"
| "test_step h (OpCleanup dsn name) c = drop_test_database h dsn name c"

text \<open>Only the cleanup of a database names it.\<close>

fun leaves_alone :: "string \<Rightarrow> test_op \<Rightarrow> cluster \<Rightarrow> bool" where
  "leaves_alone name (OpNewDatabase now) c = True"
| "leaves_alone name (OpCleanup dsn n) c = (n \<noteq> name)"

lemma base_of_databases [simp]: "databases (snd (base_of h c)) = databases c"
  by (simp add: base_of_def Let_def split: option.split)

lemma new_database_cases:
  assumes "new_test_database h now c = (r, clean, c')"
  obtains (no_database) "r = None" and "clean = None" and "databases c' = databases c"
  | (made) dsn where "clean = Some (dsn, database_name now)" and "database_name now \<notin> set (databases c)"
      and "databases c' = databases c @ [database_name now]" and "r = for_database h dsn (database_name now)"
proof -
  obtain b c1 where b: "base_of h c = (b, c1)" by (cases "base_of h c")
  then have "databases c1 = databases c" using base_of_databases [of h c] by simp
  then show thesis
    using assms b no_database made
    by (auto simp: new_test_database_def create_database_def split: option.splits if_splits)
qed

interpretation tests: stable_predicate "test_step h" "leaves_alone name" "\<lambda>c. distinct (databases c)" "\<lambda>c. name \<in> set (databases c)"
  for h name
proof
  fix c :: cluster and a assume d: "distinct (databases c)"
  show "distinct (databases (test_step h a c))"
  proof (cases a)
    case (OpNewDatabase now)
    obtain r clean c' where n: "new_test_database h now c = (r, clean, c')" by (cases "new_test_database h now c")
    then show ?thesis using OpNewDatabase d by (cases rule: new_database_cases [OF n]) simp_all
  qed (use d in \<open>simp add: drop_test_database_def drop_database_def\<close>)
next
  fix c :: cluster and a assume m: "name \<in> set (databases c)" "leaves_alone name a c"
  show "name \<in> set (databases (test_step h a c))"
  proof (cases a)
    case (OpNewDatabase now)
    obtain r clean c' where n: "new_test_database h now c = (r, clean, c')" by (cases "new_test_database h now c")
    then show ?thesis using OpNewDatabase m by (cases rule: new_database_cases [OF n]) simp_all
  qed (use m in \<open>auto simp: drop_test_database_def drop_database_def\<close>)
qed

text \<open>
  A database of its own. What New hands a test was not there before, is of no other test, and
  stays, whatever other tests create and clean up, until its own cleanup; and
  the server is chosen once.
\<close>

theorem test_database_is_its_own:
  assumes "distinct (databases c)" and "new_test_database h now c = (Some dsn, clean, c')"
    and "guarded_run (leaves_alone (database_name now)) (test_step h) as c'"
  shows "\<exists>b. clean = Some (b, database_name now) \<and> dsn = the (for_database h b (database_name now))
    \<and> database_name now \<notin> set (databases c) \<and> database_name now \<in> set (databases (run_steps (test_step h) as c'))"
  using assms(2)
proof (cases rule: new_database_cases)
  case (made b)
  then have "distinct (databases c')" using assms(1) by simp
  moreover have "database_name now \<in> set (databases c')" using made by simp
  ultimately show ?thesis using tests.stable_run [OF _ _ assms(3)] made by (metis option.sel)
qed simp

end
