(* ===== verification/Secrecy.thy ===== *)
theory Secrecy
  imports Service_Theorems
begin

text \<open>
  Where refresh tokens can show. The server is run twice: in the second world the browser presents
  another refresh token, other random bytes are drawn, and the table holds the digests of
  correspondingly other tokens. What is answered and logged must be the same but for the value
  of the cookie, and the tables must still correspond. The correspondence is a one-to-one
  renaming \<open>\<pi>\<close> of digests.
\<close>

section \<open>Two corresponding databases\<close>

definition recode :: "(string \<Rightarrow> string) \<Rightarrow> refresh_token \<Rightarrow> refresh_token" where
  "recode \<pi> r = r\<lparr>token_hash := \<pi> (token_hash r)\<rparr>"

definition renamed :: "(string \<Rightarrow> string) \<Rightarrow> db \<Rightarrow> db" where
  "renamed \<pi> d = d\<lparr>refresh_tokens := map (recode \<pi>) (refresh_tokens d)\<rparr>"

lemma recode_simps [simp]:
  "token_id (recode \<pi> r) = token_id r" "token_user (recode \<pi> r) = token_user r" "token_family (recode \<pi> r) = token_family r"
  "token_hash (recode \<pi> r) = \<pi> (token_hash r)" "issued_at (recode \<pi> r) = issued_at r" "expires_at (recode \<pi> r) = expires_at r"
  "used_at (recode \<pi> r) = used_at r" "revoked_at (recode \<pi> r) = revoked_at r"
  "mark_used now (recode \<pi> r) = recode \<pi> (mark_used now r)" "mark_revoked now (recode \<pi> r) = recode \<pi> (mark_revoked now r)"
  by (simp_all add: recode_def mark_used_def mark_revoked_def)

lemma renamed_simps [simp]:
  "users (renamed \<pi> d) = users d" "identities (renamed \<pi> d) = identities d"
  "refresh_tokens (renamed \<pi> d) = map (recode \<pi>) (refresh_tokens d)"
  "renamed \<pi> d\<lparr>users := us\<rparr> = renamed \<pi> (d\<lparr>users := us\<rparr>)" "renamed \<pi> d\<lparr>identities := is\<rparr> = renamed \<pi> (d\<lparr>identities := is\<rparr>)"
  by (simp_all add: renamed_def)

lemma find_map: "find P (map f xs) = map_option f (find (\<lambda>x. P (f x)) xs)"
  by (induction xs) auto

lemma update_where_map: "(\<And>x. g (f x) = f (g x)) \<Longrightarrow> update_where P g (map f xs) = map f (update_where (\<lambda>x. P (f x)) g xs)"
  by (induction xs) auto

lemma list_ex_map_comp: "list_ex P (map f xs) = list_ex (\<lambda>x. P (f x)) xs"
  by (induction xs) auto

text \<open>A statement that does the same in both worlds, its answer translated by \<open>h\<close>.\<close>

definition corresponds :: "(string \<Rightarrow> string) \<Rightarrow> ('a \<Rightarrow> 'b) \<Rightarrow> 'a statement \<Rightarrow> 'b statement \<Rightarrow> bool" where
  "corresponds \<pi> h q q' \<longleftrightarrow> (\<forall>d. q' (renamed \<pi> d) = map_prod (map_sum id h) (renamed \<pi>) (q d))"

lemma correspondsI: "(\<And>d. q' (renamed \<pi> d) = map_prod (map_sum id h) (renamed \<pi>) (q d)) \<Longrightarrow> corresponds \<pi> h q q'"
  by (simp add: corresponds_def)

lemma corresponds_exec:
  assumes "corresponds \<pi> h q q'"
  shows "exec f q' (renamed \<pi> d) = map_prod (map_sum id h) (renamed \<pi>) (exec f q d)"
  using assms by (cases f) (simp_all add: corresponds_def exec_def)

section \<open>The statements on refresh tokens\<close>

lemma family_revoked_recode [simp]: "family_revoked (map (recode \<pi>) rows) f = family_revoked rows f"
  by (simp add: family_revoked_def list_ex_map_comp)

lemma consumable_recode: "inj \<pi> \<Longrightarrow> consumable now (\<pi> h) (map (recode \<pi>) rows) (recode \<pi> r) = consumable now h rows r"
  by (simp add: consumable_def inj_eq)

lemma consume_corresponds: "inj \<pi> \<Longrightarrow> corresponds \<pi> (recode \<pi>) (consume_refresh_token now h) (consume_refresh_token now (\<pi> h))"
  by (rule correspondsI) (simp add: consume_refresh_token_def Let_def find_map update_where_map consumable_recode renamed_def split: option.split)

lemma get_by_hash_corresponds: "inj \<pi> \<Longrightarrow> corresponds \<pi> (recode \<pi>) (query (get_refresh_token_by_hash h)) (query (get_refresh_token_by_hash (\<pi> h)))"
  by (intro correspondsI) (simp add: query_def get_refresh_token_by_hash_def find_map inj_eq split: option.split)

lemma insert_corresponds:
  assumes inj: "inj \<pi>"
  shows "corresponds \<pi> (recode \<pi>) (insert_refresh_token now i \<lparr>param_user = u, param_family = f, param_hash = h, param_expires = x\<rparr>)
    (insert_refresh_token now i \<lparr>param_user = u, param_family = f, param_hash = \<pi> h, param_expires = x\<rparr>)"
proof (rule correspondsI)
  fix d
  have "token_id ` recode \<pi> ` A = token_id ` A" "\<pi> h \<in> token_hash ` recode \<pi> ` A \<longleftrightarrow> h \<in> token_hash ` A" for A
    using inj by (auto simp: image_image inj_eq)
  then show "insert_refresh_token now i \<lparr>param_user = u, param_family = f, param_hash = \<pi> h, param_expires = x\<rparr> (renamed \<pi> d)
    = map_prod (map_sum id (recode \<pi>)) (renamed \<pi>)
        (insert_refresh_token now i \<lparr>param_user = u, param_family = f, param_hash = h, param_expires = x\<rparr> d)"
    by (simp add: insert_refresh_token_def renamed_def new_row_def recode_def)
qed

lemma benign_corresponds:
  "corresponds \<pi> id (query (\<lambda>d. Inr (is_benign_refresh_race now u g f d))) (query (\<lambda>d. Inr (is_benign_refresh_race now u g f d)))"
  by (rule correspondsI) (simp add: query_def is_benign_refresh_race_def list_ex_map_comp split: option.split)

lemma revoke_corresponds:
  assumes "\<And>r. P (recode \<pi> r) = P r"
  shows "corresponds \<pi> id (revoke_where P now) (revoke_where P now)"
proof (rule correspondsI)
  fix d
  show "revoke_where P now (renamed \<pi> d) = map_prod (map_sum id id) (renamed \<pi>) (revoke_where P now d)"
    by (simp add: revoke_where_def Let_def filter_map comp_def update_where_map assms renamed_def)
qed

section \<open>Sessions\<close>

text \<open>The session of the second world: the same but for the secret drawn.\<close>

definition resealed :: "(nat \<Rightarrow> u8) \<Rightarrow> session \<Rightarrow> session" where
  "resealed g s = s\<lparr>session_refresh := (session_refresh s)
     \<lparr>refresh_secret := refresh_secret_of g, refresh_hash := hash_refresh_token (refresh_secret_of g)\<rparr>\<rparr>"

lemma resealed_simps [simp]:
  "session_access (resealed g s) = session_access s" "session_family (resealed g s) = session_family s"
  "session_user (resealed g s) = session_user s" "refresh_expires_at (session_refresh (resealed g s)) = refresh_expires_at (session_refresh s)"
  by (simp_all add: resealed_def)

text \<open>The second world's draws.\<close>

definition redrawn :: "(nat \<Rightarrow> u8) \<Rightarrow> env \<Rightarrow> env" where
  "redrawn g e = e\<lparr>random_bytes := Some g\<rparr>"

lemma redrawn_simps [simp]:
  "fault_at (redrawn g e) = fault_at e" "db_now (redrawn g e) = db_now e" "go_now (redrawn g e) = go_now e"
  "fresh_uuid (redrawn g e) = fresh_uuid e" "row_id (redrawn g e) = row_id e" "random_bytes (redrawn g e) = Some g"
  by (simp_all add: redrawn_def)

definition worlds :: "(string \<Rightarrow> string) \<Rightarrow> env \<Rightarrow> (nat \<Rightarrow> u8) \<Rightarrow> (nat \<Rightarrow> u8) \<Rightarrow> bool" where
  "worlds \<pi> e f g \<longleftrightarrow> inj \<pi> \<and> random_bytes e = Some f
    \<and> \<pi> (hash_refresh_token (refresh_secret_of f)) = hash_refresh_token (refresh_secret_of g)"

lemma mint_renamed:
  assumes "worlds \<pi> e f g"
  shows "mint L t (redrawn g e) now u fam (renamed \<pi> d) = map_prod (map_sum id (resealed g)) (renamed \<pi>) (mint L t e now u fam d)"
proof -
  let ?n = "\<lambda>h. insert_refresh_token now (row_id e RefreshTokensTable) \<lparr>param_user = u, param_family = fam,
    param_hash = hash_refresh_token (refresh_secret_of h), param_expires = to_micros (go_now e RefreshClock + refresh_token_ttl)\<rparr>"
  have ins: "exec (fault_at e InsertRefreshToken) (?n g) (renamed \<pi> d) = map_prod (map_sum id (recode \<pi>)) (renamed \<pi>) (exec (fault_at e InsertRefreshToken) (?n f) d)"
    using insert_corresponds [of \<pi> now "row_id e RefreshTokensTable" u fam "hash_refresh_token (refresh_secret_of f)"
        "to_micros (go_now e RefreshClock + refresh_token_ttl)"] assms
    by (intro corresponds_exec) (simp add: worlds_def)
  obtain x d1 where x: "exec (fault_at e InsertRefreshToken) (?n f) d = (x, d1)" by (cases "exec (fault_at e InsertRefreshToken) (?n f) d")
  show ?thesis
    using assms ins x by (cases x) (simp_all add: mint_def worlds_def new_refresh_token_ok resealed_def split: sum.split)
qed

lemma issue_renamed:
  "worlds \<pi> e f g \<Longrightarrow> issue L t (redrawn g e) u (renamed \<pi> d) = map_prod (map_sum id (resealed g)) (renamed \<pi>) (issue L t e u d)"
  by (simp add: issue_def mint_renamed)

lemma diagnose_renamed:
  assumes "inj \<pi>"
  shows "diagnose_failed_consume (redrawn g e) (\<pi> h) (renamed \<pi> d) = map_prod id (renamed \<pi>) (diagnose_failed_consume e h d)"
proof -
  have get: "exec (fault_at e GetRefreshTokenByHash) (query (get_refresh_token_by_hash (\<pi> h))) (renamed \<pi> d)
      = map_prod (map_sum id (recode \<pi>)) (renamed \<pi>) (exec (fault_at e GetRefreshTokenByHash) (query (get_refresh_token_by_hash h)) d)" for d
    by (rule corresponds_exec [OF get_by_hash_corresponds [OF assms]])
  note benign = corresponds_exec [OF benign_corresponds]
  have rev: "exec k (revoke_refresh_token_family now fam) (renamed \<pi> d) = map_prod (map_sum id id) (renamed \<pi>) (exec k (revoke_refresh_token_family now fam) d)" for k now fam d
    unfolding revoke_refresh_token_family_def by (rule corresponds_exec [OF revoke_corresponds]) simp
  obtain x d1 where x: "exec (fault_at e GetRefreshTokenByHash) (query (get_refresh_token_by_hash h)) d = (x, d1)"
    by (cases "exec (fault_at e GetRefreshTokenByHash) (query (get_refresh_token_by_hash h)) d")
  show ?thesis
  proof (cases x)
    case (Inl err)
    then show ?thesis by (cases err) (simp_all add: diagnose_failed_consume_def get x)
  next
    case (Inr r)
    show ?thesis
      by (simp add: diagnose_failed_consume_def get x Inr benign rev split: sum.split prod.split)
  qed
qed

lemma rotate_renamed:
  assumes "worlds \<pi> e f g" and "\<pi> (hash_refresh_token tok) = hash_refresh_token tok'"
  shows "rotate L t (redrawn g e) tok' (renamed \<pi> d) = map_prod (map_sum id (resealed g)) (renamed \<pi>) (rotate L t e tok d)"
proof -
  have inj: "inj \<pi>" using assms(1) by (simp add: worlds_def)
  note con = corresponds_exec [OF consume_corresponds [OF inj]]
  have tx: "exec k begin_tx (renamed \<pi> d) = map_prod (map_sum id id) (renamed \<pi>) (exec k begin_tx d)" for k d
    by (rule corresponds_exec, rule correspondsI) (simp add: begin_tx_def)
  have commit: "exec k (commit_tx (renamed \<pi> tx)) (renamed \<pi> d) = map_prod (map_sum id id) (renamed \<pi>) (exec k (commit_tx tx) d)" for k tx d
    by (rule corresponds_exec, rule correspondsI) (simp add: commit_tx_def)
  obtain b tx1 where b: "exec (fault_at e BeginTx) begin_tx d = (b, tx1)" by (cases "exec (fault_at e BeginTx) begin_tx d")
  obtain c tx2 where c: "exec (fault_at e ConsumeRefreshToken) (consume_refresh_token (db_now e BeginTx) (hash_refresh_token tok)) tx1 = (c, tx2)"
    by (cases "exec (fault_at e ConsumeRefreshToken) (consume_refresh_token (db_now e BeginTx) (hash_refresh_token tok)) tx1")
  show ?thesis
  proof (cases b)
    case (Inl err)
    then show ?thesis by (simp add: rotate_def Let_def tx b)
  next
    case (Inr u)
    note begun = rotate_def Let_def tx b Inr con [of _ _ "hash_refresh_token tok", unfolded assms(2)] c
    show ?thesis
    proof (cases c)
      case (Inl err)
      then show ?thesis
        by (cases err) (simp_all add: begun diagnose_renamed [OF inj, of _ _ "hash_refresh_token tok", unfolded assms(2)] split_beta)
    next
      case (Inr r)
      obtain m tx3 where m: "mint L t e (db_now e BeginTx) (token_user r) (token_family r) tx2 = (m, tx3)"
        by (cases "mint L t e (db_now e BeginTx) (token_user r) (token_family r) tx2")
      obtain z d' where z: "exec (fault_at e CommitTx) (commit_tx tx3) d = (z, d')" by (cases "exec (fault_at e CommitTx) (commit_tx tx3) d")
      show ?thesis
        by (cases m; cases z) (simp_all add: begun Inr mint_renamed [OF assms(1)] m commit z)
    qed
  qed
qed

lemma revoke_by_token_renamed:
  assumes "inj \<pi>" and "\<pi> (hash_refresh_token tok) = hash_refresh_token tok'"
  shows "revoke_by_token (redrawn g e) tok' (renamed \<pi> d) = map_prod id (renamed \<pi>) (revoke_by_token e tok d)"
proof -
  note get = corresponds_exec [OF get_by_hash_corresponds [OF assms(1)], of _ "hash_refresh_token tok", unfolded assms(2)]
  have rev: "exec k (revoke_refresh_token_family now fam) (renamed \<pi> d) = map_prod (map_sum id id) (renamed \<pi>) (exec k (revoke_refresh_token_family now fam) d)" for k now fam d
    unfolding revoke_refresh_token_family_def by (rule corresponds_exec [OF revoke_corresponds]) simp
  obtain x d1 where x: "exec (fault_at e GetRefreshTokenByHash) (query (get_refresh_token_by_hash (hash_refresh_token tok))) d = (x, d1)"
    by (cases "exec (fault_at e GetRefreshTokenByHash) (query (get_refresh_token_by_hash (hash_refresh_token tok))) d")
  show ?thesis
  proof (cases x)
    case (Inl err)
    then show ?thesis by (cases err) (simp_all add: revoke_by_token_def get x)
  next
    case (Inr r)
    show ?thesis by (simp add: revoke_by_token_def get x Inr rev split: sum.split prod.split)
  qed
qed

section \<open>Accounts\<close>

text \<open>A provisioning sees no refresh token.\<close>

definition renamed_world :: "(string \<Rightarrow> string) \<Rightarrow> world \<Rightarrow> world" where
  "renamed_world \<pi> w = w\<lparr>world_db := renamed \<pi> (world_db w)\<rparr>"

lemma renamed_world_simps [simp]:
  "world_db (renamed_world \<pi> w) = renamed \<pi> (world_db w)" "world_log (renamed_world \<pi> w) = world_log w"
  "add_log l (renamed_world \<pi> w) = renamed_world \<pi> (add_log l w)"
  "renamed_world \<pi> \<lparr>world_db = d, world_log = ls\<rparr> = \<lparr>world_db = renamed \<pi> d, world_log = ls\<rparr>"
  by (simp_all add: renamed_world_def add_log_def)

lemma run_sql_renamed: "corresponds \<pi> id q q \<Longrightarrow> run_sql f q (renamed_world \<pi> w) = map_prod id (renamed_world \<pi>) (run_sql f q w)"
  by (cases "exec f q (world_db w)") (simp add: run_sql_def corresponds_exec [of \<pi> id q q] renamed_world_def sum.map_id0)

lemma account_statements_correspond:
  "corresponds \<pi> id (query (get_user_by_identity p k)) (query (get_user_by_identity p k))"
  "corresponds \<pi> id (query (get_verified_user_by_email gg m)) (query (get_verified_user_by_email gg m))"
  "corresponds \<pi> id (query (list_identity_subjects_for_user gg i)) (query (list_identity_subjects_for_user gg i))"
  "corresponds \<pi> id (query (get_user_by_id i)) (query (get_user_by_id i))"
  "corresponds \<pi> id (create_user gg now i up) (create_user gg now i up)"
  "corresponds \<pi> id (create_identity now i ip) (create_identity now i ip)"
  "corresponds \<pi> id (update_user_profile now i name avatar) (update_user_profile now i name avatar)"
  by (rule correspondsI, simp add: query_def get_user_by_identity_def get_verified_user_by_email_def list_identity_subjects_for_user_def
      get_user_by_id_def create_user_def create_identity_def update_user_profile_def sum.map_id0 split: option.split)+

lemmas run_account_sql = account_statements_correspond [THEN run_sql_renamed]

lemma refresh_profile_renamed: "refresh_profile (redrawn g e) u i (renamed_world \<pi> w) = map_prod id (renamed_world \<pi>) (refresh_profile e u i w)"
  by (simp add: refresh_profile_def Let_def run_account_sql prod.map_comp comp_def)

lemma link_target_renamed: "link_target gg (redrawn g e) i (renamed_world \<pi> w) = map_prod id (renamed_world \<pi>) (link_target gg e i w)"
proof -
  obtain x w1 where x: "run_sql (fault_at e GetVerifiedUserByEmail) (query (get_verified_user_by_email gg (id_email i))) w = (x, w1)"
    by (cases "run_sql (fault_at e GetVerifiedUserByEmail) (query (get_verified_user_by_email gg (id_email i))) w")
  show ?thesis by (simp add: link_target_def run_account_sql x split: sum.split sql_error.split)
qed

lemma link_renamed: "link gg L (redrawn g e) u i (renamed_world \<pi> w) = map_prod id (renamed_world \<pi>) (link gg L e u i w)"
  by (simp add: link_def run_account_sql refresh_profile_renamed split: sum.split prod.split)

lemma create_renamed: "create gg L (redrawn g e) i (renamed_world \<pi> w) = map_prod id (renamed_world \<pi>) (create gg L e i w)"
  by (simp add: create_def Let_def run_account_sql split: sum.split prod.split)

lemma provision_tx_renamed: "provision_tx gg L (redrawn g e) i (renamed_world \<pi> w) = map_prod id (renamed_world \<pi>) (provision_tx gg L e i w)"
proof -
  let ?q = "query (get_user_by_identity (id_provider i) (id_subject i))"
  obtain x w1 where x: "run_sql (fault_at e GetUserByIdentity) ?q w = (x, w1)" by (cases "run_sql (fault_at e GetUserByIdentity) ?q w")
  obtain y w2 where y: "link_target gg e i w1 = (y, w2)" by (cases "link_target gg e i w1")
  note steps = provision_tx_def run_account_sql x link_target_renamed y link_renamed create_renamed refresh_profile_renamed
  show ?thesis
  proof (cases x)
    case (Inl err)
    then show ?thesis by (cases err) (simp_all add: steps split: sum.split option.split)
  qed (simp add: steps)
qed

lemma provision_renamed:
  "provision gg L (redrawn g e) i (renamed \<pi> d) = map_prod id (map_prod id (renamed \<pi>)) (provision gg L e i d)"
proof -
  have tx: "exec k begin_tx (renamed \<pi> d) = map_prod id (renamed \<pi>) (exec k begin_tx d)" for k d
    using corresponds_exec [of \<pi> id begin_tx begin_tx k d] by (simp add: corresponds_def begin_tx_def sum.map_id0)
  have commit: "exec k (commit_tx (renamed \<pi> tx)) (renamed \<pi> d) = map_prod id (renamed \<pi>) (exec k (commit_tx tx) d)" for k tx d
    using corresponds_exec [of \<pi> id "commit_tx tx" "commit_tx (renamed \<pi> tx)" k d] by (simp add: corresponds_def commit_tx_def sum.map_id0)
  have run: "provision_tx gg L (redrawn g e) i \<lparr>world_db = renamed \<pi> d, world_log = []\<rparr>
      = map_prod id (renamed_world \<pi>) (provision_tx gg L e i \<lparr>world_db = d, world_log = []\<rparr>)" for d
    using provision_tx_renamed [of gg L g e i \<pi> "\<lparr>world_db = d, world_log = []\<rparr>"] by simp
  obtain b tx0 where b: "exec (fault_at e BeginTx) begin_tx d = (b, tx0)" by (cases "exec (fault_at e BeginTx) begin_tx d")
  obtain x w where x: "provision_tx gg L e i \<lparr>world_db = tx0, world_log = []\<rparr> = (x, w)"
    by (cases "provision_tx gg L e i \<lparr>world_db = tx0, world_log = []\<rparr>")
  obtain z d' where z: "exec (fault_at e CommitTx) (commit_tx (world_db w)) d = (z, d')"
    by (cases "exec (fault_at e CommitTx) (commit_tx (world_db w)) d")
  show ?thesis by (cases b; cases x; cases z) (simp_all add: provision_def tx b run x commit z)
qed

lemma by_id_renamed: "by_id (redrawn g e) u (renamed \<pi> d) = map_prod id (renamed \<pi>) (by_id e u d)"
  using corresponds_exec [OF account_statements_correspond(4), of "fault_at e GetUserByID" u \<pi> d]
  by (simp add: by_id_def sum.map_id0 prod.map_comp comp_def)

section \<open>Handlers\<close>

text \<open>What may be seen of an answer: all of it but the values of its cookies.\<close>

definition unsealed :: "response \<Rightarrow> response" where
  "unsealed r = r\<lparr>resp_cookies := map (\<lambda>c. c\<lparr>cookie_value := []\<rparr>) (resp_cookies r)\<rparr>"

lemma unsealed_eq: "unsealed a = unsealed b \<longleftrightarrow> resp_status a = resp_status b \<and> resp_headers a = resp_headers b \<and> resp_body a = resp_body b
    \<and> map (\<lambda>c. c\<lparr>cookie_value := []\<rparr>) (resp_cookies a) = map (\<lambda>c. c\<lparr>cookie_value := []\<rparr>) (resp_cookies b)"
  by (cases a; cases b) (auto simp: unsealed_def)

text \<open>The answer and the log are alike in both worlds, and the databases still correspond.\<close>

definition alike :: "(string \<Rightarrow> string) \<Rightarrow> outcome_state \<Rightarrow> outcome_state \<Rightarrow> bool" where
  "alike \<pi> o1 o2 \<longleftrightarrow> unsealed (out_response o2) = unsealed (out_response o1) \<and> out_log o2 = out_log o1 \<and> out_db o2 = renamed \<pi> (out_db o1)"

lemma alike_respond [simp]: "alike \<pi> (respond logs d rl) (respond logs (renamed \<pi> d) rl)"
  by (simp add: alike_def)

lemma write_session_alike:
  "alike \<pi> (write_session p s e ses u logs d) (write_session p s (redrawn g e) (resealed g ses) u logs (renamed \<pi> d))"
proof (cases u)
  case None
  obtain x d' where "by_id e (session_user ses) d = (x, d')" by (cases "by_id e (session_user ses) d")
  then show ?thesis
    by (cases x) (simp_all add: None write_session_def Let_def by_id_renamed alike_def unsealed_def write_problem_def encode_body_def
        set_refresh_cookie_def set_cookie_def set_header_def write_header_def no_response_def)
next
  case (Some v)
  then show ?thesis
    by (simp add: write_session_def Let_def alike_def unsealed_def encode_body_def
        set_refresh_cookie_def set_cookie_def set_header_def write_header_def no_response_def)
qed

text \<open>The same request with another refresh token, or with none in both worlds.\<close>

definition same_but_token :: "(string \<Rightarrow> string) \<Rightarrow> request \<Rightarrow> request \<Rightarrow> bool" where
  "same_but_token \<pi> r r' \<longleftrightarrow> authorization r' = authorization r \<and> request_body r' = request_body r
    \<and> (refresh_cookie r = [] \<and> refresh_cookie r' = []
      \<or> refresh_cookie r \<noteq> [] \<and> refresh_cookie r' \<noteq> [] \<and> \<pi> (hash_refresh_token (refresh_cookie r)) = hash_refresh_token (refresh_cookie r'))"

lemma worlds_inj: "worlds \<pi> e f g \<Longrightarrow> inj \<pi>"
  by (simp add: worlds_def)

lemma complete_sign_in_alike:
  assumes "worlds \<pi> e f g" and "same_but_token \<pi> r r'"
  shows "alike \<pi> (complete_sign_in p s e provider r i d) (complete_sign_in p s (redrawn g e) provider r' i (renamed \<pi> d))"
proof -
  obtain x logs d1 where x: "provision (pf_pg p) (pf_libs p) e i d = (x, logs, d1)" by (rule prod_cases3)
  let ?revoked = "if refresh_cookie r \<noteq> [] then revoke_by_token e (refresh_cookie r) d1 else (Inr (), d1)"
  obtain y d2 where y: "?revoked = (y, d2)" by (cases ?revoked)
  have y': "(if refresh_cookie r' \<noteq> [] then revoke_by_token (redrawn g e) (refresh_cookie r') (renamed \<pi> d1) else (Inr (), renamed \<pi> d1)) = (y, renamed \<pi> d2)"
    using assms(2) y revoke_by_token_renamed [OF worlds_inj [OF assms(1)]] by (auto simp: same_but_token_def)
  show ?thesis
  proof (cases x)
    case (Inl err)
    then show ?thesis by (simp add: complete_sign_in_def provision_renamed x sign_in_failed_def)
  next
    case (Inr u)
    note begun = complete_sign_in_def provision_renamed x Inr Let_def y y' sign_in_failed_def
    show ?thesis
    proof (cases y)
      case (Inr w)
      obtain z d3 where z: "issue (pf_libs p) (srv_tokens s) e (user_id u) d2 = (z, d3)"
        by (cases "issue (pf_libs p) (srv_tokens s) e (user_id u) d2")
      show ?thesis
        by (cases z) (simp_all add: begun Inr issue_renamed [OF assms(1)] z write_session_alike)
    qed (simp add: begun)
  qed
qed

lemma auth_callback_alike:
  assumes "worlds \<pi> e f g" and "same_but_token \<pi> r r'"
  shows "alike \<pi> (auth_callback p s e provider r d) (auth_callback p s (redrawn g e) provider r' (renamed \<pi> d))"
  using assms(2) complete_sign_in_alike [OF assms]
  by (simp add: auth_callback_def same_but_token_def split: option.split sum.split)

lemma auth_refresh_alike:
  assumes "worlds \<pi> e f g" and "same_but_token \<pi> r r'"
  shows "alike \<pi> (auth_refresh p s e r d) (auth_refresh p s (redrawn g e) r' (renamed \<pi> d))"
proof (cases "refresh_cookie r = []")
  case True
  then show ?thesis using assms(2) by (simp add: auth_refresh_def same_but_token_def)
next
  case False
  obtain x d1 where x: "rotate (pf_libs p) (srv_tokens s) e (refresh_cookie r) d = (x, d1)"
    by (cases "rotate (pf_libs p) (srv_tokens s) e (refresh_cookie r) d")
  have r': "refresh_cookie r' \<noteq> []" "rotate (pf_libs p) (srv_tokens s) (redrawn g e) (refresh_cookie r') (renamed \<pi> d)
      = map_prod (map_sum id (resealed g)) (renamed \<pi>) (x, d1)"
    using assms False rotate_renamed [OF assms(1), of "refresh_cookie r" "refresh_cookie r'"] by (simp_all add: same_but_token_def x)
  show ?thesis
  proof (cases x)
    case (Inl err)
    then show ?thesis using False r' by (cases err) (simp_all add: auth_refresh_def x)
  next
    case (Inr ses)
    then show ?thesis using False r' by (simp add: auth_refresh_def x write_session_alike)
  qed
qed

lemma auth_logout_alike:
  assumes "inj \<pi>" and "same_but_token \<pi> r r'"
  shows "alike \<pi> (auth_logout p s e r d) (auth_logout p s (redrawn g e) r' (renamed \<pi> d))"
  using assms(2) revoke_by_token_renamed [OF assms(1), of "refresh_cookie r" "refresh_cookie r'" g e d]
  by (auto simp: auth_logout_def Let_def same_but_token_def split_beta)

lemma get_me_alike:
  assumes "same_but_token \<pi> r r'"
  shows "alike \<pi> (get_me p s e r d) (get_me p s (redrawn g e) r' (renamed \<pi> d))"
  using assms by (auto simp: get_me_def authenticate_def same_but_token_def by_id_renamed split: sum.split prod.split option.split)

lemma run_operation_alike:
  assumes "worlds \<pi> e f g" and "same_but_token \<pi> (call_request c) r'"
  shows "alike \<pi> (run_operation p x s e op params c d) (run_operation p x s (redrawn g e) op params (c\<lparr>call_request := r'\<rparr>) (renamed \<pi> d))"
proof (cases op)
  case OpGetHealth
  then show ?thesis by (simp add: get_health_def)
next
  case OpAuthCallback
  then show ?thesis using auth_callback_alike [OF assms] by (simp add: wrap_auth_callback_def Let_def split: sum.split)
next
  case OpAuthRefresh
  then show ?thesis using auth_refresh_alike [OF assms] by simp
next
  case OpAuthLogout
  then show ?thesis using auth_logout_alike [OF worlds_inj [OF assms(1)] assms(2)] by simp
next
  case OpGetMe
  then show ?thesis using get_me_alike [OF assms(2)] by simp
qed

text \<open>
  C34. The refresh token appears in no body, header or log line, and the database keeps only its
  digest. Take any call to the server, and the same call in a second world: the refresh token
  presented is another one, the random bytes drawn yield another new token, and the table
  holds the digests of the corresponding tokens. Then the status, the headers, the body and the
  log are the same, the cookies set are the same but for their values, and the tables
  left behind correspond again.
\<close>

theorem refresh_token_only_in_cookie:
  assumes "inj \<pi>" and "random_bytes e = Some f"
    and "\<pi> (hash_refresh_token (refresh_secret_of f)) = hash_refresh_token (refresh_secret_of g)"
    and "same_but_token \<pi> (call_request c) r'"
  shows "let o1 = serve p x s e c d; o2 = serve p x s (e\<lparr>random_bytes := Some g\<rparr>) (c\<lparr>call_request := r'\<rparr>) (renamed \<pi> d)
    in resp_status (out_response o2) = resp_status (out_response o1) \<and> resp_headers (out_response o2) = resp_headers (out_response o1)
      \<and> resp_body (out_response o2) = resp_body (out_response o1)
      \<and> map (\<lambda>k. k\<lparr>cookie_value := []\<rparr>) (resp_cookies (out_response o2)) = map (\<lambda>k. k\<lparr>cookie_value := []\<rparr>) (resp_cookies (out_response o1))
      \<and> out_log o2 = out_log o1 \<and> out_db o2 = renamed \<pi> (out_db o1)"
proof -
  have "worlds \<pi> e f g" using assms(1-3) by (simp add: worlds_def)
  note op = run_operation_alike [OF this assms(4)]
  have "alike \<pi> (serve p x s e c d) (serve p x s (redrawn g e) (c\<lparr>call_request := r'\<rparr>) (renamed \<pi> d))"
    by (simp add: serve_routes Let_def op split: option.split prod.split)
  then show ?thesis by (simp add: alike_def unsealed_eq redrawn_def Let_def)
qed

text \<open>Three digests exchanged in a circle: another token presented, and another drawn.\<close>

definition exchanged :: "string \<Rightarrow> string" where
  "exchanged = id(hash_refresh_token ''abc'' := hash_refresh_token (refresh_secret_of (\<lambda>_. 0)),
     hash_refresh_token (refresh_secret_of (\<lambda>_. 0)) := hash_refresh_token (refresh_secret_of (\<lambda>_. 1)),
     hash_refresh_token (refresh_secret_of (\<lambda>_. 1)) := hash_refresh_token ''abc'')"

lemma exchanged_inj: "inj exchanged"
  unfolding exchanged_def secret_zero secret_one hash_abc hash_secret_zero hash_secret_one
  by (auto simp: inj_on_def)

definition refresh_call :: http_call where
  "refresh_call = \<lparr>call_method = ''POST'', call_path = ''/api/v1/auth/refresh'', call_escaped = False,
     call_request = with_cookie ''abc'' bare_request\<rparr>"

theorem refresh_token_only_in_cookie_witness:
  "let o1 = serve sample_platform reference_chi idle_server (calm_env 10 0 3) refresh_call (sample_db (hash_refresh_token ''abc''));
       o2 = serve sample_platform reference_chi idle_server (calm_env 10 0 3\<lparr>random_bytes := Some (\<lambda>_. 1)\<rparr>)
         (refresh_call\<lparr>call_request := with_cookie (refresh_secret_of (\<lambda>_. 0)) bare_request\<rparr>)
         (renamed exchanged (sample_db (hash_refresh_token ''abc'')))
   in resp_body (out_response o2) = resp_body (out_response o1) \<and> out_log o2 = out_log o1 \<and> out_db o2 = renamed exchanged (out_db o1)"
proof -
  have pair: "same_but_token exchanged (call_request refresh_call) (with_cookie (refresh_secret_of (\<lambda>_. 0)) bare_request)"
    by (simp add: same_but_token_def refresh_call_def exchanged_def with_cookie_def refresh_cookie_def refresh_cookie_name_def
        secret_zero secret_one hash_abc hash_secret_zero hash_secret_one)
  have drawn: "exchanged (hash_refresh_token (refresh_secret_of (\<lambda>_. 0))) = hash_refresh_token (refresh_secret_of (\<lambda>_. 1))"
    by (simp add: exchanged_def secret_zero secret_one hash_abc hash_secret_zero hash_secret_one)
  have "random_bytes (calm_env 10 0 3) = Some (\<lambda>_. 0)" by simp
  from refresh_token_only_in_cookie [OF exchanged_inj this drawn pair] show ?thesis by (simp add: Let_def)
qed

end
