(* ===== verification/Spec2Isabelle.thy ===== *)
theory Spec2Isabelle
  imports Service_Theorems Race_Runs Startup_Theorems First_Visit Wire
    Locks Oidctest_Http Testdb Secrecy
begin

text \<open>
  A verification development of einkaufsliste, the Go API of a shared shopping list. At this
  commit the API is its sign-in core: people sign in with an OIDC provider, the server keeps
  accounts and refresh-token families in Postgres and hands out its own short-lived access
  tokens. The shopping lists themselves are package comments without code.

  \<^bold>\<open>The program.\<close> A request reaches the router (internal/transport/http/router.go and the
  generated openapi/openapi.gen.go), which hands it to a handler (auth.go, me.go, health.go, with
  cookies.go and problem.go). A sign-in redeems an authorisation code (internal/auth/exchange.go),
  checks the ID token (verifier.go), finds, links or creates the account (accounts.go over
  internal/store/accounts.sql.go) and starts a refresh-token family (sessions.go over
  internal/store/refresh_tokens.sql.go); a refresh rotates the family, a logout revokes it.
  tokens.go signs and parses access tokens. cmd/api/main.go reads the configuration, migrates the
  database and serves; cmd/api/healthcheck.go is the probe. internal/auth/oidctest is the provider
  the tests sign in with.

  \<^bold>\<open>The theories,\<close> from the ground up:
  \<^item> Prelude: machine types, \<open>update_where\<close> (an UPDATE of rows), and the generic interfaces:
    \<open>row_update\<close> (an update that keeps a key column), \<open>transition_system\<close> and \<open>stable_predicate\<close>
    (what runs of operations keep), \<open>kept_by_steps\<close> (the same for a step relation), \<open>simulation\<close>
    (a refinement of whole runs).
  \<^item> Sha256, Codec, Go_Lib, Json: the standard library as far as the source uses it. SHA-256 is
    checked against its test vector in Sha256_Vectors; base64 and hex are the two instances of
    the interface \<open>codec\<close>. The JSON reader takes the fuel 2 * length + 1, and \<open>json_fuel_enough\<close>
    shows that it never runs out. Json_Write is encoding/json's encoder with its escapes; the
    reader reads back what it writes.
  \<^item> Jwt, Tokens: the interface of the JWT library with what its documentation promises
    (\<open>jwt_documented\<close>), and tokens.go.
  \<^item> Schema: the tables as lists of rows, with the types of models.go; \<open>env\<close> is what one request
    draws from outside (clocks, random bytes, generated ids) and at which statements the
    connection fails, before or after the statement took effect. Token_Store and Account_Store:
    one definition per SQL statement, constraints included.
  \<^item> Token_Chains: \<open>token_effect\<close>, the ways an operation changes the refresh-token table, and the
    invariants it keeps: unique keys, and families that are chains in which only the last token
    can be unspent.
  \<^item> Sessions, Session_Spec, Session_Theorems: sessions.go; the abstract registry of families it
    implements (\<open>registry_of\<close> forgets ids, \<open>refine\<close> is the simulation); its properties.
  \<^item> Races, Race_Runs: the statements of concurrent rotations, revocations and sign-ins
    interleaved as Postgres runs them under READ COMMITTED (\<open>race_step\<close>), and that the runs of
    Sessions are among these.
  \<^item> Verifier, Exchange, Accounts, Account_Theorems: verifier.go, exchange.go and accounts.go.
  \<^item> Join_Races, Join_Theorems: the statements of concurrent provisionings interleaved the same
    way (\<open>join_step\<close>), what every interleaving keeps, and that the provisionings of Accounts are
    among them.
  \<^item> Locks: which of these statements waits for which transaction, and that somebody can always go
    on; \<open>lock_order\<close> is the shape of both arguments.
  \<^item> Http, Router, Service, Service_Theorems: the handlers; the generated server with its wrappers,
    middlewares and options, and the mux that NewRouter makes of it; the server as one transition
    system over the committed database, and the properties of its responses.
  \<^item> Secrecy: every call in two worlds that differ in the refresh tokens, and what cannot tell them
    apart.
  \<^item> Wire: the bytes of the response bodies, as the generated structs encode.
  \<^item> Config, Startup, Startup_Theorems: main.go, healthcheck.go, store.go and migrate.go; what the
    process does is its list of events and its exit code. The goroutine that listens runs beside
    run: \<open>interleaved\<close> merges their events as the scheduler chooses.
  \<^item> Oidctest: the provider of the tests; Oidctest_Http: its paths and the bytes of its answers,
    which decode to what the provider meant; Oidc_Sign_In: the code exchange with it; First_Visit: a
    first sign-in from the posted code to an access token that works, through every component.
  \<^item> Testdb: internal/dbtest, the database every test gets.
  \<^item> Reference: concrete libraries and databases, at which the witnesses apply the theorems.

  \<^bold>\<open>State and errors.\<close> The only state the server keeps is the database, the record \<open>db\<close>. An
  operation takes the environment and the committed database and answers with its result, a sum
  whose left side is the error, and the database it leaves; a transaction works on a copy that
  replaces the database at commit. An error that Go wraps is the error it wraps, so errors.Is
  is equality. A statement that Postgres refuses for a text it cannot store (a NUL, or bytes that
  are not UTF-8) fails like one that loses its connection. Clocks are integers of nanoseconds, and of microseconds in the database.

  \<^bold>\<open>What is shown.\<close> Of tokens: an accepted access token is the server's own and unexpired, and
  a refresh secret loses none of its entropy. Of sessions: refinement of the registry; a token is
  rotated at most once, replays and logouts end a family for good, a lost race does no harm,
  failures leave nothing half done, and an honest client is never stopped; under interleaving, one
  winner per token, at most one straggler after a revocation, and no deadlock that a rotation is
  part of. Of accounts: linking needs
  both sides verified, an identity keeps its account, nobody is merged or lost, and sign-ins at the
  same time end up as one account per identity and never wait in a circle. Of the
  server: every run keeps the tables well formed, no refresh token shows in a body, a header or the log,
  and what a sign-in grants works. Of the process: it serves last, and fails loudly. Of
  the test provider: codes are single-use and bound to their PKCE verifier, its forged tokens are
  refused, and a newcomer with a good token is signed in.

  \<^bold>\<open>Parameters and hypotheses.\<close> Code outside the repository is an argument of the definitions
  that use it: golang-jwt (\<open>jwt_lib\<close>, with \<open>jwt_documented\<close>), google/uuid (\<open>uuid_documented\<close>),
  go-oidc (\<open>oidc_lib\<close>, with \<open>oidc_documented\<close>), x/oauth2 (\<open>oauth_lib\<close>), the chi mux
  (\<open>chi_lib\<close>, with \<open>chi_documented\<close>), citext folding and collation (\<open>pg\<close>), and everything start-up
  meets outside (\<open>host\<close>). The hypotheses state documented behaviour and are met by the
  concrete libraries of Reference, Verifier and Router.

  \<^bold>\<open>Not modelled.\<close> The plumbing of internal/store/db.go (New and WithTx hand the statements a
  connection or a transaction, which here is the database they are given), the embedded
  migrations as SQL text (their constraints are in the stores), the request id and the recovery
  from panics of the router (no handler modelled here panics), the packages items, lists and sync
  (comments only), the web client (TypeScript), and deadlines: a call that times out is a call
  that fails. A signal before main asked to be notified of it ends the process as it would any other,
  which is left out; the probe's request is a parameter that answers the status of a GET, redirects
  followed.
\<close>

end
